(* ===== verification/Prelude.thy ===== *)
theory Prelude
  imports Main "HOL-Library.Word" "HOL-Library.List_Lexorder" "HOL-Library.Monad_Syntax"
begin

section \<open>Shared types, results and lemmas\<close>

text \<open>
  The machine integers of the code are words of the same width: the release profiles of the
  workspace and of the guests do not enable overflow checks, so \<open>+\<close>, \<open>-\<close> and \<open>*\<close> wrap
  around exactly as they do on \<^typ>\<open>'a word\<close>. Byte slices and fixed-size arrays are lists of
  bytes; the lexicographic order of \<^verbatim>\<open>[u8]\<close> is the order of \<^verbatim>\<open>HOL-Library.List_Lexorder\<close>.

  A Rust \<^verbatim>\<open>Result\<close> is a sum, with the abbreviations \<open>Ok\<close> and \<open>Err\<close>. A panic
  (\<^verbatim>\<open>assert!\<close>, \<^verbatim>\<open>expect\<close>, \<^verbatim>\<open>unwrap\<close>, an index out of range) is the value \<^const>\<open>None\<close> of a function
  whose type is an option, and the \<^verbatim>\<open>do\<close> notation of \<^const>\<open>Option.bind\<close> propagates it.
\<close>

type_synonym u8 = "8 word"
type_synonym u16 = "16 word"
type_synonym u32 = "32 word"
type_synonym u64 = "64 word"
type_synonym u128 = "128 word"
type_synonym u256 = "256 word"
type_synonym bytes = "u8 list"
type_synonym hash32 = "u8 list"

abbreviation Ok :: "'a \<Rightarrow> 'e + 'a" where "Ok \<equiv> Inr"
abbreviation Err :: "'e \<Rightarrow> 'e + 'a" where "Err \<equiv> Inl"

definition assert_that :: "bool \<Rightarrow> unit option" where
  "assert_that b = (if b then Some () else None)"

text \<open>The \<^verbatim>\<open>?\<close> operator and \<^verbatim>\<open>Result::map\<close>.\<close>

definition and_then :: "'e + 'a \<Rightarrow> ('a \<Rightarrow> 'e + 'b) \<Rightarrow> 'e + 'b" where
  "and_then r f = (case r of Inl e \<Rightarrow> Err e | Inr x \<Rightarrow> f x)"

definition map_ok :: "('a \<Rightarrow> 'b) \<Rightarrow> 'e + 'a \<Rightarrow> 'e + 'b" where
  "map_ok f r = (case r of Inl e \<Rightarrow> Err e | Inr x \<Rightarrow> Ok (f x))"

text \<open>\<^verbatim>\<open>slice.starts_with(prefix)\<close>, \<^verbatim>\<open>slice.chunks(n)\<close> and \<^verbatim>\<open>iter.rposition(p)\<close>.\<close>

definition starts_with :: "'a list \<Rightarrow> 'a list \<Rightarrow> bool" where
  "starts_with xs p \<longleftrightarrow> take (length p) xs = p"

function chunks :: "nat \<Rightarrow> 'a list \<Rightarrow> 'a list list" where
  "chunks n xs = (if n = 0 \<or> xs = [] then [] else take n xs # chunks n (drop n xs))"
  by pat_completeness auto
termination by (relation "measure (\<lambda>(n, xs). length xs)") auto

declare chunks.simps [simp del]

fun rposition :: "('a \<Rightarrow> bool) \<Rightarrow> 'a list \<Rightarrow> nat option" where
  "rposition p [] = None"
| "rposition p (x # xs) =
     (case rposition p xs of Some i \<Rightarrow> Some (Suc i) | None \<Rightarrow> (if p x then Some 0 else None))"

definition zeros :: "nat \<Rightarrow> bytes" where
  "zeros n = replicate n 0"

definition sat_sub :: "'a::len word \<Rightarrow> 'a word \<Rightarrow> 'a word" where
  "sat_sub a b = (if a < b then 0 else a - b)"

text \<open>Slices \<^verbatim>\<open>xs[i]\<close>: a panic out of range.\<close>

definition index :: "'a list \<Rightarrow> nat \<Rightarrow> 'a option" where
  "index xs i = (if i < length xs then Some (xs ! i) else None)"

text \<open>
  \<^verbatim>\<open>to_be_bytes\<close>, \<^verbatim>\<open>to_le_bytes\<close> and the reading of a byte string as a number, least significant byte
  first.
\<close>

definition be_bytes :: "nat \<Rightarrow> 'a::len word \<Rightarrow> bytes" where
  "be_bytes n w = map (\<lambda>i. ucast (drop_bit (8 * (n - 1 - i)) w)) [0..<n]"

definition le_bytes :: "nat \<Rightarrow> 'a::len word \<Rightarrow> bytes" where
  "le_bytes n w = map (\<lambda>i. ucast (drop_bit (8 * i) w)) [0..<n]"

fun le_nat :: "bytes \<Rightarrow> nat" where
  "le_nat [] = 0"
| "le_nat (b # bs) = unat b + 256 * le_nat bs"

definition be_nat :: "bytes \<Rightarrow> nat" where
  "be_nat bs = le_nat (rev bs)"

text \<open>The collections the component proofs draw on.\<close>

named_theorems panic_simps \<open>when a computation that may panic returns\<close>

lemma assert_that_Some [simp, panic_simps]: "assert_that b = Some u \<longleftrightarrow> b"
  by (simp add: assert_that_def)

lemma assert_that_None [simp, panic_simps]: "assert_that b = None \<longleftrightarrow> \<not> b"
  by (simp add: assert_that_def)

lemma assert_that_True [simp]: "assert_that True = Some ()"
  by (simp add: assert_that_def)

lemma index_Some [simp, panic_simps]: "index xs i = Some x \<longleftrightarrow> i < length xs \<and> xs ! i = x"
  by (auto simp: index_def)

lemma index_None [simp, panic_simps]: "index xs i = None \<longleftrightarrow> length xs \<le> i"
  by (auto simp: index_def)

lemma bind_is_Some [panic_simps]:
  "Option.bind m f = Some y \<longleftrightarrow> (\<exists>x. m = Some x \<and> f x = Some y)"
  by (cases m) auto

lemma case_sum_eq [panic_simps]:
  "(case r of Inl e \<Rightarrow> f e | Inr x \<Rightarrow> g x) = y \<longleftrightarrow>
   (\<exists>e. r = Inl e \<and> f e = y) \<or> (\<exists>x. r = Inr x \<and> g x = y)"
  by (cases r) auto

lemma case_option_eq_Some [panic_simps]:
  "(case r of None \<Rightarrow> None | Some x \<Rightarrow> g x) = Some y \<longleftrightarrow> (\<exists>x. r = Some x \<and> g x = Some y)"
  by (cases r) auto

lemma if_None_eq_Some [panic_simps]:
  "(if b then x else None) = Some y \<longleftrightarrow> b \<and> x = Some y"
  "(if b then None else x) = Some y \<longleftrightarrow> \<not> b \<and> x = Some y"
  by auto

lemma and_then_simps [simp]: "and_then (Inl e) f = Err e" "and_then (Inr x) f = f x"
  by (simp_all add: and_then_def)

lemma and_then_Ok [panic_simps]: "and_then r f = Ok y \<longleftrightarrow> (\<exists>x. r = Ok x \<and> f x = Ok y)"
  by (cases r) auto

lemma map_ok_simps [simp]: "map_ok f (Inl e) = Err e" "map_ok f (Inr x) = Ok (f x)"
  by (simp_all add: map_ok_def)

lemma map_ok_Ok [panic_simps]: "map_ok f r = Ok y \<longleftrightarrow> (\<exists>x. r = Ok x \<and> y = f x)"
  by (cases r) auto

lemma if_Err_eq_Ok [panic_simps]:
  "(if b then x else Err e) = Ok y \<longleftrightarrow> b \<and> x = Ok y"
  "(if b then Err e else x) = Ok y \<longleftrightarrow> \<not> b \<and> x = Ok y"
  by auto

lemma concat_chunks: "0 < n \<Longrightarrow> concat (chunks n xs) = xs"
proof (induction n xs rule: chunks.induct)
  case (1 n xs)
  then show ?case
    by (subst chunks.simps) auto
qed

lemma chunks_nonempty: "c \<in> set (chunks n xs) \<Longrightarrow> c \<noteq> [] \<and> length c \<le> n"
proof (induction n xs rule: chunks.induct)
  case (1 n xs)
  from "1.prems" show ?case
    using "1.IH" by (subst (asm) chunks.simps) (auto split: if_splits)
qed

lemma chunks_short: "xs \<noteq> [] \<Longrightarrow> length xs \<le> n \<Longrightarrow> chunks n xs = [xs]"
  by (subst chunks.simps) (cases xs, auto simp: chunks.simps)

lemma chunks_long: "0 < n \<Longrightarrow> n < length xs \<Longrightarrow> 2 \<le> length (chunks n xs)"
proof -
  assume "0 < n" "n < length xs"
  then have "chunks n xs = take n xs # take n (drop n xs) # chunks n (drop n (drop n xs))"
    by (subst chunks.simps, subst chunks.simps) auto
  then show ?thesis
    by simp
qed

lemma rposition_Some:
  "rposition p xs = Some i \<Longrightarrow> i < length xs \<and> p (xs ! i) \<and> (\<forall>j. i < j \<and> j < length xs \<longrightarrow> \<not> p (xs ! j))"
proof (induction xs arbitrary: i)
  case (Cons x xs)
  show ?case
  proof (cases "rposition p xs")
    case None
    moreover have "rposition p ys = None \<Longrightarrow> y \<in> set ys \<Longrightarrow> \<not> p y" for ys y
      by (induction ys) (auto split: option.splits if_splits)
    ultimately show ?thesis
      using Cons.prems by (auto split: if_splits simp: nth_Cons')
  next
    case (Some k)
    then show ?thesis
      using Cons by (auto simp: nth_Cons split: nat.splits)
  qed
qed simp

lemma rposition_None: "rposition p xs = None \<longleftrightarrow> (\<forall>x \<in> set xs. \<not> p x)"
  by (induction xs) (auto split: option.splits)

lemma bind_assert [simp]: "Option.bind (assert_that b) f = (if b then f () else None)"
  by (simp add: assert_that_def)

lemma length_zeros [simp]: "length (zeros n) = n"
  by (simp add: zeros_def)

lemma word_eq_unat: "a = b \<longleftrightarrow> unat a = unat b" for a b :: "'a::len word"
  by (auto intro: unsigned_word_eqI)

lemma unat_drop_bit_div: "unat (drop_bit n w) = unat w div 2 ^ n" for w :: "'a::len word"
  by (simp add: unat_drop_bit_eq drop_bit_nat_def)

lemma length_be_bytes [simp]: "length (be_bytes n w) = n"
  by (simp add: be_bytes_def)

lemma length_le_bytes [simp]: "length (le_bytes n w) = n"
  by (simp add: le_bytes_def)

lemma rev_le_bytes: "rev (le_bytes n w) = be_bytes n w"
  by (rule nth_equalityI) (auto simp: le_bytes_def be_bytes_def rev_nth)

lemma unat_ucast_u8: "unat (ucast w :: u8) = unat w mod 256" for w :: "'a::len word"
  by (simp add: unsigned_ucast_eq take_bit_eq_mod)

lemma le_nat_le_bytes_from:
  "le_nat (map (\<lambda>i. ucast (drop_bit (8 * i) w)) [m..<m + n]) = unat w div 256 ^ m mod 256 ^ n"
  for w :: "'a::len word"
proof (induction n arbitrary: m)
  case (Suc n)
  have split: "[m..<m + Suc n] = m # [Suc m..<Suc m + n]"
    by (simp add: upt_conv_Cons)
  have "256 ^ m = (2 :: nat) ^ (8 * m)"
    by (simp add: power_mult)
  then have "unat (ucast (drop_bit (8 * m) w) :: u8) = unat w div 256 ^ m mod 256"
    by (simp only: unat_ucast_u8 unat_drop_bit_div)
  moreover have "unat w div 256 ^ m mod 256 + 256 * (unat w div 256 ^ Suc m mod 256 ^ n) =
      unat w div 256 ^ m mod 256 ^ Suc n"
    using mod_mult2_eq [of "unat w div 256 ^ m" 256 "256 ^ n"] div_mult2_eq [of "unat w" "256 ^ m" 256]
    by (simp add: mult.commute)
  ultimately show ?case
    unfolding split using Suc.IH [of "Suc m"] by (simp del: upt_Suc)
qed simp

lemma le_nat_le_bytes: "le_nat (le_bytes n w) = unat w mod 256 ^ n"
  using le_nat_le_bytes_from [of w 0 n] by (simp add: le_bytes_def)

lemma le_nat_u32: "le_nat (le_bytes 4 w) = unat w" for w :: u32
  using unsigned_less [of w, where ?'a = nat] by (simp add: le_nat_le_bytes)

lemma le_nat_u64: "le_nat (le_bytes 8 w) = unat w" for w :: u64
  using unsigned_less [of w, where ?'a = nat] by (simp add: le_nat_le_bytes)

lemma be_bytes_u32_inj: "be_bytes 4 v = be_bytes 4 w \<longleftrightarrow> v = w" for v w :: u32
  by (metis le_nat_u32 rev_le_bytes rev_rev_ident word_eq_unat)

lemma be_bytes_u64_inj: "be_bytes 8 v = be_bytes 8 w \<longleftrightarrow> v = w" for v w :: u64
  by (metis le_nat_u64 rev_le_bytes rev_rev_ident word_eq_unat)

lemma unat_sat_sub: "unat (sat_sub a b) = unat a - unat b"
  by (auto simp: sat_sub_def unat_sub word_less_nat_alt word_le_nat_alt)

lemma unat_max_word: "unat (- 1 :: 'a::len word) = 2 ^ LENGTH('a) - 1"
  by (simp add: unsigned_minus_1_eq_mask mask_eq_exp_minus_1)

text \<open>Wrapping increments: when they are increments of the number.\<close>

lemma unat_inc: "a \<noteq> - 1 \<Longrightarrow> unat (a + 1) = Suc (unat (a :: 'a::len word))"
proof -
  assume "a \<noteq> - 1"
  then have "1 + a \<noteq> 0"
    by (metis add.commute add_eq_0_iff)
  then have "unat (1 + a) = Suc (unat a)"
    by (rule unatSuc)
  then show ?thesis
    by (simp add: add.commute)
qed

lemma inc_le_iff_less: "a \<noteq> - 1 \<Longrightarrow> (a + 1 \<le> b) = (a < (b :: 'a::len word))"
  by (simp add: word_le_nat_alt word_less_nat_alt unat_inc Suc_le_eq)

lemma less_imp_ne_max: "a < b \<Longrightarrow> a \<noteq> (- 1 :: 'a::len word)"
  by (metis leD word_order.extremum)

lemma sorted_wrt_less_nth:
  "sorted_wrt (<) xs \<Longrightarrow> i < j \<Longrightarrow> j < length xs \<Longrightarrow> xs ! i < (xs ! j :: 'a::linorder)"
  by (rule sorted_wrt_nth_less)

lemma sorted_wrt_less_nth_le:
  "sorted_wrt (<) xs \<Longrightarrow> i \<le> j \<Longrightarrow> j < length xs \<Longrightarrow> xs ! i \<le> (xs ! j :: 'a::linorder)"
  by (cases "i = j") (simp, simp add: sorted_wrt_less_nth order.strict_implies_order)

end
