(* ===== verification/Binary_Search.thy ===== *)
theory Binary_Search
  imports Prelude
begin

section \<open>Binary search of the standard library\<close>

text \<open>
  The code looks positions up in ascending lists with \<^verbatim>\<open>slice::binary_search_by\<close> in two places:
  the fork of a block number (\<^verbatim>\<open>sovereign-sdk/rollup-interface/src/fork/mod.rs\<close>) and the method id of
  a batch proof (\<^verbatim>\<open>light-client-prover/src/circuit/mod.rs\<close>). \<^verbatim>\<open>binary_search\<close> is the loop of the
  standard library of the pinned toolchain. The locale \<^verbatim>\<open>ascending_search\<close> is the interface both
  callers rely on, and it gives them the position of the last key not above the one looked up.
\<close>

text \<open>\<^verbatim>\<open>Ok i\<close> is a matching index, \<^verbatim>\<open>Err i\<close> the index where the key could be inserted.\<close>

function bs_loop :: "'k::linorder list \<Rightarrow> 'k \<Rightarrow> nat \<Rightarrow> nat \<Rightarrow> nat" where
  "bs_loop xs k base sz =
     (if sz > 1
      then let half = sz div 2; mid = base + half
           in bs_loop xs k (if xs ! mid > k then base else mid) (sz - half)
      else base)"
  by pat_completeness auto
termination
  by (relation "measure (\<lambda>(xs, k, base, sz). sz)") auto

declare bs_loop.simps [simp del]

definition binary_search :: "'k::linorder list \<Rightarrow> 'k \<Rightarrow> nat + nat" where
  "binary_search xs k =
     (if xs = [] then Err 0
      else let base = bs_loop xs k 0 (length xs)
           in if xs ! base = k then Ok base
              else Err (base + (if xs ! base < k then 1 else 0)))"

text \<open>The match both callers put around the search.\<close>

definition last_le_pos :: "nat + nat \<Rightarrow> nat" where
  "last_le_pos r = (case r of Inr i \<Rightarrow> i | Inl i \<Rightarrow> i - 1)"

subsection \<open>The loop\<close>

lemma bs_loop_spec:
  assumes "sorted_wrt (<) xs" "0 < sz" "base + sz \<le> length xs"
    and "base = 0 \<or> xs ! base \<le> k" "\<And>i. base + sz \<le> i \<Longrightarrow> i < length xs \<Longrightarrow> k < xs ! i"
  shows "bs_loop xs k base sz < length xs \<and>
    (bs_loop xs k base sz = 0 \<or> xs ! bs_loop xs k base sz \<le> k) \<and>
    (\<forall>i. bs_loop xs k base sz < i \<and> i < length xs \<longrightarrow> k < xs ! i)"
  using assms
proof (induction xs k base sz rule: bs_loop.induct)
  case (1 xs k base sz)
  show ?case
  proof (cases "1 < sz")
    case True
    define half where "half = sz div 2"
    define base' where "base' = (if xs ! (base + half) > k then base else base + half)"
    have half: "0 < half" "half < sz"
      using True by (auto simp: half_def)
    have above: "k < xs ! i" if "base' + (sz - half) \<le> i" "i < length xs" for i
    proof (cases "xs ! (base + half) > k")
      case True
      then have "xs ! (base + half) \<le> xs ! i"
        using that half "1.prems"(1,3) by (auto simp: base'_def half_def intro!: sorted_wrt_less_nth_le)
      with True show ?thesis by simp
    next
      case False
      with that half "1.prems"(5) show ?thesis by (auto simp: base'_def)
    qed
    have start: "base' = 0 \<or> xs ! base' \<le> k"
      using "1.prems"(4) by (auto simp: base'_def not_less)
    have bound: "base' + (sz - half) \<le> length xs"
      using half "1.prems"(3) by (auto simp: base'_def)
    have eq: "bs_loop xs k base sz = bs_loop xs k base' (sz - half)"
      using True by (subst bs_loop.simps) (simp only: Let_def half_def base'_def if_True)
    have rest: "0 < sz - half" using half by simp
    show ?thesis
      unfolding eq
      by (rule "1.IH" [OF True half_def refl, folded base'_def, OF "1.prems"(1) rest bound start above])
  next
    case False
    with "1.prems"(2) have "sz = 1" by simp
    then have "bs_loop xs k base sz = base"
      by (subst bs_loop.simps) simp
    with "1.prems" \<open>sz = 1\<close> show ?thesis by auto
  qed
qed

lemma binary_search_Ok:
  assumes "sorted_wrt (<) xs" "binary_search xs k = Ok i"
  shows "i < length xs" "xs ! i = k"
proof -
  from assms(2) have "xs \<noteq> []" by (auto simp: binary_search_def)
  with assms bs_loop_spec [of xs "length xs" 0 k] show "i < length xs" "xs ! i = k"
    by (auto simp: binary_search_def Let_def split: if_splits)
qed

lemma binary_search_Err:
  assumes "sorted_wrt (<) xs" "binary_search xs k = Err i"
  shows "i \<le> length xs" "\<And>j. j < i \<Longrightarrow> xs ! j < k" "\<And>j. i \<le> j \<Longrightarrow> j < length xs \<Longrightarrow> k < xs ! j"
proof -
  define b where "b = bs_loop xs k 0 (length xs)"
  have b: "b < length xs" "b = 0 \<or> xs ! b \<le> k" "\<And>j. b < j \<Longrightarrow> j < length xs \<Longrightarrow> k < xs ! j"
    if "xs \<noteq> []"
    using that assms(1) bs_loop_spec [of xs "length xs" 0 k] by (auto simp: b_def)
  have i: "xs ! b \<noteq> k \<and> i = (if xs ! b < k then b + 1 else b)" if "xs \<noteq> []"
    using that assms(2) by (auto simp: binary_search_def Let_def b_def split: if_splits)
  have empty: "i = 0" if "xs = []"
    using that assms(2) by (simp add: binary_search_def)
  show "i \<le> length xs"
    using b(1) i empty by (cases "xs = []") auto
  show "xs ! j < k" if "j < i" for j
  proof -
    from that empty have "xs \<noteq> []" by auto
    with i that have "j \<le> b" by (auto split: if_splits)
    then have "xs ! j \<le> xs ! b"
      using b(1) \<open>xs \<noteq> []\<close> assms(1) by (auto intro: sorted_wrt_less_nth_le)
    moreover have "xs ! b < k"
      using i b(2) that \<open>xs \<noteq> []\<close> by (auto split: if_splits)
    ultimately show ?thesis by simp
  qed
  show "k < xs ! j" if "i \<le> j" "j < length xs" for j
  proof -
    from that have "xs \<noteq> []" by auto
    show ?thesis
    proof (cases "xs ! b < k")
      case True
      with i that b(3) \<open>xs \<noteq> []\<close> show ?thesis by auto
    next
      case False
      with i that b(3) \<open>xs \<noteq> []\<close> show ?thesis by (cases "j = b") auto
    qed
  qed
qed

subsection \<open>The interface of an ascending search\<close>

locale ascending_search =
  fixes search :: "'k::linorder list \<Rightarrow> 'k \<Rightarrow> nat + nat"
  assumes search_Ok_less: "sorted_wrt (<) xs \<Longrightarrow> search xs k = Ok i \<Longrightarrow> i < length xs"
    and search_Ok_eq: "sorted_wrt (<) xs \<Longrightarrow> search xs k = Ok i \<Longrightarrow> xs ! i = k"
    and search_Err_le: "sorted_wrt (<) xs \<Longrightarrow> search xs k = Err i \<Longrightarrow> i \<le> length xs"
    and search_Err_below: "sorted_wrt (<) xs \<Longrightarrow> search xs k = Err i \<Longrightarrow> j < i \<Longrightarrow> xs ! j < k"
    and search_Err_above:
      "sorted_wrt (<) xs \<Longrightarrow> search xs k = Err i \<Longrightarrow> i \<le> j \<Longrightarrow> j < length xs \<Longrightarrow> k < xs ! j"
begin

lemma last_le_pos_bounds:
  assumes "sorted_wrt (<) xs" "xs \<noteq> []"
  shows "last_le_pos (search xs k) < length xs"
proof (cases "search xs k")
  case (Inl i)
  with search_Err_le [OF assms(1) Inl] assms(2) show ?thesis
    by (cases xs) (auto simp: last_le_pos_def)
next
  case (Inr i)
  with search_Ok_less [OF assms(1) Inr] show ?thesis by (simp add: last_le_pos_def)
qed

lemma last_le_pos_le:
  assumes "sorted_wrt (<) xs" "xs \<noteq> []" "xs ! 0 \<le> k"
  shows "xs ! last_le_pos (search xs k) \<le> k"
proof (cases "search xs k")
  case (Inl i)
  have "i \<noteq> 0"
  proof
    assume "i = 0"
    with search_Err_above [OF assms(1), of k 0 0] Inl assms(2) have "k < xs ! 0" by simp
    with assms(3) show False by simp
  qed
  then have "xs ! (i - 1) < k"
    using search_Err_below [OF assms(1) Inl] by simp
  with Inl show ?thesis by (simp add: last_le_pos_def)
next
  case (Inr i)
  with search_Ok_eq [OF assms(1) Inr] show ?thesis by (simp add: last_le_pos_def)
qed

lemma last_le_pos_above:
  assumes "sorted_wrt (<) xs" "last_le_pos (search xs k) < j" "j < length xs"
  shows "k < xs ! j"
proof (cases "search xs k")
  case (Inl i)
  with assms(2) have "i \<le> j" by (auto simp: last_le_pos_def)
  with search_Err_above [OF assms(1) Inl] assms(3) show ?thesis by simp
next
  case (Inr i)
  with assms(2) have "i < j" by (simp add: last_le_pos_def)
  with sorted_wrt_less_nth [OF assms(1), of i j] search_Ok_eq [OF assms(1) Inr] assms(3)
  show ?thesis by simp
qed

text \<open>The position is the only one that separates the keys not above \<open>k\<close> from those above.\<close>

lemma last_le_pos_unique:
  assumes "sorted_wrt (<) xs" "p < length xs" "xs ! p \<le> k"
    and "\<And>j. p < j \<Longrightarrow> j < length xs \<Longrightarrow> k < xs ! j"
  shows "last_le_pos (search xs k) = p"
proof -
  have ne: "xs \<noteq> []" using assms(2) by auto
  have "xs ! 0 \<le> k"
    using sorted_wrt_less_nth_le [OF assms(1), of 0 p] assms(2,3) by (auto intro: order_trans)
  then have le: "xs ! last_le_pos (search xs k) \<le> k"
    by (rule last_le_pos_le [OF assms(1) ne])
  have lt: "last_le_pos (search xs k) < length xs"
    by (rule last_le_pos_bounds [OF assms(1) ne])
  show ?thesis
  proof (rule linorder_cases [of "last_le_pos (search xs k)" p])
    assume "last_le_pos (search xs k) < p"
    then have "k < xs ! p" using assms(1,2) by (intro last_le_pos_above)
    with assms(3) show ?thesis by simp
  next
    assume "p < last_le_pos (search xs k)"
    then have "k < xs ! last_le_pos (search xs k)" using assms(4) lt by blast
    with le show ?thesis by simp
  qed
qed

end

interpretation bsearch: ascending_search "binary_search :: 'k::linorder list \<Rightarrow> 'k \<Rightarrow> nat + nat"
  by unfold_locales (fact binary_search_Ok binary_search_Err)+

end
