(* ===== verification/BTree_Map.thy ===== *)
theory BTree_Map
  imports Prelude
begin

section \<open>Ordered maps of the standard library\<close>

text \<open>
  \<^verbatim>\<open>alloc::collections::BTreeMap\<close> as the strictly sorted list of its entries, the order in which its
  iterators visit them. The locale \<^verbatim>\<open>ordered_map\<close> is the interface the storage components use; its
  lemmas on folds of insertions and on equality of iterations are proved once and reach the
  components through the interpretation \<^verbatim>\<open>bm\<close>.
\<close>

type_synonym ('k, 'v) bmap = "('k \<times> 'v) list"

definition bm_get :: "('k, 'v) bmap \<Rightarrow> 'k \<Rightarrow> 'v option" where
  "bm_get m = map_of m"

fun bm_insert :: "'k::linorder \<Rightarrow> 'v \<Rightarrow> ('k, 'v) bmap \<Rightarrow> ('k, 'v) bmap" where
  "bm_insert k v [] = [(k, v)]"
| "bm_insert k v ((k', v') # m) =
     (if k < k' then (k, v) # (k', v') # m
      else if k = k' then (k, v) # m
      else (k', v') # bm_insert k v m)"

text \<open>\<^verbatim>\<open>split_off\<close> leaves the entries below the key in place and returns the others.\<close>

definition bm_split_off :: "'k::linorder \<Rightarrow> ('k, 'v) bmap \<Rightarrow> ('k, 'v) bmap \<times> ('k, 'v) bmap" where
  "bm_split_off k m = (filter (\<lambda>(k', _). k' < k) m, filter (\<lambda>(k', _). \<not> k' < k) m)"

text \<open>\<^verbatim>\<open>append\<close> moves the entries of the second map into the first one, which they override.\<close>

definition bm_append :: "('k::linorder, 'v) bmap \<Rightarrow> ('k, 'v) bmap \<Rightarrow> ('k, 'v) bmap" where
  "bm_append m m' = fold (\<lambda>(k, v). bm_insert k v) m' m"

definition bm_inv :: "('k::linorder, 'v) bmap \<Rightarrow> bool" where
  "bm_inv m \<longleftrightarrow> sorted_wrt (<) (map fst m)"

subsection \<open>The interface\<close>

locale ordered_map =
  fixes empty :: 'm
    and insert :: "'k::linorder \<Rightarrow> 'v \<Rightarrow> 'm \<Rightarrow> 'm"
    and get :: "'m \<Rightarrow> 'k \<Rightarrow> 'v option"
    and entries :: "'m \<Rightarrow> ('k \<times> 'v) list"
    and inv :: "'m \<Rightarrow> bool"
  assumes inv_empty: "inv empty"
    and get_empty: "get empty = Map.empty"
    and inv_insert: "inv m \<Longrightarrow> inv (insert k v m)"
    and get_insert: "inv m \<Longrightarrow> get (insert k v m) = (get m)(k \<mapsto> v)"
    and get_entries: "inv m \<Longrightarrow> get m = map_of (entries m)"
    and sorted_entries: "inv m \<Longrightarrow> sorted_wrt (<) (map fst (entries m))"
begin

lemma inv_fold_insert: "inv m \<Longrightarrow> inv (fold (\<lambda>(k, v). insert k v) xs m)"
  by (induction xs arbitrary: m) (auto simp: inv_insert)

lemma get_fold_insert:
  "inv m \<Longrightarrow> get (fold (\<lambda>(k, v). insert k v) xs m) = get m ++ map_of (rev xs)"
  by (induction xs arbitrary: m) (auto simp: inv_insert get_insert map_add_def fun_eq_iff split: option.split)

lemma distinct_entries: "inv m \<Longrightarrow> distinct (map fst (entries m))"
  using sorted_entries strict_sorted_iff by blast

lemma in_entries_iff: "inv m \<Longrightarrow> (k, v) \<in> set (entries m) \<longleftrightarrow> get m k = Some v"
  by (simp add: get_entries distinct_entries map_of_eq_Some_iff)

lemma entries_ext:
  assumes "inv m" "inv m'" "get m = get m'"
  shows "entries m = entries m'"
proof (rule map_sorted_distinct_set_unique [where f = fst])
  show "inj_on fst (set (entries m) \<union> set (entries m'))"
    using assms by (auto simp: inj_on_def in_entries_iff)
  show "sorted (map fst (entries m))" "sorted (map fst (entries m'))"
    using sorted_entries assms(1,2) strict_sorted_iff by blast+
  show "distinct (map fst (entries m))" "distinct (map fst (entries m'))"
    using assms by (auto simp: distinct_entries)
  show "set (entries m) = set (entries m')"
    using assms by (auto simp: in_entries_iff)
qed

end

subsection \<open>The sorted list implements it\<close>

lemma bm_inv_Nil [simp]: "bm_inv []"
  by (simp add: bm_inv_def)

lemma bm_inv_Cons: "bm_inv (x # m) \<longleftrightarrow> (\<forall>y \<in> set m. fst x < fst y) \<and> bm_inv m"
  by (auto simp: bm_inv_def)

lemma set_bm_insert: "set (bm_insert k v m) \<subseteq> insert (k, v) (set m)"
  by (induction k v m rule: bm_insert.induct) auto

lemma bm_inv_insert: "bm_inv m \<Longrightarrow> bm_inv (bm_insert k v m)"
proof (induction k v m rule: bm_insert.induct)
  case (2 k v k' v' m)
  then show ?case
    using set_bm_insert [of k v m] by (fastforce simp: bm_inv_Cons)
qed (simp add: bm_inv_Cons)

lemma bm_get_insert: "bm_inv m \<Longrightarrow> bm_get (bm_insert k v m) = (bm_get m)(k \<mapsto> v)"
  by (induction k v m rule: bm_insert.induct) (auto simp: bm_get_def bm_inv_Cons fun_eq_iff)

interpretation bm: ordered_map "[]" "bm_insert :: 'k::linorder \<Rightarrow> 'v \<Rightarrow> _" bm_get "\<lambda>m. m" bm_inv
proof unfold_locales
  fix m :: "('k, 'v) bmap" and k v
  assume "bm_inv m"
  then show "bm_inv (bm_insert k v m)" "bm_get (bm_insert k v m) = (bm_get m)(k \<mapsto> v)"
    by (rule bm_inv_insert, rule bm_get_insert)
qed (auto simp: bm_get_def bm_inv_def)

lemmas bm_laws [simp] = bm.inv_insert bm.get_insert bm.get_empty

lemma bm_inv_append [simp]: "bm_inv m \<Longrightarrow> bm_inv (bm_append m m')"
  by (simp add: bm_append_def bm.inv_fold_insert)

lemma map_of_rev_distinct: "distinct (map fst xs) \<Longrightarrow> map_of (rev xs) = map_of xs"
  by (rule map_of_eqI) (auto simp: map_of_eq_Some_iff rev_map [symmetric])

lemma bm_get_append [simp]: "bm_inv m \<Longrightarrow> bm_inv m' \<Longrightarrow> bm_get (bm_append m m') = bm_get m ++ bm_get m'"
  by (simp add: bm_append_def bm.get_fold_insert map_of_rev_distinct bm.distinct_entries bm.get_entries [of m'])

lemma bm_inv_filter [simp]: "bm_inv m \<Longrightarrow> bm_inv (filter P m)"
  by (induction m) (auto simp: bm_inv_Cons)

lemma bm_get_filter:
  "bm_inv m \<Longrightarrow> bm_get (filter (\<lambda>(k, _). P k) m) k = (if P k then bm_get m k else None)"
  by (induction m) (auto simp: bm_get_def bm_inv_Cons)

text \<open>The entries below the middle key are the first half of the map.\<close>

lemma bm_split_off_nth:
  assumes "bm_inv m" "i < length m"
  shows "fst (bm_split_off (fst (m ! i)) m) = take i m"
proof -
  have drop: "\<forall>x \<in> set (drop i m). \<not> fst x < fst (m ! i)"
  proof
    fix x assume "x \<in> set (drop i m)"
    then obtain j where "j < length m - i" "x = m ! (i + j)"
      by (auto simp: in_set_conv_nth)
    moreover from this have "i + j < length m" by simp
    ultimately show "\<not> fst x < fst (m ! i)"
      using assms sorted_wrt_less_nth_le [of "map fst m" i "i + j"] by (simp add: bm_inv_def not_less)
  qed
  have take: "\<forall>x \<in> set (take i m). fst x < fst (m ! i)"
    using assms sorted_wrt_less_nth [of "map fst m" _ i]
    by (auto simp: bm_inv_def in_set_conv_nth) (metis fst_conv)
  have "filter (\<lambda>(k', _). k' < fst (m ! i)) (take i m @ drop i m) = take i m"
    unfolding filter_append using drop take by (auto simp: case_prod_beta filter_id_conv filter_empty_conv)
  then show ?thesis
    by (simp add: bm_split_off_def)
qed

end
