(* ===== verification/Cache_Log.thy ===== *)
theory Cache_Log
  imports BTree_Map
begin

section \<open>The cache log: reads and writes of one key folded into one access\<close>

text \<open>
  Models \<^verbatim>\<open>module-system/sov-modules-core/src/storage/cache.rs\<close>. A cache log over a base state (a
  function from keys to optional values) is read two ways: \<^verbatim>\<open>log_consistent base log\<close> says that every
  logged first read is the value of the base state, and \<^verbatim>\<open>log_view base log\<close> is the state after
  the logged accesses. The lemmas relate every operation to those two.
\<close>

type_synonym cache_key = bytes
type_synonym cache_value = bytes

datatype access =
    Read "cache_value option"
  | ReadThenWrite "cache_value option" "cache_value option"
  | Write "cache_value option"

datatype merge_error =
    MergeReadThenRead "cache_value option" "cache_value option"
  | MergeWriteThenRead "cache_value option" "cache_value option"

datatype read_error = InconsistentRead "cache_value option" "cache_value option"

fun last_value :: "access \<Rightarrow> cache_value option" where
  "last_value (Read v) = v"
| "last_value (ReadThenWrite _ m) = m"
| "last_value (Write v) = v"

fun write_value :: "access \<Rightarrow> cache_value option \<Rightarrow> access" where
  "write_value (Read original) new = (if original = new then Read original else ReadThenWrite original new)"
| "write_value (ReadThenWrite original m) new =
     (if original = new then Read new else ReadThenWrite original new)"
| "write_value (Write _) new = Write new"

definition value_size :: "cache_value option \<Rightarrow> nat" where
  "value_size v = (case v of None \<Rightarrow> 0 | Some b \<Rightarrow> length b)"

fun access_size :: "access \<Rightarrow> nat" where
  "access_size (Read v) = 1 + value_size v"
| "access_size (ReadThenWrite o' m) = 1 + (value_size o' + value_size m)"
| "access_size (Write v) = 1 + value_size v"

fun access_merge :: "access \<Rightarrow> access \<Rightarrow> merge_error + access" where
  "access_merge (Read l) (Read r) = (if l \<noteq> r then Err (MergeReadThenRead l r) else Ok (Read l))"
| "access_merge (Read l) (ReadThenWrite ro rm) =
     (if l \<noteq> ro then Err (MergeReadThenRead l ro) else Ok (ReadThenWrite ro rm))"
| "access_merge (Read l) (Write r) = Ok (ReadThenWrite l r)"
| "access_merge (ReadThenWrite lo lm) (Read r) =
     (if lm \<noteq> r then Err (MergeWriteThenRead lm r) else Ok (ReadThenWrite lo lm))"
| "access_merge (ReadThenWrite lo lm) (ReadThenWrite ro rm) =
     (if lm \<noteq> ro then Err (MergeWriteThenRead lm ro) else Ok (ReadThenWrite lo rm))"
| "access_merge (ReadThenWrite lo lm) (Write r) = Ok (ReadThenWrite lo r)"
| "access_merge (Write l) (Read r) = (if l \<noteq> r then Err (MergeWriteThenRead l r) else Ok (Write l))"
| "access_merge (Write l) (ReadThenWrite ro rm) =
     (if l \<noteq> ro then Err (MergeWriteThenRead l ro) else Ok (Write rm))"
| "access_merge (Write l) (Write r) = Ok (Write r)"

datatype value_exists = Yes "cache_value option" | No

type_synonym cache_log = "(cache_key, access) bmap"

definition write_of :: "cache_key \<times> access \<Rightarrow> (cache_key \<times> cache_value option) option" where
  "write_of e = (case e of
      (k, Read _) \<Rightarrow> None
    | (k, ReadThenWrite _ m) \<Rightarrow> Some (k, m)
    | (k, Write w) \<Rightarrow> Some (k, w))"

definition iter_writes :: "cache_log \<Rightarrow> (cache_key \<times> cache_value option) list" where
  "iter_writes log = List.map_filter write_of log"

definition get_value :: "cache_log \<Rightarrow> cache_key \<Rightarrow> value_exists" where
  "get_value log k = (case bm_get log k of Some a \<Rightarrow> Yes (last_value a) | None \<Rightarrow> No)"

definition add_read :: "cache_log \<Rightarrow> cache_key \<Rightarrow> cache_value option \<Rightarrow> read_error + cache_log" where
  "add_read log k v = (case bm_get log k of
      Some a \<Rightarrow> (if last_value a \<noteq> v then Err (InconsistentRead (last_value a) v) else Ok log)
    | None \<Rightarrow> Ok (bm_insert k (Read v) log))"

definition add_write :: "cache_log \<Rightarrow> cache_key \<Rightarrow> cache_value option \<Rightarrow> cache_log" where
  "add_write log k v = (case bm_get log k of
      Some a \<Rightarrow> bm_insert k (write_value a v) log
    | None \<Rightarrow> bm_insert k (Write v) log)"

definition mark_all_as_read :: "cache_log \<Rightarrow> cache_log" where
  "mark_all_as_read log = map (\<lambda>(k, a). case a of
      Write v \<Rightarrow> (k, Read v)
    | ReadThenWrite _ m \<Rightarrow> (k, Read m)
    | Read v \<Rightarrow> (k, Read v)) log"

definition prune_half :: "cache_log \<Rightarrow> cache_log option" where
  "prune_half log =
     (if log = [] then Some log
      else do {
        mid \<leftarrow> index (map fst log) (length log div 2);
        Some (fst (bm_split_off mid log))
      })"

definition estimated_size :: "cache_log \<Rightarrow> nat" where
  "estimated_size log = fold (\<lambda>(k, a) acc. acc + (length k + access_size a)) log 0"

text \<open>
  A failed merge of one entry ends the loop: the entries merged before it stay merged, which the
  first component of the result shows.
\<close>

fun merge_entries :: "cache_log \<Rightarrow> (cache_key \<times> access) list \<Rightarrow> cache_log \<times> (merge_error + unit)" where
  "merge_entries log [] = (log, Ok ())"
| "merge_entries log ((k, r) # rs) = (case bm_get log k of
      Some a \<Rightarrow> (case access_merge a r of
          Inl e \<Rightarrow> (log, Err e)
        | Inr a' \<Rightarrow> merge_entries (bm_insert k a' log) rs)
    | None \<Rightarrow> merge_entries (bm_insert k r log) rs)"

definition merge_left_with_filter_map ::
  "((cache_key \<times> access) \<Rightarrow> (cache_key \<times> access) option) \<Rightarrow> cache_log \<Rightarrow> cache_log \<Rightarrow>
   cache_log \<times> (merge_error + unit)" where
  "merge_left_with_filter_map f log rhs = merge_entries log (List.map_filter f rhs)"

definition merge_left :: "cache_log \<Rightarrow> cache_log \<Rightarrow> cache_log \<times> (merge_error + unit)" where
  "merge_left log rhs = merge_left_with_filter_map Some log rhs"

definition merge_writes_left :: "cache_log \<Rightarrow> cache_log \<Rightarrow> cache_log \<times> (merge_error + unit)" where
  "merge_writes_left log rhs = merge_left_with_filter_map (\<lambda>(k, a). case a of
      Read _ \<Rightarrow> None
    | ReadThenWrite _ m \<Rightarrow> Some (k, Write m)
    | Write w \<Rightarrow> Some (k, Write w)) log rhs"

definition merge_reads_left :: "cache_log \<Rightarrow> cache_log \<Rightarrow> cache_log \<times> (merge_error + unit)" where
  "merge_reads_left log rhs = merge_left_with_filter_map (\<lambda>(k, a). case a of
      Read r \<Rightarrow> Some (k, Read r)
    | ReadThenWrite o' _ \<Rightarrow> Some (k, Read o')
    | Write _ \<Rightarrow> None) log rhs"

record read_write_log =
  ordered_reads :: "(cache_key \<times> cache_value option) list"
  rw_cache_log :: cache_log

definition empty_read_write_log :: read_write_log where
  "empty_read_write_log = \<lparr> ordered_reads = [], rw_cache_log = [] \<rparr>"

definition iter_ordered_writes :: "read_write_log \<Rightarrow> (cache_key \<times> cache_value option) list" where
  "iter_ordered_writes l = iter_writes (rw_cache_log l)"

definition into_cache_log :: "read_write_log \<Rightarrow> cache_log" where
  "into_cache_log l = mark_all_as_read (rw_cache_log l)"

definition rw_prune_half :: "read_write_log \<Rightarrow> read_write_log option" where
  "rw_prune_half l = map_option (\<lambda>c. l \<lparr> rw_cache_log := c \<rparr>) (prune_half (rw_cache_log l))"

subsection \<open>What a log says about a base state\<close>

type_synonym base_state = "cache_key \<Rightarrow> cache_value option"

text \<open>The first read of an access, if it starts with one.\<close>

fun first_read :: "access \<Rightarrow> cache_value option option" where
  "first_read (Read v) = Some v"
| "first_read (ReadThenWrite o' _) = Some o'"
| "first_read (Write _) = None"

definition log_consistent :: "base_state \<Rightarrow> cache_log \<Rightarrow> bool" where
  "log_consistent base log \<longleftrightarrow> (\<forall>k a v. bm_get log k = Some a \<and> first_read a = Some v \<longrightarrow> base k = v)"

definition log_view :: "base_state \<Rightarrow> cache_log \<Rightarrow> base_state" where
  "log_view base log = (\<lambda>k. case bm_get log k of Some a \<Rightarrow> last_value a | None \<Rightarrow> base k)"

definition apply_writes :: "base_state \<Rightarrow> (cache_key \<times> cache_value option) list \<Rightarrow> base_state" where
  "apply_writes base ws = fold (\<lambda>(k, v) b. b(k := v)) ws base"

named_theorems log_simps \<open>the operations of a cache log as changes of its view\<close>

lemma log_consistentI:
  "(\<And>k a v. bm_get log k = Some a \<Longrightarrow> first_read a = Some v \<Longrightarrow> base k = v) \<Longrightarrow> log_consistent base log"
  by (auto simp: log_consistent_def)

lemma log_consistentD:
  "log_consistent base log \<Longrightarrow> bm_get log k = Some a \<Longrightarrow> first_read a = Some v \<Longrightarrow> base k = v"
  by (auto simp: log_consistent_def)

lemma log_view_Some: "bm_get log k = Some a \<Longrightarrow> log_view base log k = last_value a"
  by (simp add: log_view_def)

lemma log_view_None: "bm_get log k = None \<Longrightarrow> log_view base log k = base k"
  by (simp add: log_view_def)

lemma empty_log [simp]: "log_consistent base []" "log_view base [] = base"
  by (auto simp: log_consistent_def log_view_def)

lemma apply_writes_map_of:
  "apply_writes base ws = (\<lambda>k. case map_of (rev ws) k of Some v \<Rightarrow> v | None \<Rightarrow> base k)"
  by (induction ws arbitrary: base)
    (auto simp: apply_writes_def fun_eq_iff map_add_def split: option.split)

lemma map_of_iter_writes:
  "distinct (map fst log) \<Longrightarrow>
   map_of (iter_writes log) k = (case map_of log k of
      Some (Write w) \<Rightarrow> Some w | Some (ReadThenWrite _ m) \<Rightarrow> Some m | _ \<Rightarrow> None)"
proof (induction log)
  case (Cons e log)
  obtain k' a where e: "e = (k', a)" by force
  have "map_of log k' = None"
    using Cons.prems e by (simp add: map_of_eq_None_iff)
  then show ?case
    using Cons e by (cases a) (auto simp: iter_writes_def List.map_filter_simps write_of_def)
qed (simp add: iter_writes_def List.map_filter_simps)

lemma in_map_filter: "y \<in> set (List.map_filter f xs) \<longleftrightarrow> (\<exists>x \<in> set xs. f x = Some y)"
  by (induction xs) (auto simp: List.map_filter_simps split: option.splits)

lemma distinct_map_filter:
  assumes "distinct (map fst xs)" "\<And>x y. f x = Some y \<Longrightarrow> fst y = fst x"
  shows "distinct (map fst (List.map_filter f xs))"
  using assms(1)
proof (induction xs)
  case (Cons x xs)
  have "fst ` set (List.map_filter f xs) \<subseteq> fst ` set xs"
    by (auto simp: in_map_filter dest!: assms(2)) (metis image_eqI fst_conv)
  with Cons assms(2) show ?case
    by (auto simp: List.map_filter_simps split: option.split)
qed (simp add: List.map_filter_simps)

lemma distinct_iter_writes: "distinct (map fst log) \<Longrightarrow> distinct (map fst (iter_writes log))"
  unfolding iter_writes_def
  by (rule distinct_map_filter) (auto simp: write_of_def split: prod.splits access.splits)

text \<open>
  The writes of a log reach the same state as the log, although a key that was read and reset to
  what was read is not among them.
\<close>

lemma apply_iter_writes:
  assumes "bm_inv log" "log_consistent base log"
  shows "apply_writes base (iter_writes log) = log_view base log"
proof
  fix k
  have dist: "distinct (map fst log)"
    using assms(1) by (rule bm.distinct_entries)
  show "apply_writes base (iter_writes log) k = log_view base log k"
    using log_consistentD [OF assms(2), of k] map_of_iter_writes [OF dist, of k]
    by (auto simp: apply_writes_map_of map_of_rev_distinct [OF distinct_iter_writes [OF dist]]
        log_view_def bm_get_def split: option.splits access.splits)
qed

subsection \<open>Reads and writes\<close>

lemma bm_inv_add_write [simp]: "bm_inv log \<Longrightarrow> bm_inv (add_write log k v)"
  by (auto simp: add_write_def split: option.split)

lemma last_value_write_value [simp]: "last_value (write_value a v) = v"
  by (cases a) auto

lemma first_read_write_value [simp]: "first_read (write_value a v) = first_read a"
  by (cases a) auto

lemma log_view_add_write [log_simps]:
  "bm_inv log \<Longrightarrow> log_view base (add_write log k v) = (log_view base log)(k := v)"
  by (auto simp: add_write_def log_view_def fun_eq_iff split: option.split)

lemma log_consistent_add_write [log_simps]:
  "bm_inv log \<Longrightarrow> log_consistent base log \<Longrightarrow> log_consistent base (add_write log k v)"
  by (auto simp: add_write_def log_consistent_def split: option.split)

lemma fold_add_write:
  "bm_inv log \<Longrightarrow> log_consistent base log \<Longrightarrow>
   bm_inv (fold (\<lambda>(k, v) l. add_write l k v) ws log) \<and>
   log_consistent base (fold (\<lambda>(k, v) l. add_write l k v) ws log) \<and>
   log_view base (fold (\<lambda>(k, v) l. add_write l k v) ws log) = apply_writes (log_view base log) ws"
proof (induction ws arbitrary: log)
  case (Cons w ws)
  then show ?case
    by (cases w) (simp add: apply_writes_def log_view_add_write log_consistent_add_write)
qed (simp add: apply_writes_def)

lemma add_read_Ok:
  assumes "bm_inv log" "log_consistent base log" "log_view base log k = v"
  shows "\<exists>log'. add_read log k v = Ok log' \<and> bm_inv log' \<and> log_consistent base log' \<and>
    log_view base log' = log_view base log"
  using assms by (auto simp: add_read_def log_view_def log_consistent_def fun_eq_iff split: option.splits)

subsection \<open>Marking, pruning\<close>

lemma mark_all_as_read_alt: "mark_all_as_read log = map (\<lambda>(k, a). (k, Read (last_value a))) log"
  by (auto simp: mark_all_as_read_def split: access.split)

lemma length_mark [simp]: "length (mark_all_as_read log) = length log"
  by (simp add: mark_all_as_read_def)

lemma bm_inv_mark [simp]: "bm_inv log \<Longrightarrow> bm_inv (mark_all_as_read log)"
  by (simp add: mark_all_as_read_alt bm_inv_def comp_def case_prod_beta)

lemma bm_get_mark: "bm_get (mark_all_as_read log) k = map_option (\<lambda>a. Read (last_value a)) (bm_get log k)"
  by (simp add: mark_all_as_read_alt bm_get_def map_of_map)

lemma mark_all_as_read_view [log_simps]:
  "log_view (log_view base log) (mark_all_as_read log) = log_view base log"
  by (auto simp: log_view_def bm_get_mark fun_eq_iff split: option.split)

lemma mark_all_as_read_consistent [log_simps]:
  "log_consistent (log_view base log) (mark_all_as_read log)"
  by (auto simp: log_consistent_def bm_get_mark log_view_def)

lemma iter_writes_mark [simp]: "iter_writes (mark_all_as_read log) = []"
  by (induction log) (auto simp: iter_writes_def List.map_filter_simps mark_all_as_read_alt write_of_def)

lemma prune_half_take: "bm_inv log \<Longrightarrow> prune_half log = Some (take (length log div 2) log)"
  using bm_split_off_nth [of log "length log div 2"]
  by (cases "log = []") (auto simp: prune_half_def index_def nth_map)

subsection \<open>Merging\<close>

definition mergeable :: "access \<Rightarrow> access \<Rightarrow> bool" where
  "mergeable a r \<longleftrightarrow> (\<forall>v. first_read r = Some v \<longrightarrow> last_value a = v)"

lemma access_merge_Ok_iff: "(\<exists>a'. access_merge a r = Ok a') \<longleftrightarrow> mergeable a r"
  by (cases a; cases r) (auto simp: mergeable_def)

lemma access_merge_OkD:
  assumes "access_merge a r = Ok a'"
  shows "last_value a' = last_value r" "first_read a' = first_read a"
  using assms by (cases a; cases r; auto split: if_splits)+

text \<open>What a key holds after a merge that succeeds.\<close>

fun merged :: "access option \<Rightarrow> access option \<Rightarrow> access option" where
  "merged (Some a) (Some r) = (case access_merge a r of Inr a' \<Rightarrow> Some a' | Inl _ \<Rightarrow> Some a)"
| "merged None r = r"
| "merged a None = a"

lemma merge_entries_Ok_iff:
  "bm_inv log \<Longrightarrow> distinct (map fst rs) \<Longrightarrow>
   snd (merge_entries log rs) = Ok () \<longleftrightarrow>
     (\<forall>(k, r) \<in> set rs. \<forall>a. bm_get log k = Some a \<longrightarrow> mergeable a r)"
proof (induction log rs rule: merge_entries.induct)
  case (2 log k r rs)
  have other: "(\<forall>(k', r') \<in> set rs. \<forall>a. bm_get (bm_insert k x log) k' = Some a \<longrightarrow> mergeable a r') \<longleftrightarrow>
      (\<forall>(k', r') \<in> set rs. \<forall>a. bm_get log k' = Some a \<longrightarrow> mergeable a r')" for x
    using "2.prems" by (intro ball_cong) force+
  show ?case
  proof (cases "bm_get log k")
    case None
    then show ?thesis using 2 other by simp
  next
    case (Some a)
    then show ?thesis
      using 2 other access_merge_Ok_iff [of a r] by (cases "access_merge a r") auto
  qed
qed simp

lemma merge_entries_get:
  "bm_inv log \<Longrightarrow> distinct (map fst rs) \<Longrightarrow> snd (merge_entries log rs) = Ok () \<Longrightarrow>
   bm_inv (fst (merge_entries log rs)) \<and>
   bm_get (fst (merge_entries log rs)) k = merged (bm_get log k) (map_of rs k)"
proof (induction log rs rule: merge_entries.induct)
  case (1 log)
  then show ?case by (cases "bm_get log k") auto
next
  case (2 log k' r rs)
  have "map_of rs k' = None"
    using "2.prems"(2) by (simp add: map_of_eq_None_iff)
  with 2 show ?case
    by (cases "bm_get log k"; cases "k = k'") (auto split: option.splits sum.splits)
qed

lemma merge_left_entries: "merge_left log rhs = merge_entries log rhs"
  by (induction rhs)
    (simp_all add: merge_left_def merge_left_with_filter_map_def List.map_filter_def comp_def)

lemma merge_left_iff:
  assumes "bm_inv log" "bm_inv rhs"
  shows "log_consistent base log \<and> log_consistent (log_view base log) rhs \<longleftrightarrow>
    snd (merge_left log rhs) = Ok () \<and> log_consistent base (fst (merge_left log rhs))" (is "?l \<longleftrightarrow> ?r")
proof -
  have dist: "distinct (map fst rhs)" using assms(2) by (rule bm.distinct_entries)
  have in_rhs: "(k, r) \<in> set rhs \<longleftrightarrow> bm_get rhs k = Some r" for k r
    using assms(2) by (rule bm.in_entries_iff)
  have ok: "snd (merge_left log rhs) = Ok () \<longleftrightarrow>
      (\<forall>k r a. bm_get rhs k = Some r \<and> bm_get log k = Some a \<longrightarrow> mergeable a r)"
    unfolding merge_left_entries merge_entries_Ok_iff [OF assms(1) dist] using in_rhs by fastforce
  have get: "bm_get (fst (merge_left log rhs)) k = merged (bm_get log k) (bm_get rhs k)"
    if "snd (merge_left log rhs) = Ok ()" for k
    using merge_entries_get [OF assms(1) dist, of k] that by (simp add: merge_left_entries bm_get_def)
  have ok': "snd (merge_left log rhs) = Ok ()" if "log_consistent (log_view base log) rhs"
    unfolding ok mergeable_def
    using log_consistentD [OF that] log_view_Some by metis
  have cons: "log_consistent base (fst (merge_left log rhs)) \<longleftrightarrow> ?l" if "snd (merge_left log rhs) = Ok ()"
  proof -
    have m: "\<exists>a'. access_merge a r = Ok a' \<and> first_read a' = first_read a"
      if "bm_get log k = Some a" "bm_get rhs k = Some r" for k a r
      using that ok \<open>snd (merge_left log rhs) = Ok ()\<close> access_merge_Ok_iff access_merge_OkD(2) by metis
    have "(\<forall>v a'. merged (bm_get log k) (bm_get rhs k) = Some a' \<and> first_read a' = Some v \<longrightarrow> base k = v) \<longleftrightarrow>
        (\<forall>v a. bm_get log k = Some a \<and> first_read a = Some v \<longrightarrow> base k = v) \<and>
        (\<forall>v a. bm_get rhs k = Some a \<and> first_read a = Some v \<longrightarrow> log_view base log k = v)" for k
      using m [of k] ok that
      by (cases "bm_get log k"; cases "bm_get rhs k") (fastforce simp: log_view_def mergeable_def)+
    then show ?thesis
      unfolding log_consistent_def get [OF that] by blast
  qed
  show ?thesis
    using cons ok' by blast
qed

lemma merge_left_view:
  assumes "bm_inv log" "bm_inv rhs" "snd (merge_left log rhs) = Ok ()"
  shows "log_view base (fst (merge_left log rhs)) = log_view (log_view base log) rhs"
proof
  fix k
  have dist: "distinct (map fst rhs)" using assms(2) by (rule bm.distinct_entries)
  have "\<exists>a'. access_merge a r = Ok a'" if "bm_get log k = Some a" "bm_get rhs k = Some r" for a r
    using that assms merge_entries_Ok_iff [OF assms(1) dist] bm.in_entries_iff [OF assms(2)]
    by (fastforce simp: merge_left_entries access_merge_Ok_iff)
  then show "log_view base (fst (merge_left log rhs)) k = log_view (log_view base log) rhs k"
    using merge_entries_get [OF assms(1) dist, of k] assms(3) access_merge_OkD(1)
    by (cases "bm_get log k"; cases "bm_get rhs k")
      (fastforce simp: log_view_def merge_left_entries bm_get_def)+
qed

subsection \<open>Properties\<close>

text \<open>
  A log that is consistent with a base state still is after any sequence of writes, and the
  writes it then reports, applied to the base state, reach the state the caller wrote: dropping a
  write that resets a key to the value first read loses nothing.
\<close>

lemma iter_writes_complete:
  assumes "bm_inv log" "log_consistent base log"
  shows "log_consistent base (fold (\<lambda>(k, v) l. add_write l k v) ws log) \<and>
    apply_writes base (iter_writes (fold (\<lambda>(k, v) l. add_write l k v) ws log)) =
    apply_writes (log_view base log) ws"
  using fold_add_write [OF assms] apply_iter_writes by simp

lemma iter_writes_complete_applied:
  "apply_writes (\<lambda>k. if k = [1] then Some [7] else None)
     (iter_writes (fold (\<lambda>(k, v) l. add_write l k v) [([1], Some [8]), ([2], Some [9]), ([1], Some [7])]
        [([1], Read (Some [7]))])) [2] = Some [9]"
proof -
  let ?log = "[([1], Read (Some [7]))]" and ?base = "\<lambda>k. if k = [1 :: u8] then Some [7 :: u8] else None"
  have "bm_inv ?log" "log_consistent ?base ?log"
    by (auto simp: bm_inv_def log_consistent_def bm_get_def split: if_splits)
  from iter_writes_complete [OF this, of "[([1], Some [8]), ([2], Some [9]), ([1], Some [7])]"]
  show ?thesis
    by (simp only:) (simp add: apply_writes_def)
qed

text \<open>
  C19: merging a log with a later one succeeds, with a result consistent with the base state,
  exactly when the first log is consistent with the base state and every first read of the second
  one is the value the first one left; the merged log then leaves the state of the two in sequence.
\<close>

theorem merge_left_sequences:
  assumes "bm_inv log" "bm_inv rhs"
  shows "(log_consistent base log \<and> log_consistent (log_view base log) rhs \<longleftrightarrow>
      snd (merge_left log rhs) = Ok () \<and> log_consistent base (fst (merge_left log rhs))) \<and>
    (snd (merge_left log rhs) = Ok () \<longrightarrow>
      log_view base (fst (merge_left log rhs)) = log_view (log_view base log) rhs)"
  using merge_left_iff [OF assms] merge_left_view [OF assms] by blast

theorem merge_left_sequences_witness:
  "log_view (\<lambda>k. None) (fst (merge_left [([1], Write (Some [5]))] [([1], ReadThenWrite (Some [5]) None)])) =
   log_view (log_view (\<lambda>k. None) [([1], Write (Some [5]))]) [([1], ReadThenWrite (Some [5]) None)]"
proof -
  let ?log = "[([1], Write (Some [5]))]" and ?rhs = "[([1], ReadThenWrite (Some [5]) None)]"
  have "bm_inv ?log" "bm_inv ?rhs" "snd (merge_left ?log ?rhs) = Ok ()"
    by (simp_all add: bm_inv_def merge_left_entries bm_get_def)
  with merge_left_sequences [of ?log ?rhs "\<lambda>k. None"] show ?thesis by blast
qed

text \<open>
  C20: a log kept as a cache for the next block (all entries marked as read, then pruned to half) is
  consistent with the state the block left, shows that state, reports no writes, and keeps the
  first half of the entries.
\<close>

theorem cache_reuse_sound:
  assumes "bm_inv log"
  shows "\<exists>cache. prune_half (mark_all_as_read log) = Some cache \<and> length cache = length log div 2 \<and>
    log_consistent (log_view base log) cache \<and>
    log_view (log_view base log) cache = log_view base log \<and> iter_writes cache = []"
proof -
  let ?m = "mark_all_as_read log" and ?n = "length log div 2"
  have eq: "take ?n ?m = mark_all_as_read (take ?n log)"
    by (simp add: mark_all_as_read_def take_map)
  have inv: "bm_inv ?m" using assms by simp
  have sub: "bm_get ?m k = Some a" if "bm_get (take ?n ?m) k = Some a" for k a
    using that inv bm.distinct_entries [OF inv] set_take_subset [of ?n ?m]
    by (auto simp: bm_get_def map_of_eq_Some_iff dest: map_of_SomeD)
  have "log_consistent (log_view base log) (take ?n ?m)"
    using mark_all_as_read_consistent [of base log] sub by (auto simp: log_consistent_def)
  moreover have "log_view (log_view base log) (take ?n ?m) k = log_view base log k" for k
    using sub fun_cong [OF mark_all_as_read_view [of base log], of k]
    by (auto simp: log_view_def split: option.splits)
  ultimately show ?thesis
    using prune_half_take [OF inv] eq by (auto simp: fun_eq_iff)
qed

theorem cache_reuse_sound_witness:
  "\<exists>cache. prune_half (mark_all_as_read [([1], Write (Some [5])), ([2], Write None)]) = Some cache \<and>
     length cache = 1 \<and> iter_writes cache = []"
  using cache_reuse_sound [of "[([1], Write (Some [5])), ([2], Write None)]"]
  by (auto simp: bm_inv_def)

end
