(* ===== verification/Storage.thy ===== *)
theory Storage
  imports Cache_Log
begin

section \<open>Witnesses and the two storages: native prover and zkVM guest\<close>

text \<open>
  Models \<^verbatim>\<open>rollup-interface/src/state_machine/witness.rs\<close>, the \<^verbatim>\<open>Storage\<close> trait and \<^verbatim>\<open>StorageKey\<close> of
  \<^verbatim>\<open>sov-modules-core/src/storage/mod.rs\<close>, and its two implementations \<^verbatim>\<open>sov-state/src/prover_storage.rs\<close>
  and \<^verbatim>\<open>sov-state/src/zk_storage.rs\<close>.

  Borsh and the Jellyfish Merkle tree are third-party code. They are the records \<^verbatim>\<open>borsh\<close>, \<^verbatim>\<open>jmt_verifier\<close>
  and \<^verbatim>\<open>jmt_tree\<close> of functions the definitions take; what the code relies on is stated by
  \<^verbatim>\<open>borsh_roundtrip\<close> (a decoder reads back what the encoder wrote), \<^verbatim>\<open>jmt_complete\<close> (the proofs the tree
  produces verify) and \<^verbatim>\<open>jmt_sound\<close> (a proof that verifies against the root of a tree says what the
  tree holds, and an update that verifies gives the root of the updated tree).
\<close>

type_synonym storage_key = bytes
type_synonym storage_value = bytes
type_synonym storage_witness = "bytes list"

definition add_hint :: "('a \<Rightarrow> bytes) \<Rightarrow> 'a \<Rightarrow> storage_witness \<Rightarrow> storage_witness" where
  "add_hint enc x w = w @ [enc x]"

definition get_hint :: "(bytes \<Rightarrow> 'a option) \<Rightarrow> storage_witness \<Rightarrow> ('a \<times> storage_witness) option" where
  "get_hint dec w = (case w of
      [] \<Rightarrow> None
    | h # hs \<Rightarrow> (case dec h of None \<Rightarrow> None | Some x \<Rightarrow> Some (x, hs)))"

definition remaining :: "storage_witness \<Rightarrow> nat" where
  "remaining w = length w"

definition to_cache_key_version :: "storage_key \<Rightarrow> u64 option \<Rightarrow> cache_key" where
  "to_cache_key_version key ver = (case ver of None \<Rightarrow> key | Some v \<Rightarrow> be_bytes 8 v @ key)"

record ('p, 'u) borsh =
  enc_value :: "storage_value option \<Rightarrow> bytes"
  dec_value :: "bytes \<Rightarrow> storage_value option option"
  enc_root :: "hash32 \<Rightarrow> bytes"
  dec_root :: "bytes \<Rightarrow> hash32 option"
  enc_proof :: "'p \<Rightarrow> bytes"
  dec_proof :: "bytes \<Rightarrow> 'p option"
  enc_update_proof :: "'u \<Rightarrow> bytes"
  dec_update_proof :: "bytes \<Rightarrow> 'u option"

definition borsh_roundtrip :: "('p, 'u) borsh \<Rightarrow> bool" where
  "borsh_roundtrip B \<longleftrightarrow>
     (\<forall>x. dec_value B (enc_value B x) = Some x) \<and> (\<forall>x. dec_root B (enc_root B x) = Some x) \<and>
     (\<forall>x. dec_proof B (enc_proof B x) = Some x) \<and>
     (\<forall>x. dec_update_proof B (enc_update_proof B x) = Some x)"

type_synonym key_batch = "(hash32 \<times> storage_value option) list"

record ('p, 'u) jmt_verifier =
  key_hash :: "bytes \<Rightarrow> hash32"
  proof_verify :: "'p \<Rightarrow> hash32 \<Rightarrow> hash32 \<Rightarrow> storage_value option \<Rightarrow> bool"
  verify_update :: "'u \<Rightarrow> hash32 \<Rightarrow> hash32 \<Rightarrow> key_batch \<Rightarrow> bool"

datatype storage_error = JmtError | IncorrectRead | ProofInvalid

record ('s, 'p, 'u, 'n) jmt_tree =
  get_root_hash_option :: "'s \<Rightarrow> u64 \<Rightarrow> storage_error + hash32 option"
  put_empty :: "'s \<Rightarrow> u64 \<Rightarrow> 's option"
  get_root_hash :: "'s \<Rightarrow> u64 \<Rightarrow> hash32 option"
  get_with_proof :: "'s \<Rightarrow> hash32 \<Rightarrow> u64 \<Rightarrow> storage_error + (storage_value option \<times> 'p)"
  put_value_set_with_proof :: "'s \<Rightarrow> key_batch \<Rightarrow> u64 \<Rightarrow> (hash32 \<times> 'u \<times> 'n) option"

text \<open>The reading operations of the trait, as a dictionary. A panic is \<^const>\<open>None\<close>.\<close>

record storage_ops =
  st_get :: "storage_key \<Rightarrow> storage_witness \<Rightarrow> (storage_value option \<times> storage_witness) option"
  st_get_offchain :: "storage_key \<Rightarrow> storage_witness \<Rightarrow> (storage_value option \<times> storage_witness) option"
  st_get_accessory :: "storage_key \<Rightarrow> storage_value option option"

record state_root_transition =
  init_root :: hash32
  final_root :: hash32

type_synonym state_diff = "(bytes \<times> bytes option) list"

subsection \<open>The prover's storage\<close>

text \<open>
  The handles of the databases and the version they are read at. A read of the state database or
  of the native database that fails is \<^const>\<open>None\<close>, and the storage panics on it.
\<close>

record 's prover_storage =
  ps_read_state :: "u64 \<Rightarrow> storage_key \<Rightarrow> storage_value option option"
  ps_read_native :: "storage_key \<Rightarrow> u64 \<Rightarrow> storage_value option option"
  ps_tree :: 's
  ps_init_version :: u64
  ps_version :: u64
  ps_committable :: bool

definition read_value :: "'s prover_storage \<Rightarrow> storage_key \<Rightarrow> storage_value option option" where
  "read_value s key = ps_read_state s (ps_version s) key"

definition prover_get ::
  "('p, 'u) borsh \<Rightarrow> 's prover_storage \<Rightarrow> storage_key \<Rightarrow> storage_witness \<Rightarrow>
   (storage_value option \<times> storage_witness) option" where
  "prover_get B s key w = do {
     v \<leftarrow> read_value s key;
     Some (v, add_hint (enc_value B) v w)
   }"

definition prover_get_offchain ::
  "('p, 'u) borsh \<Rightarrow> 's prover_storage \<Rightarrow> storage_key \<Rightarrow> storage_witness \<Rightarrow>
   (storage_value option \<times> storage_witness) option" where
  "prover_get_offchain B s key w = do {
     v \<leftarrow> ps_read_native s key (ps_version s);
     Some (v, add_hint (enc_value B) v w)
   }"

definition prover_get_accessory :: "'s prover_storage \<Rightarrow> storage_key \<Rightarrow> storage_value option option" where
  "prover_get_accessory s key = ps_read_native s key (ps_version s)"

definition prover_storage_ops :: "('p, 'u) borsh \<Rightarrow> 's prover_storage \<Rightarrow> storage_ops" where
  "prover_storage_ops B s =
     \<lparr> st_get = prover_get B s, st_get_offchain = prover_get_offchain B s,
       st_get_accessory = prover_get_accessory s \<rparr>"

definition clone_with_version :: "'s prover_storage \<Rightarrow> u64 \<Rightarrow> 's prover_storage" where
  "clone_with_version s ver = s \<lparr> ps_version := ver, ps_committable := False \<rparr>"

definition prover_get_and_prove ::
  "('p, 'u) borsh \<Rightarrow> ('p, 'u) jmt_verifier \<Rightarrow> ('s, 'p, 'u, 'n) jmt_tree \<Rightarrow> 's prover_storage \<Rightarrow>
   storage_key \<Rightarrow> storage_witness \<Rightarrow> hash32 \<Rightarrow> (storage_value option \<times> storage_witness) option" where
  "prover_get_and_prove B V T s key w state_root =
     (case get_with_proof T (ps_tree s) (key_hash V key) (ps_version s) of
        Inl _ \<Rightarrow> None
      | Inr (v, p) \<Rightarrow> Some (v, add_hint (enc_proof B) p (add_hint (enc_value B) v w)))"

fun prover_prove_reads ::
  "('p, 'u) borsh \<Rightarrow> ('p, 'u) jmt_verifier \<Rightarrow> ('s, 'p, 'u, 'n) jmt_tree \<Rightarrow> 's \<Rightarrow> u64 \<Rightarrow>
   (cache_key \<times> cache_value option) list \<Rightarrow> storage_witness \<Rightarrow> storage_error + storage_witness" where
  "prover_prove_reads B V T tree ver [] w = Ok w"
| "prover_prove_reads B V T tree ver ((k, v) # rs) w =
     (case get_with_proof T tree (key_hash V k) ver of
        Inl e \<Rightarrow> Err e
      | Inr (res, p) \<Rightarrow>
          if res \<noteq> v then Err IncorrectRead
          else prover_prove_reads B V T tree ver rs (add_hint (enc_proof B) p w))"

definition write_batch :: "('p, 'u) jmt_verifier \<Rightarrow> read_write_log \<Rightarrow> key_batch" where
  "write_batch V log = map (\<lambda>(k, v). (key_hash V k, v)) (iter_ordered_writes log)"

definition diff_of :: "bool \<Rightarrow> read_write_log \<Rightarrow> state_diff" where
  "diff_of accumulate_diff log = (if accumulate_diff then iter_ordered_writes log else [])"

definition prover_compute_state_update ::
  "('p, 'u) borsh \<Rightarrow> ('p, 'u) jmt_verifier \<Rightarrow> ('s, 'p, 'u, 'n) jmt_tree \<Rightarrow> 's prover_storage \<Rightarrow>
   read_write_log \<Rightarrow> storage_witness \<Rightarrow> bool \<Rightarrow>
   (storage_error + state_root_transition \<times> ('n \<times> (hash32 \<times> cache_key) list) \<times> state_diff \<times> storage_witness) option" where
  "prover_compute_state_update B V T s log w accumulate_diff =
     (case get_root_hash_option T (ps_tree s) (ps_version s) of
        Inl e \<Rightarrow> Some (Err e)
      | Inr r \<Rightarrow> do {
          tree \<leftarrow> (if r = None
                   then do { assert_that (ps_version s = 0); put_empty T (ps_tree s) (ps_version s) }
                   else Some (ps_tree s));
          prev_root \<leftarrow> get_root_hash T tree (ps_version s);
          (case prover_prove_reads B V T tree (ps_version s) (ordered_reads log)
                  (add_hint (enc_root B) prev_root w) of
             Inl e \<Rightarrow> Some (Err e)
           | Inr w' \<Rightarrow> do {
               (new_root, update_proof, node_batch) \<leftarrow>
                 put_value_set_with_proof T tree (write_batch V log) (ps_version s + 1);
               Some (Ok (\<lparr> init_root = prev_root, final_root = new_root \<rparr>,
                         (node_batch, map (\<lambda>(k, v). (key_hash V k, k)) (iter_ordered_writes log)),
                         diff_of accumulate_diff log,
                         add_hint (enc_root B) new_root (add_hint (enc_update_proof B) update_proof w')))
             })
        })"

subsection \<open>The guest's storage\<close>

definition zk_get ::
  "('p, 'u) borsh \<Rightarrow> storage_key \<Rightarrow> storage_witness \<Rightarrow> (storage_value option \<times> storage_witness) option" where
  "zk_get B key w = get_hint (dec_value B) w"

definition zk_get_offchain ::
  "('p, 'u) borsh \<Rightarrow> storage_key \<Rightarrow> storage_witness \<Rightarrow> (storage_value option \<times> storage_witness) option" where
  "zk_get_offchain B key w = get_hint (dec_value B) w"

definition zk_storage_ops :: "('p, 'u) borsh \<Rightarrow> storage_ops" where
  "zk_storage_ops B =
     \<lparr> st_get = zk_get B, st_get_offchain = zk_get_offchain B, st_get_accessory = \<lambda>key. Some None \<rparr>"

definition zk_get_and_prove ::
  "('p, 'u) borsh \<Rightarrow> ('p, 'u) jmt_verifier \<Rightarrow> storage_key \<Rightarrow> storage_witness \<Rightarrow> hash32 \<Rightarrow>
   (storage_value option \<times> storage_witness) option" where
  "zk_get_and_prove B V key w state_root = do {
     (v, w1) \<leftarrow> get_hint (dec_value B) w;
     (p, w2) \<leftarrow> get_hint (dec_proof B) w1;
     assert_that (proof_verify V p state_root (key_hash V key) v);
     Some (v, w2)
   }"

fun zk_verify_reads ::
  "('p, 'u) borsh \<Rightarrow> ('p, 'u) jmt_verifier \<Rightarrow> hash32 \<Rightarrow> (cache_key \<times> cache_value option) list \<Rightarrow>
   storage_witness \<Rightarrow> (storage_error + storage_witness) option" where
  "zk_verify_reads B V root [] w = Some (Ok w)"
| "zk_verify_reads B V root ((k, v) # rs) w = do {
     (p, w') \<leftarrow> get_hint (dec_proof B) w;
     if proof_verify V p root (key_hash V k) v then zk_verify_reads B V root rs w'
     else Some (Err ProofInvalid)
   }"

definition zk_compute_state_update ::
  "('p, 'u) borsh \<Rightarrow> ('p, 'u) jmt_verifier \<Rightarrow> read_write_log \<Rightarrow> storage_witness \<Rightarrow> bool \<Rightarrow>
   (storage_error + state_root_transition \<times> unit \<times> state_diff \<times> storage_witness) option" where
  "zk_compute_state_update B V log w accumulate_diff = do {
     (prev_root, w1) \<leftarrow> get_hint (dec_root B) w;
     r \<leftarrow> zk_verify_reads B V prev_root (ordered_reads log) w1;
     (case r of
        Inl e \<Rightarrow> Some (Err e)
      | Inr w2 \<Rightarrow> do {
          (update_proof, w3) \<leftarrow> get_hint (dec_update_proof B) w2;
          (new_root, w4) \<leftarrow> get_hint (dec_root B) w3;
          assert_that (verify_update V update_proof prev_root new_root (write_batch V log));
          Some (Ok (\<lparr> init_root = prev_root, final_root = new_root \<rparr>, (), diff_of accumulate_diff log, w4))
        })
   }"

subsection \<open>What the code relies on of the tree\<close>

definition jmt_complete :: "('p, 'u) jmt_verifier \<Rightarrow> ('s, 'p, 'u, 'n) jmt_tree \<Rightarrow> bool" where
  "jmt_complete V T \<longleftrightarrow>
     (\<forall>s kh ver v p r. get_with_proof T s kh ver = Ok (v, p) \<and> get_root_hash T s ver = Some r \<longrightarrow>
        proof_verify V p r kh v) \<and>
     (\<forall>s batch ver r r' u n. put_value_set_with_proof T s batch (ver + 1) = Some (r', u, n) \<and>
        get_root_hash T s ver = Some r \<longrightarrow> verify_update V u r r' batch)"

definition apply_batch :: "key_batch \<Rightarrow> (hash32 \<Rightarrow> storage_value option) \<Rightarrow> hash32 \<Rightarrow> storage_value option" where
  "apply_batch batch m = fold (\<lambda>(k, v) m. m(k := v)) batch m"

definition jmt_sound ::
  "('p, 'u) jmt_verifier \<Rightarrow> ('t \<Rightarrow> hash32) \<Rightarrow> ('t \<Rightarrow> hash32 \<Rightarrow> storage_value option) \<Rightarrow> bool" where
  "jmt_sound V root_of tree_get \<longleftrightarrow>
     (\<forall>t kh v p. proof_verify V p (root_of t) kh v \<longrightarrow> tree_get t kh = v) \<and>
     (\<forall>t r batch u. verify_update V u (root_of t) r batch \<longrightarrow>
        (\<exists>t'. r = root_of t' \<and> tree_get t' = apply_batch batch (tree_get t)))"

lemma get_hint_Cons [simp]: "dec (enc x) = Some x \<Longrightarrow> get_hint dec (enc x # rest) = Some (x, rest)"
  by (simp add: get_hint_def)

lemma to_cache_key_inj [simp]: "to_cache_key_version k ver = to_cache_key_version k' ver \<longleftrightarrow> k = k'"
  by (auto simp: to_cache_key_version_def split: option.splits)

subsection \<open>The guest replays what the prover recorded\<close>

text \<open>
  A recording operation appends hints to the witness, and the operation that replays it returns
  the same value from those hints and leaves what follows them.
\<close>

definition replays ::
  "(storage_witness \<Rightarrow> ('a \<times> storage_witness) option) \<Rightarrow>
   (storage_witness \<Rightarrow> ('b \<times> storage_witness) option) \<Rightarrow> ('a \<Rightarrow> 'b) \<Rightarrow> bool" where
  "replays record replay f \<longleftrightarrow>
     (\<forall>w x w'. record w = Some (x, w') \<longrightarrow>
        (\<exists>hs. w' = w @ hs \<and> (\<forall>rest. replay (hs @ rest) = Some (f x, rest))))"

lemma replays_get: "borsh_roundtrip B \<Longrightarrow> replays (prover_get B s key) (zk_get B key) id"
  by (auto simp: replays_def prover_get_def zk_get_def add_hint_def borsh_roundtrip_def bind_is_Some)

lemma replays_get_offchain:
  "borsh_roundtrip B \<Longrightarrow> replays (prover_get_offchain B s key) (zk_get_offchain B key) id"
  by (auto simp: replays_def prover_get_offchain_def zk_get_offchain_def add_hint_def borsh_roundtrip_def
      bind_is_Some)

lemma replays_get_and_prove:
  assumes "borsh_roundtrip B" "jmt_complete V T" "get_root_hash T (ps_tree s) (ps_version s) = Some root"
  shows "replays (\<lambda>w. prover_get_and_prove B V T s key w root) (\<lambda>w. zk_get_and_prove B V key w root) id"
  using assms unfolding jmt_complete_def
  by (auto simp: replays_def prover_get_and_prove_def zk_get_and_prove_def add_hint_def borsh_roundtrip_def
      split: sum.splits)

lemma prove_reads_replay:
  assumes "borsh_roundtrip B" "jmt_complete V T" "get_root_hash T tree ver = Some root"
  shows "prover_prove_reads B V T tree ver rs w = Ok w' \<Longrightarrow>
    \<exists>hs. w' = w @ hs \<and> (\<forall>rest. zk_verify_reads B V root rs (hs @ rest) = Some (Ok rest))"
proof (induction rs arbitrary: w w')
  case (Cons r rs)
  obtain k v where r: "r = (k, v)" by force
  with Cons.prems obtain p where p: "get_with_proof T tree (key_hash V k) ver = Ok (v, p)"
    and rest: "prover_prove_reads B V T tree ver rs (w @ [enc_proof B p]) = Ok w'"
    by (auto simp: add_hint_def split: sum.splits if_splits)
  from Cons.IH [OF rest] obtain hs where hs: "w' = (w @ [enc_proof B p]) @ hs"
      "\<And>rest. zk_verify_reads B V root rs (hs @ rest) = Some (Ok rest)"
    by blast
  moreover have "proof_verify V p root (key_hash V k) v"
    using assms(2,3) p unfolding jmt_complete_def by blast
  ultimately show ?case
    using assms(1) r by (intro exI [of _ "enc_proof B p # hs"]) (simp add: borsh_roundtrip_def)
qed simp

lemma compute_state_update_replay:
  assumes "borsh_roundtrip B" "jmt_complete V T"
    and "prover_compute_state_update B V T s log w acc = Some (Ok (tr, upd, diff, w'))"
  shows "\<exists>hs. w' = w @ hs \<and>
    (\<forall>rest. zk_compute_state_update B V log (hs @ rest) acc = Some (Ok (tr, (), diff, rest)))"
proof -
  let ?v = "ps_version s"
  from assms(3) obtain tree root w1 r' u n where
    root: "get_root_hash T tree ?v = Some root" and
    reads: "prover_prove_reads B V T tree ?v (ordered_reads log) (w @ [enc_root B root]) = Ok w1" and
    put: "put_value_set_with_proof T tree (write_batch V log) (?v + 1) = Some (r', u, n)" and
    out: "tr = \<lparr> init_root = root, final_root = r' \<rparr>" "diff = diff_of acc log"
      "w' = w1 @ [enc_update_proof B u, enc_root B r']"
    by (auto simp: prover_compute_state_update_def panic_simps add_hint_def)
  from prove_reads_replay [OF assms(1,2) root reads] obtain hs where
    hs: "w1 = (w @ [enc_root B root]) @ hs" "\<And>rest. zk_verify_reads B V root (ordered_reads log) (hs @ rest) = Some (Ok rest)"
    by blast
  have upd: "verify_update V u root r' (write_batch V log)"
    using assms(2) root put unfolding jmt_complete_def by blast
  show ?thesis
    using assms(1) hs upd out
    by (intro exI [of _ "enc_root B root # hs @ [enc_update_proof B u, enc_root B r']"])
      (simp add: zk_compute_state_update_def borsh_roundtrip_def)
qed

subsection \<open>The guest accepts only what the tree says\<close>

lemma zk_verify_reads_sound:
  assumes "jmt_sound V root_of tree_get"
  shows "zk_verify_reads B V (root_of t) rs w = Some (Ok w') \<Longrightarrow>
    \<forall>(k, v) \<in> set rs. tree_get t (key_hash V k) = v"
proof (induction rs arbitrary: w)
  case (Cons r rs)
  then show ?case
    using assms unfolding jmt_sound_def by (cases r) (fastforce simp: panic_simps split: if_splits)
qed simp

lemma zk_compute_state_update_sound:
  assumes "jmt_sound V root_of tree_get"
    and "zk_compute_state_update B V log w acc = Some (Ok (tr, u, diff, w'))" "init_root tr = root_of t"
  shows "(\<forall>(k, v) \<in> set (ordered_reads log). tree_get t (key_hash V k) = v) \<and>
    (\<exists>t'. final_root tr = root_of t' \<and> tree_get t' = apply_batch (write_batch V log) (tree_get t)) \<and>
    diff = diff_of acc log"
proof -
  from assms(2) obtain root w1 w2 up new where
    "zk_verify_reads B V root (ordered_reads log) w1 = Some (Ok w2)"
    "verify_update V up root new (write_batch V log)"
    "tr = \<lparr> init_root = root, final_root = new \<rparr>" "diff = diff_of acc log"
    by (auto simp: zk_compute_state_update_def panic_simps)
  with assms(1,3) show ?thesis
    using zk_verify_reads_sound [OF assms(1)] by (simp add: jmt_sound_def) blast
qed

text \<open>
  A batch keyed by hashes acts on a key as the writes do, unless another written key has its hash.
\<close>

lemma apply_batch_key:
  assumes "m (key_hash V k) = f k" "\<And>w. w \<in> fst ` set ws \<Longrightarrow> key_hash V w = key_hash V k \<Longrightarrow> w = k"
  shows "apply_batch (map (\<lambda>(k, v). (key_hash V k, v)) ws) m (key_hash V k) = apply_writes f ws k"
  using assms
proof (induction ws arbitrary: m f)
  case (Cons w ws)
  have "(m(key_hash V (fst w) := snd w)) (key_hash V k) = (f(fst w := snd w)) k"
    using Cons.prems(1) Cons.prems(2) [of "fst w"] by (cases "fst w = k") auto
  with Cons.IH [of "m(key_hash V (fst w) := snd w)" "f(fst w := snd w)"] Cons.prems(2) show ?case
    by (simp add: apply_batch_def apply_writes_def case_prod_beta del: fun_upd_apply)
qed (simp add: apply_batch_def apply_writes_def)

lemma apply_batch_keys:
  assumes "\<And>w. w \<in> fst ` set ws \<Longrightarrow> key_hash V w = key_hash V k \<Longrightarrow> w = k"
  shows "apply_batch (map (\<lambda>(k, v). (key_hash V k, v)) ws) m (key_hash V k) =
    apply_writes (\<lambda>k. m (key_hash V k)) ws k"
  by (rule apply_batch_key [OF refl assms])

end
