(* ===== verification/Working_Set.thy ===== *)
theory Working_Set
  imports Storage
begin

section \<open>Deltas, checkpoints and working sets\<close>

text \<open>
  Models \<^verbatim>\<open>sov-modules-core/src/storage/scratchpad.rs\<close>: \<^verbatim>\<open>StateDelta\<close>, \<^verbatim>\<open>AccessoryDelta\<close>, \<^verbatim>\<open>OffchainDelta\<close>,
  \<^verbatim>\<open>StateCheckpoint\<close>, \<^verbatim>\<open>WorkingSet\<close> with its accessory and offchain handles, and the archival working
  sets. Code that runs on a working set is a \<^verbatim>\<open>state_prog\<close>, a tree of the calls it makes whose
  branches depend on the values read, so that one theorem speaks of every transaction.
\<close>

subsection \<open>The state delta\<close>

record state_delta =
  sd_storage :: storage_ops
  sd_cache_log :: cache_log
  sd_uncommitted :: "(cache_key, cache_value option) bmap"
  sd_reads :: "(cache_key \<times> cache_value option) list"
  sd_witness :: storage_witness
  sd_version :: "u64 option"

definition sd_with_witness :: "storage_ops \<Rightarrow> storage_witness \<Rightarrow> u64 option \<Rightarrow> state_delta" where
  "sd_with_witness st w ver =
     \<lparr> sd_storage = st, sd_cache_log = [], sd_uncommitted = [], sd_reads = [], sd_witness = w,
       sd_version = ver \<rparr>"

definition sd_new :: "storage_ops \<Rightarrow> u64 option \<Rightarrow> state_delta" where
  "sd_new st ver = sd_with_witness st [] ver"

definition sd_with_witness_and_log ::
  "storage_ops \<Rightarrow> storage_witness \<Rightarrow> read_write_log \<Rightarrow> u64 option \<Rightarrow> state_delta" where
  "sd_with_witness_and_log st w log ver =
     \<lparr> sd_storage = st, sd_cache_log = into_cache_log log, sd_uncommitted = [], sd_reads = [],
       sd_witness = w, sd_version = ver \<rparr>"

definition sd_commit :: "state_delta \<Rightarrow> state_delta" where
  "sd_commit d = d \<lparr> sd_uncommitted := [],
     sd_cache_log := fold (\<lambda>(k, v) l. add_write l k v) (sd_uncommitted d) (sd_cache_log d) \<rparr>"

definition sd_revert :: "state_delta \<Rightarrow> state_delta" where
  "sd_revert d = d \<lparr> sd_uncommitted := [] \<rparr>"

definition sd_freeze :: "state_delta \<Rightarrow> (read_write_log \<times> storage_witness) \<times> state_delta" where
  "sd_freeze d =
     ((\<lparr> ordered_reads = sd_reads d, rw_cache_log = sd_cache_log d \<rparr>, sd_witness d),
      d \<lparr> sd_reads := [], sd_cache_log := [], sd_witness := [] \<rparr>)"

definition sd_get :: "state_delta \<Rightarrow> storage_key \<Rightarrow> (storage_value option \<times> state_delta) option" where
  "sd_get d key = (let ck = to_cache_key_version key (sd_version d) in
     case bm_get (sd_uncommitted d) ck of
       Some v \<Rightarrow> Some (v, d)
     | None \<Rightarrow> (case get_value (sd_cache_log d) ck of
         Yes v \<Rightarrow> Some (v, d)
       | No \<Rightarrow> (case st_get (sd_storage d) key (sd_witness d) of
           None \<Rightarrow> None
         | Some (v, w) \<Rightarrow> (case add_read (sd_cache_log d) ck v of
             Inl _ \<Rightarrow> None
           | Inr log \<Rightarrow> Some (v, d \<lparr> sd_witness := w, sd_cache_log := log,
                                    sd_reads := sd_reads d @ [(ck, v)] \<rparr>)))))"

definition sd_set :: "state_delta \<Rightarrow> storage_key \<Rightarrow> storage_value \<Rightarrow> state_delta" where
  "sd_set d key v = d \<lparr> sd_uncommitted :=
     bm_insert (to_cache_key_version key (sd_version d)) (Some v) (sd_uncommitted d) \<rparr>"

definition sd_delete :: "state_delta \<Rightarrow> storage_key \<Rightarrow> state_delta" where
  "sd_delete d key = d \<lparr> sd_uncommitted :=
     bm_insert (to_cache_key_version key (sd_version d)) None (sd_uncommitted d) \<rparr>"

subsection \<open>The accessory delta\<close>

record accessory_delta =
  ad_storage :: storage_ops
  ad_committed :: "(cache_key, cache_value option) bmap"
  ad_uncommitted :: "(cache_key, cache_value option) bmap"
  ad_version :: "u64 option"

definition ad_new :: "storage_ops \<Rightarrow> u64 option \<Rightarrow> accessory_delta" where
  "ad_new st ver = \<lparr> ad_storage = st, ad_committed = [], ad_uncommitted = [], ad_version = ver \<rparr>"

definition ad_commit :: "accessory_delta \<Rightarrow> accessory_delta" where
  "ad_commit d = d \<lparr> ad_committed := bm_append (ad_committed d) (ad_uncommitted d), ad_uncommitted := [] \<rparr>"

definition ad_revert :: "accessory_delta \<Rightarrow> accessory_delta" where
  "ad_revert d = d \<lparr> ad_uncommitted := [] \<rparr>"

definition ad_freeze :: "accessory_delta \<Rightarrow> (cache_key \<times> cache_value option) list \<times> accessory_delta" where
  "ad_freeze d = (ad_committed d, d \<lparr> ad_committed := [] \<rparr>)"

definition ad_get :: "accessory_delta \<Rightarrow> storage_key \<Rightarrow> storage_value option option" where
  "ad_get d key = (let ck = to_cache_key_version key (ad_version d) in
     case bm_get (ad_uncommitted d) ck of
       Some v \<Rightarrow> Some v
     | None \<Rightarrow> (case bm_get (ad_committed d) ck of
         Some v \<Rightarrow> Some v
       | None \<Rightarrow> st_get_accessory (ad_storage d) key))"

definition ad_set :: "accessory_delta \<Rightarrow> storage_key \<Rightarrow> storage_value \<Rightarrow> accessory_delta" where
  "ad_set d key v = d \<lparr> ad_uncommitted :=
     bm_insert (to_cache_key_version key (ad_version d)) (Some v) (ad_uncommitted d) \<rparr>"

definition ad_delete :: "accessory_delta \<Rightarrow> storage_key \<Rightarrow> accessory_delta" where
  "ad_delete d key = d \<lparr> ad_uncommitted :=
     bm_insert (to_cache_key_version key (ad_version d)) None (ad_uncommitted d) \<rparr>"

subsection \<open>The offchain delta\<close>

record offchain_delta =
  od_storage :: storage_ops
  od_cache_log :: cache_log
  od_uncommitted :: "(cache_key, cache_value option) bmap"
  od_witness :: storage_witness
  od_version :: "u64 option"

definition od_with_witness :: "storage_ops \<Rightarrow> storage_witness \<Rightarrow> u64 option \<Rightarrow> offchain_delta" where
  "od_with_witness st w ver =
     \<lparr> od_storage = st, od_cache_log = [], od_uncommitted = [], od_witness = w, od_version = ver \<rparr>"

definition od_new :: "storage_ops \<Rightarrow> u64 option \<Rightarrow> offchain_delta" where
  "od_new st ver = od_with_witness st [] ver"

definition od_with_witness_and_log ::
  "storage_ops \<Rightarrow> storage_witness \<Rightarrow> read_write_log \<Rightarrow> u64 option \<Rightarrow> offchain_delta" where
  "od_with_witness_and_log st w log ver =
     \<lparr> od_storage = st, od_cache_log = into_cache_log log, od_uncommitted = [], od_witness = w,
       od_version = ver \<rparr>"

definition od_commit :: "offchain_delta \<Rightarrow> offchain_delta" where
  "od_commit d = d \<lparr> od_uncommitted := [],
     od_cache_log := fold (\<lambda>(k, v) l. add_write l k v) (od_uncommitted d) (od_cache_log d) \<rparr>"

definition od_revert :: "offchain_delta \<Rightarrow> offchain_delta" where
  "od_revert d = d \<lparr> od_uncommitted := [] \<rparr>"

definition od_freeze :: "offchain_delta \<Rightarrow> (read_write_log \<times> storage_witness) \<times> offchain_delta" where
  "od_freeze d =
     ((\<lparr> ordered_reads = [], rw_cache_log = od_cache_log d \<rparr>, od_witness d),
      d \<lparr> od_cache_log := [], od_witness := [] \<rparr>)"

definition od_get_with_cache_info ::
  "offchain_delta \<Rightarrow> storage_key \<Rightarrow> ((storage_value option \<times> bool) \<times> offchain_delta) option" where
  "od_get_with_cache_info d key = (let ck = to_cache_key_version key (od_version d) in
     case bm_get (od_uncommitted d) ck of
       Some v \<Rightarrow> Some ((v, True), d)
     | None \<Rightarrow> (case get_value (od_cache_log d) ck of
         Yes v \<Rightarrow> Some ((v, True), d)
       | No \<Rightarrow> (case st_get_offchain (od_storage d) key (od_witness d) of
           None \<Rightarrow> None
         | Some (v, w) \<Rightarrow> (case add_read (od_cache_log d) ck v of
             Inl _ \<Rightarrow> None
           | Inr log \<Rightarrow> Some ((v, False), d \<lparr> od_witness := w, od_cache_log := log \<rparr>)))))"

definition od_get :: "offchain_delta \<Rightarrow> storage_key \<Rightarrow> (storage_value option \<times> offchain_delta) option" where
  "od_get d key = (let ck = to_cache_key_version key (od_version d) in
     case bm_get (od_uncommitted d) ck of
       Some v \<Rightarrow> Some (v, d)
     | None \<Rightarrow> (case get_value (od_cache_log d) ck of
         Yes v \<Rightarrow> Some (v, d)
       | No \<Rightarrow> (case st_get_offchain (od_storage d) key (od_witness d) of
           None \<Rightarrow> None
         | Some (v, w) \<Rightarrow> (case add_read (od_cache_log d) ck v of
             Inl _ \<Rightarrow> None
           | Inr log \<Rightarrow> Some (v, d \<lparr> od_witness := w, od_cache_log := log \<rparr>)))))"

definition od_set :: "offchain_delta \<Rightarrow> storage_key \<Rightarrow> storage_value \<Rightarrow> offchain_delta" where
  "od_set d key v = d \<lparr> od_uncommitted :=
     bm_insert (to_cache_key_version key (od_version d)) (Some v) (od_uncommitted d) \<rparr>"

definition od_delete :: "offchain_delta \<Rightarrow> storage_key \<Rightarrow> offchain_delta" where
  "od_delete d key = d \<lparr> od_uncommitted :=
     bm_insert (to_cache_key_version key (od_version d)) None (od_uncommitted d) \<rparr>"

subsection \<open>Checkpoints and working sets\<close>

record state_checkpoint =
  cp_delta :: state_delta
  cp_accessory :: accessory_delta
  cp_offchain :: offchain_delta

record working_set =
  ws_delta :: state_delta
  ws_accessory :: accessory_delta
  ws_offchain :: offchain_delta
  ws_archival :: "state_delta option"
  ws_archival_offchain :: "offchain_delta option"
  ws_archival_accessory :: "accessory_delta option"

definition cp_with_witness :: "storage_ops \<Rightarrow> storage_witness \<Rightarrow> storage_witness \<Rightarrow> state_checkpoint" where
  "cp_with_witness st sw ow =
     \<lparr> cp_delta = sd_with_witness st sw None, cp_accessory = ad_new st None,
       cp_offchain = od_with_witness st ow None \<rparr>"

definition cp_new :: "storage_ops \<Rightarrow> state_checkpoint" where
  "cp_new st = cp_with_witness st [] []"

definition cp_with_witness_and_log ::
  "storage_ops \<Rightarrow> storage_witness \<Rightarrow> storage_witness \<Rightarrow> read_write_log \<Rightarrow> read_write_log \<Rightarrow> state_checkpoint" where
  "cp_with_witness_and_log st sw ow slog olog =
     \<lparr> cp_delta = sd_with_witness_and_log st sw slog None, cp_accessory = ad_new st None,
       cp_offchain = od_with_witness_and_log st ow olog None \<rparr>"

definition to_revertable :: "state_checkpoint \<Rightarrow> working_set" where
  "to_revertable c =
     \<lparr> ws_delta = cp_delta c, ws_accessory = cp_accessory c, ws_offchain = cp_offchain c,
       ws_archival = None, ws_archival_offchain = None, ws_archival_accessory = None \<rparr>"

definition cp_freeze :: "state_checkpoint \<Rightarrow> (read_write_log \<times> storage_witness) \<times> state_checkpoint" where
  "cp_freeze c = (let (r, d) = sd_freeze (cp_delta c) in (r, c \<lparr> cp_delta := d \<rparr>))"

definition cp_freeze_non_provable ::
  "state_checkpoint \<Rightarrow> (cache_key \<times> cache_value option) list \<times> state_checkpoint" where
  "cp_freeze_non_provable c = (let (r, d) = ad_freeze (cp_accessory c) in (r, c \<lparr> cp_accessory := d \<rparr>))"

definition cp_freeze_offchain :: "state_checkpoint \<Rightarrow> (read_write_log \<times> storage_witness) \<times> state_checkpoint" where
  "cp_freeze_offchain c = (let (r, d) = od_freeze (cp_offchain c) in (r, c \<lparr> cp_offchain := d \<rparr>))"

definition ws_new :: "storage_ops \<Rightarrow> working_set" where
  "ws_new st = to_revertable (cp_new st)"

definition ws_with_witness :: "storage_ops \<Rightarrow> storage_witness \<Rightarrow> storage_witness \<Rightarrow> working_set" where
  "ws_with_witness st sw ow = to_revertable (cp_with_witness st sw ow)"

definition ws_with_witness_and_log ::
  "storage_ops \<Rightarrow> storage_witness \<Rightarrow> storage_witness \<Rightarrow> read_write_log \<Rightarrow> read_write_log \<Rightarrow> working_set" where
  "ws_with_witness_and_log st sw ow slog olog = to_revertable (cp_with_witness_and_log st sw ow slog olog)"

text \<open>
  The storage clone for an archival version is an argument: it is \<^const>\<open>clone_with_version\<close> for the
  prover's storage and a panic for the guest's.
\<close>

definition set_archival_version :: "(u64 \<Rightarrow> storage_ops option) \<Rightarrow> u64 \<Rightarrow> working_set \<Rightarrow> working_set option" where
  "set_archival_version clone ver ws = do {
     st \<leftarrow> clone ver;
     Some (ws \<lparr> ws_archival := Some (sd_new st (Some ver)),
                ws_archival_offchain := Some (od_new st (Some ver)),
                ws_archival_accessory := Some (ad_new st (Some ver)) \<rparr>)
   }"

definition unset_archival_version :: "working_set \<Rightarrow> working_set" where
  "unset_archival_version ws =
     ws \<lparr> ws_archival := None, ws_archival_offchain := None, ws_archival_accessory := None \<rparr>"

definition ws_checkpoint :: "working_set \<Rightarrow> state_checkpoint" where
  "ws_checkpoint ws =
     \<lparr> cp_delta = sd_commit (ws_delta ws), cp_accessory = ad_commit (ws_accessory ws),
       cp_offchain = od_commit (ws_offchain ws) \<rparr>"

definition ws_revert :: "working_set \<Rightarrow> state_checkpoint" where
  "ws_revert ws =
     \<lparr> cp_delta = sd_revert (ws_delta ws), cp_accessory = ad_revert (ws_accessory ws),
       cp_offchain = od_revert (ws_offchain ws) \<rparr>"

definition ws_get :: "working_set \<Rightarrow> storage_key \<Rightarrow> (storage_value option \<times> working_set) option" where
  "ws_get ws key = (case ws_archival ws of
      None \<Rightarrow> do { (v, d) \<leftarrow> sd_get (ws_delta ws) key; Some (v, ws \<lparr> ws_delta := d \<rparr>) }
    | Some a \<Rightarrow> do { (v, d) \<leftarrow> sd_get a key; Some (v, ws \<lparr> ws_archival := Some d \<rparr>) })"

definition ws_set :: "working_set \<Rightarrow> storage_key \<Rightarrow> storage_value \<Rightarrow> working_set" where
  "ws_set ws key v = (case ws_archival ws of
      None \<Rightarrow> ws \<lparr> ws_delta := sd_set (ws_delta ws) key v \<rparr>
    | Some a \<Rightarrow> ws \<lparr> ws_archival := Some (sd_set a key v) \<rparr>)"

definition ws_delete :: "working_set \<Rightarrow> storage_key \<Rightarrow> working_set" where
  "ws_delete ws key = (case ws_archival ws of
      None \<Rightarrow> ws \<lparr> ws_delta := sd_delete (ws_delta ws) key \<rparr>
    | Some a \<Rightarrow> ws \<lparr> ws_archival := Some (sd_delete a key) \<rparr>)"

text \<open>The handle for accessory state; \<open>native\<close> is the build feature of that name.\<close>

definition accessory_get :: "bool \<Rightarrow> working_set \<Rightarrow> storage_key \<Rightarrow> storage_value option option" where
  "accessory_get native ws key =
     (if \<not> native then Some None
      else (case ws_archival_accessory ws of
          None \<Rightarrow> ad_get (ws_accessory ws) key
        | Some a \<Rightarrow> ad_get a key))"

definition accessory_set :: "working_set \<Rightarrow> storage_key \<Rightarrow> storage_value \<Rightarrow> working_set" where
  "accessory_set ws key v = (case ws_archival_accessory ws of
      None \<Rightarrow> ws \<lparr> ws_accessory := ad_set (ws_accessory ws) key v \<rparr>
    | Some a \<Rightarrow> ws \<lparr> ws_archival_accessory := Some (ad_set a key v) \<rparr>)"

definition accessory_delete :: "working_set \<Rightarrow> storage_key \<Rightarrow> working_set" where
  "accessory_delete ws key = (case ws_archival_accessory ws of
      None \<Rightarrow> ws \<lparr> ws_accessory := ad_delete (ws_accessory ws) key \<rparr>
    | Some a \<Rightarrow> ws \<lparr> ws_archival_accessory := Some (ad_delete a key) \<rparr>)"

text \<open>The handle for offchain state. The archival variant returns nothing outside native builds.\<close>

definition offchain_get :: "bool \<Rightarrow> working_set \<Rightarrow> storage_key \<Rightarrow> (storage_value option \<times> working_set) option" where
  "offchain_get native ws key = (case ws_archival_offchain ws of
      None \<Rightarrow> do { (v, d) \<leftarrow> od_get (ws_offchain ws) key; Some (v, ws \<lparr> ws_offchain := d \<rparr>) }
    | Some a \<Rightarrow> if \<not> native then Some (None, ws)
                else do { (v, d) \<leftarrow> od_get a key; Some (v, ws \<lparr> ws_archival_offchain := Some d \<rparr>) })"

definition offchain_get_with_cache_info ::
  "working_set \<Rightarrow> storage_key \<Rightarrow> ((storage_value option \<times> bool) \<times> working_set) option" where
  "offchain_get_with_cache_info ws key = (case ws_archival_offchain ws of
      None \<Rightarrow> do { (r, d) \<leftarrow> od_get_with_cache_info (ws_offchain ws) key; Some (r, ws \<lparr> ws_offchain := d \<rparr>) }
    | Some a \<Rightarrow> do { (r, d) \<leftarrow> od_get_with_cache_info a key; Some (r, ws \<lparr> ws_archival_offchain := Some d \<rparr>) })"

definition offchain_set :: "working_set \<Rightarrow> storage_key \<Rightarrow> storage_value \<Rightarrow> working_set" where
  "offchain_set ws key v = (case ws_archival_offchain ws of
      None \<Rightarrow> ws \<lparr> ws_offchain := od_set (ws_offchain ws) key v \<rparr>
    | Some a \<Rightarrow> ws \<lparr> ws_archival_offchain := Some (od_set a key v) \<rparr>)"

definition offchain_delete :: "working_set \<Rightarrow> storage_key \<Rightarrow> working_set" where
  "offchain_delete ws key = (case ws_archival_offchain ws of
      None \<Rightarrow> ws \<lparr> ws_offchain := od_delete (ws_offchain ws) key \<rparr>
    | Some a \<Rightarrow> ws \<lparr> ws_archival_offchain := Some (od_delete a key) \<rparr>)"

subsection \<open>Typed access, on any reader and writer\<close>

text \<open>
  The default methods of \<^verbatim>\<open>StateReaderAndWriter\<close> take the \<^verbatim>\<open>get\<close>, \<^verbatim>\<open>set\<close> or \<^verbatim>\<open>delete\<close> of the implementing
  type. The key and value codecs are functions; \<open>dec\<close> is \<^const>\<open>None\<close> where \<^verbatim>\<open>decode_value_unwrap\<close> panics.
\<close>

definition storage_key_new :: "bytes \<Rightarrow> ('q \<Rightarrow> bytes) \<Rightarrow> 'q \<Rightarrow> storage_key" where
  "storage_key_new prefix enc_key k = prefix @ enc_key k"

definition storage_key_singleton :: "bytes \<Rightarrow> storage_key" where
  "storage_key_singleton prefix = prefix"

type_synonym 'd getter = "'d \<Rightarrow> storage_key \<Rightarrow> (storage_value option \<times> 'd) option"
type_synonym 'd setter = "'d \<Rightarrow> storage_key \<Rightarrow> storage_value \<Rightarrow> 'd"
type_synonym 'd deleter = "'d \<Rightarrow> storage_key \<Rightarrow> 'd"

definition set_value :: "'d setter \<Rightarrow> bytes \<Rightarrow> ('q \<Rightarrow> bytes) \<Rightarrow> ('v \<Rightarrow> bytes) \<Rightarrow> 'd \<Rightarrow> 'q \<Rightarrow> 'v \<Rightarrow> 'd" where
  "set_value st prefix enc_key enc_val d k v = st d (storage_key_new prefix enc_key k) (enc_val v)"

definition set_singleton :: "'d setter \<Rightarrow> bytes \<Rightarrow> ('v \<Rightarrow> bytes) \<Rightarrow> 'd \<Rightarrow> 'v \<Rightarrow> 'd" where
  "set_singleton st prefix enc_val d v = st d (storage_key_singleton prefix) (enc_val v)"

definition get_decoded :: "'d getter \<Rightarrow> (bytes \<Rightarrow> 'v option) \<Rightarrow> 'd \<Rightarrow> storage_key \<Rightarrow> ('v option \<times> 'd) option" where
  "get_decoded gt dec d key = do {
     (r, d') \<leftarrow> gt d key;
     (case r of
        None \<Rightarrow> Some (None, d')
      | Some b \<Rightarrow> do { v \<leftarrow> dec b; Some (Some v, d') })
   }"

definition get_value_of ::
  "'d getter \<Rightarrow> bytes \<Rightarrow> ('q \<Rightarrow> bytes) \<Rightarrow> (bytes \<Rightarrow> 'v option) \<Rightarrow> 'd \<Rightarrow> 'q \<Rightarrow> ('v option \<times> 'd) option" where
  "get_value_of gt prefix enc_key dec d k = get_decoded gt dec d (storage_key_new prefix enc_key k)"

definition get_singleton :: "'d getter \<Rightarrow> bytes \<Rightarrow> (bytes \<Rightarrow> 'v option) \<Rightarrow> 'd \<Rightarrow> ('v option \<times> 'd) option" where
  "get_singleton gt prefix dec d = get_decoded gt dec d (storage_key_singleton prefix)"

definition remove_decoded ::
  "'d getter \<Rightarrow> 'd deleter \<Rightarrow> (bytes \<Rightarrow> 'v option) \<Rightarrow> 'd \<Rightarrow> storage_key \<Rightarrow> ('v option \<times> 'd) option" where
  "remove_decoded gt dl dec d key = do {
     (r, d') \<leftarrow> get_decoded gt dec d key;
     (case r of None \<Rightarrow> Some (None, d') | Some v \<Rightarrow> Some (Some v, dl d' key))
   }"

definition remove_value ::
  "'d getter \<Rightarrow> 'd deleter \<Rightarrow> bytes \<Rightarrow> ('q \<Rightarrow> bytes) \<Rightarrow> (bytes \<Rightarrow> 'v option) \<Rightarrow> 'd \<Rightarrow> 'q \<Rightarrow> ('v option \<times> 'd) option" where
  "remove_value gt dl prefix enc_key dec d k = remove_decoded gt dl dec d (storage_key_new prefix enc_key k)"

definition remove_singleton ::
  "'d getter \<Rightarrow> 'd deleter \<Rightarrow> bytes \<Rightarrow> (bytes \<Rightarrow> 'v option) \<Rightarrow> 'd \<Rightarrow> ('v option \<times> 'd) option" where
  "remove_singleton gt dl prefix dec d = remove_decoded gt dl dec d (storage_key_singleton prefix)"

definition delete_value :: "'d deleter \<Rightarrow> bytes \<Rightarrow> ('q \<Rightarrow> bytes) \<Rightarrow> 'd \<Rightarrow> 'q \<Rightarrow> 'd" where
  "delete_value dl prefix enc_key d k = dl d (storage_key_new prefix enc_key k)"

definition delete_singleton :: "'d deleter \<Rightarrow> bytes \<Rightarrow> 'd \<Rightarrow> 'd" where
  "delete_singleton dl prefix d = dl d (storage_key_singleton prefix)"

subsection \<open>The interface of a reader and writer\<close>

locale reader_writer =
  fixes get :: "'d getter"
    and set :: "'d setter"
    and delete :: "'d deleter"
    and view :: "'d \<Rightarrow> storage_key \<Rightarrow> storage_value option"
    and ok :: "'d \<Rightarrow> bool"
  assumes get_view: "ok d \<Longrightarrow> \<exists>d'. get d k = Some (view d k, d') \<and> ok d' \<and> view d' = view d"
    and ok_set: "ok d \<Longrightarrow> ok (set d k v)"
    and view_set: "ok d \<Longrightarrow> view (set d k v) = (view d)(k := Some v)"
    and ok_delete: "ok d \<Longrightarrow> ok (delete d k)"
    and view_delete: "ok d \<Longrightarrow> view (delete d k) = (view d)(k := None)"
begin

lemma get_decoded_view:
  assumes "ok d" "view d k = None \<or> (\<exists>b. view d k = Some b \<and> dec b \<noteq> None)"
  shows "\<exists>d'. get_decoded get dec d k = Some (Option.bind (view d k) dec, d') \<and> ok d' \<and> view d' = view d"
  using get_view [OF assms(1), of k] assms(2) by (auto simp: get_decoded_def split: option.splits)

lemma get_value_after_set:
  assumes "ok d" "dec (enc_val v) = Some v"
  shows "\<exists>d'. get_value_of get prefix enc_key dec (set_value set prefix enc_key enc_val d q v) q = Some (Some v, d') \<and>
    view d' = (view d)(storage_key_new prefix enc_key q := Some (enc_val v))"
  using get_decoded_view [OF ok_set [OF assms(1)], of "storage_key_new prefix enc_key q" "enc_val v"
      "storage_key_new prefix enc_key q" dec] assms
  by (auto simp: get_value_of_def set_value_def view_set)

lemma remove_value_spec:
  assumes "ok d" "view d (storage_key_new prefix enc_key q) = Some b" "dec b = Some v"
  shows "\<exists>d'. remove_value get delete prefix enc_key dec d q = Some (Some v, d') \<and> ok d' \<and>
    view d' = (view d)(storage_key_new prefix enc_key q := None)"
  using get_decoded_view [OF assms(1), of "storage_key_new prefix enc_key q" dec] assms(2,3)
  by (auto simp: remove_value_def remove_decoded_def ok_delete view_delete)

lemma remove_value_absent:
  assumes "ok d" "view d (storage_key_new prefix enc_key q) = None"
  shows "\<exists>d'. remove_value get delete prefix enc_key dec d q = Some (None, d') \<and> ok d' \<and> view d' = view d"
  using get_decoded_view [OF assms(1), of "storage_key_new prefix enc_key q" dec] assms(2)
  by (auto simp: remove_value_def remove_decoded_def)

end

subsection \<open>The state delta as a reader and writer\<close>

definition sd_inv :: "state_delta \<Rightarrow> bool" where
  "sd_inv d \<longleftrightarrow> bm_inv (sd_cache_log d) \<and> bm_inv (sd_uncommitted d)"

definition overlay :: "base_state \<Rightarrow> (cache_key, cache_value option) bmap \<Rightarrow> base_state" where
  "overlay base m = (\<lambda>k. case bm_get m k of Some v \<Rightarrow> v | None \<Rightarrow> base k)"

text \<open>The state a caller of the delta sees, over a base state.\<close>

definition sd_view :: "base_state \<Rightarrow> state_delta \<Rightarrow> base_state" where
  "sd_view base d = overlay (log_view base (sd_cache_log d)) (sd_uncommitted d)"

lemma overlay_Nil [simp]: "overlay base [] = base"
  by (simp add: overlay_def)

lemma overlay_insert [simp]: "bm_inv m \<Longrightarrow> overlay base (bm_insert k v m) = (overlay base m)(k := v)"
  by (auto simp: overlay_def fun_eq_iff)

lemma apply_writes_overlay: "bm_inv m \<Longrightarrow> apply_writes base m = overlay base m"
  by (simp add: apply_writes_map_of map_of_rev_distinct bm.distinct_entries overlay_def bm_get_def)

lemma sd_inv_ops [simp]:
  "sd_inv d \<Longrightarrow> sd_inv (sd_set d k v)" "sd_inv d \<Longrightarrow> sd_inv (sd_delete d k)" "sd_inv d \<Longrightarrow> sd_inv (sd_revert d)"
  by (simp_all add: sd_inv_def sd_set_def sd_delete_def sd_revert_def)

lemma sd_view_writes [simp]:
  "sd_inv d \<Longrightarrow> sd_view base (sd_set d k v) = (sd_view base d)(to_cache_key_version k (sd_version d) := Some v)"
  "sd_inv d \<Longrightarrow> sd_view base (sd_delete d k) = (sd_view base d)(to_cache_key_version k (sd_version d) := None)"
  "sd_view base (sd_revert d) = log_view base (sd_cache_log d)"
  by (simp_all add: sd_view_def sd_inv_def sd_set_def sd_delete_def sd_revert_def)

lemma sd_commit_spec:
  assumes "sd_inv d" "log_consistent base (sd_cache_log d)"
  shows "sd_inv (sd_commit d)" "log_consistent base (sd_cache_log (sd_commit d))"
    "log_view base (sd_cache_log (sd_commit d)) = sd_view base d" "sd_view base (sd_commit d) = sd_view base d"
  using assms fold_add_write [of "sd_cache_log d" base "sd_uncommitted d"]
  by (simp_all add: sd_inv_def sd_commit_def sd_view_def apply_writes_overlay)

text \<open>
  A read from the storage is right as soon as the reads the delta has recorded are: the lemma asks
  nothing of the storage, which is what makes it apply to the guest, whose values come from the
  prover and are checked only at the end of the block.
\<close>

lemma sd_get_spec:
  assumes "sd_inv d" "log_consistent base (sd_cache_log d)" "sd_get d key = Some (v, d')"
    and "\<forall>(k, v) \<in> set (sd_reads d'). base k = v"
  shows "v = sd_view base d (to_cache_key_version key (sd_version d))" "sd_inv d'"
    "log_consistent base (sd_cache_log d')" "log_view base (sd_cache_log d') = log_view base (sd_cache_log d)"
    "sd_view base d' = sd_view base d"
proof -
  let ?ck = "to_cache_key_version key (sd_version d)"
  have "v = sd_view base d ?ck \<and> sd_inv d' \<and> log_consistent base (sd_cache_log d') \<and>
    log_view base (sd_cache_log d') = log_view base (sd_cache_log d) \<and> sd_view base d' = sd_view base d"
  proof (cases "bm_get (sd_uncommitted d) ?ck = None \<and> bm_get (sd_cache_log d) ?ck = None")
    case True
    then obtain w log where get: "st_get (sd_storage d) key (sd_witness d) = Some (v, w)"
        and add: "add_read (sd_cache_log d) ?ck v = Ok log"
        and d': "d' = d \<lparr> sd_witness := w, sd_cache_log := log, sd_reads := sd_reads d @ [(?ck, v)] \<rparr>"
      using assms(3) by (auto simp: sd_get_def Let_def get_value_def split: option.splits sum.splits)
    have "log_view base (sd_cache_log d) ?ck = v"
      using assms(4) d' True by (simp add: log_view_None)
    with add_read_Ok [of "sd_cache_log d" base ?ck v] assms(1,2) add True d' show ?thesis
      by (auto simp: sd_inv_def sd_view_def overlay_def)
  next
    case False
    with assms(1-3) show ?thesis
      by (auto simp: sd_get_def Let_def get_value_def sd_view_def overlay_def log_view_def
          split: option.splits)
  qed
  then show "v = sd_view base d ?ck" "sd_inv d'" "log_consistent base (sd_cache_log d')"
    "log_view base (sd_cache_log d') = log_view base (sd_cache_log d)" "sd_view base d' = sd_view base d"
    by auto
qed

lemma sd_get_frame:
  assumes "sd_get d key = Some (v, d')"
  shows "sd_storage d' = sd_storage d \<and> sd_version d' = sd_version d \<and> sd_uncommitted d' = sd_uncommitted d \<and>
    (\<exists>rs. sd_reads d' = sd_reads d @ rs)"
  using assms
  by (auto simp: sd_get_def Let_def split: option.splits value_exists.splits sum.splits)

text \<open>A storage that answers every read, with the value of the base state.\<close>

definition answers :: "(storage_key \<Rightarrow> storage_witness \<Rightarrow> (storage_value option \<times> storage_witness) option) \<Rightarrow>
    (storage_key \<Rightarrow> storage_value option) \<Rightarrow> bool" where
  "answers gt f \<longleftrightarrow> (\<forall>k w. \<exists>w'. gt k w = Some (f k, w'))"

definition sd_key_view :: "base_state \<Rightarrow> state_delta \<Rightarrow> storage_key \<Rightarrow> storage_value option" where
  "sd_key_view base d k = sd_view base d (to_cache_key_version k (sd_version d))"

definition sd_ok :: "base_state \<Rightarrow> state_delta \<Rightarrow> bool" where
  "sd_ok base d \<longleftrightarrow> sd_inv d \<and> log_consistent base (sd_cache_log d) \<and>
     (\<forall>(k, v) \<in> set (sd_reads d). base k = v) \<and>
     answers (st_get (sd_storage d)) (\<lambda>k. base (to_cache_key_version k (sd_version d)))"

lemma sd_get_total:
  assumes "sd_ok base d"
  shows "\<exists>v d'. sd_get d key = Some (v, d') \<and> (\<forall>(k, v) \<in> set (sd_reads d'). base k = v)"
proof -
  from assms obtain w where "st_get (sd_storage d) key (sd_witness d) =
      Some (base (to_cache_key_version key (sd_version d)), w)"
    unfolding sd_ok_def answers_def by blast
  with assms show ?thesis
    by (auto simp: sd_ok_def sd_get_def Let_def get_value_def add_read_def split: option.splits)
qed

lemma sd_key_view_update:
  "(\<lambda>k. ((m :: base_state)(to_cache_key_version key ver := x)) (to_cache_key_version k ver)) =
   (\<lambda>k. m (to_cache_key_version k ver))(key := x)"
  by (auto simp: fun_eq_iff)

interpretation sd: reader_writer sd_get sd_set sd_delete "sd_key_view base" "sd_ok base" for base
proof unfold_locales
  fix d k v
  assume ok: "sd_ok base d"
  then have inv: "sd_inv d" "log_consistent base (sd_cache_log d)"
    by (simp_all add: sd_ok_def)
  obtain x d' where get: "sd_get d k = Some (x, d')" and reads: "\<forall>(k, v) \<in> set (sd_reads d'). base k = v"
    using sd_get_total [OF ok] by blast
  from sd_get_spec [OF inv get reads] sd_get_frame [OF get] get reads ok
  show "\<exists>d'. sd_get d k = Some (sd_key_view base d k, d') \<and> sd_ok base d' \<and> sd_key_view base d' = sd_key_view base d"
    by (auto simp: sd_key_view_def sd_ok_def fun_eq_iff)
  show "sd_ok base (sd_set d k v)" "sd_ok base (sd_delete d k)"
    using ok inv by (auto simp: sd_ok_def) (auto simp: sd_set_def sd_delete_def)
  show "sd_key_view base (sd_set d k v) = (sd_key_view base d)(k := Some v)"
    "sd_key_view base (sd_delete d k) = (sd_key_view base d)(k := None)"
    using inv by (simp_all add: sd_key_view_def [abs_def] sd_key_view_update [symmetric] fun_eq_iff)
      (simp_all add: sd_set_def sd_delete_def)
qed

subsection \<open>The offchain delta as a reader and writer\<close>

definition od_key_view :: "base_state \<Rightarrow> offchain_delta \<Rightarrow> storage_key \<Rightarrow> storage_value option" where
  "od_key_view base d k =
     overlay (log_view base (od_cache_log d)) (od_uncommitted d) (to_cache_key_version k (od_version d))"

definition od_ok :: "base_state \<Rightarrow> offchain_delta \<Rightarrow> bool" where
  "od_ok base d \<longleftrightarrow> bm_inv (od_cache_log d) \<and> bm_inv (od_uncommitted d) \<and> log_consistent base (od_cache_log d) \<and>
     answers (st_get_offchain (od_storage d)) (\<lambda>k. base (to_cache_key_version k (od_version d)))"

lemma od_get_spec:
  assumes "od_ok base d"
  shows "\<exists>d'. od_get d key = Some (od_key_view base d key, d') \<and> od_ok base d' \<and>
    od_key_view base d' = od_key_view base d"
proof -
  let ?ck = "to_cache_key_version key (od_version d)"
  show ?thesis
  proof (cases "bm_get (od_uncommitted d) ?ck = None \<and> bm_get (od_cache_log d) ?ck = None")
    case True
    from assms obtain w where get: "st_get_offchain (od_storage d) key (od_witness d) = Some (base ?ck, w)"
      unfolding od_ok_def answers_def by blast
    have "log_view base (od_cache_log d) ?ck = base ?ck"
      using True by (simp add: log_view_None)
    with assms obtain log where "add_read (od_cache_log d) ?ck (base ?ck) = Ok log" "bm_inv log"
        "log_consistent base log" "log_view base log = log_view base (od_cache_log d)"
      using add_read_Ok [of "od_cache_log d" base ?ck "base ?ck"] by (auto simp: od_ok_def)
    with True get assms show ?thesis
      by (simp add: od_get_def Let_def get_value_def od_ok_def od_key_view_def [abs_def] overlay_def
          log_view_None cong: option.case_cong)
  next
    case False
    with assms show ?thesis
      by (auto simp: od_get_def Let_def get_value_def od_key_view_def overlay_def log_view_def
          split: option.splits)
  qed
qed

interpretation od: reader_writer od_get od_set od_delete "od_key_view base" "od_ok base" for base
  by unfold_locales
    (auto simp: od_get_spec, auto simp: od_ok_def od_set_def od_delete_def od_key_view_def fun_eq_iff)

text \<open>The plain read is the read with cache information without the information.\<close>

lemma od_get_eq: "od_get d key = map_option (\<lambda>((v, _), d'). (v, d')) (od_get_with_cache_info d key)"
  by (auto simp: od_get_def od_get_with_cache_info_def Let_def split: option.splits value_exists.splits sum.splits)

subsection \<open>Properties\<close>

text \<open>
  On a state delta over a storage that answers every read, a typed value that was set is read
  back, a commit keeps exactly that change of the visible state, and a revert restores the state of
  the last commit; the same holds of the offchain delta for reading back.
\<close>

lemma typed_write_then_read:
  assumes "sd_ok base d" "od_ok base' e" "dec (enc_val v) = Some v"
  shows "(\<exists>d'. get_value_of sd_get prefix enc_key dec (set_value sd_set prefix enc_key enc_val d q v) q = Some (Some v, d')) \<and>
    sd_key_view base (sd_commit (set_value sd_set prefix enc_key enc_val d q v)) =
      (sd_key_view base d)(storage_key_new prefix enc_key q := Some (enc_val v)) \<and>
    sd_view base (sd_revert (set_value sd_set prefix enc_key enc_val d q v)) = sd_view base (sd_revert d) \<and>
    (\<exists>e'. get_value_of od_get prefix enc_key dec (set_value od_set prefix enc_key enc_val e q v) q = Some (Some v, e'))"
proof -
  let ?d = "set_value sd_set prefix enc_key enc_val d q v"
  have ok: "sd_inv d" "log_consistent base (sd_cache_log d)"
    using assms(1) by (simp_all add: sd_ok_def)
  then have inv: "sd_inv ?d" "log_consistent base (sd_cache_log ?d)"
    by (simp_all add: set_value_def) (simp add: sd_set_def)
  have "sd_version (sd_commit ?d) = sd_version ?d"
    by (simp add: sd_commit_def)
  then have "sd_key_view base (sd_commit ?d) = sd_key_view base ?d"
    using sd_commit_spec(4) [OF inv] by (simp add: sd_key_view_def [abs_def])
  also have "\<dots> = (sd_key_view base d)(storage_key_new prefix enc_key q := Some (enc_val v))"
    using sd.view_set [OF assms(1)] by (simp add: set_value_def)
  finally have commit: "sd_key_view base (sd_commit ?d) =
      (sd_key_view base d)(storage_key_new prefix enc_key q := Some (enc_val v))" .
  have revert: "sd_view base (sd_revert ?d) = sd_view base (sd_revert d)"
    by (simp add: set_value_def) (simp add: sd_set_def)
  show ?thesis
    using commit revert sd.get_value_after_set [where enc_val = enc_val and dec = dec and v = v and q = q and
        prefix = prefix and enc_key = enc_key, OF assms(1,3)]
      od.get_value_after_set [where enc_val = enc_val and dec = dec and v = v and q = q and
        prefix = prefix and enc_key = enc_key, OF assms(2,3)]
    by auto
qed

definition const_ops :: storage_ops where
  "const_ops = \<lparr> st_get = \<lambda>k w. Some (None, w), st_get_offchain = \<lambda>k w. Some (None, w),
     st_get_accessory = \<lambda>k. Some None \<rparr>"

lemma typed_write_then_read_applied:
  "\<exists>d'. get_value_of sd_get [1] id Some (set_value sd_set [1] id id (sd_new const_ops None) [2] [3]) [2] =
     Some (Some [3], d')"
proof -
  have "sd_ok (\<lambda>k. None) (sd_new const_ops None)" "od_ok (\<lambda>k. None) (od_new const_ops None)"
    by (simp_all add: sd_ok_def od_ok_def sd_new_def od_new_def sd_with_witness_def od_with_witness_def
        sd_inv_def answers_def const_ops_def)
  from typed_write_then_read [OF this, where enc_val = id and dec = Some and v = "[3]" and
      prefix = "[1]" and enc_key = id and q = "[2]"]
  show ?thesis by simp
qed

end
