(* ===== verification/State_Programs.thy ===== *)
theory State_Programs
  imports Working_Set
begin

section \<open>Code that runs on a working set\<close>

text \<open>
  A \<^verbatim>\<open>state_prog\<close> is what a hook, a transaction or a whole block does to its working set: a sequence
  of the calls of \<^verbatim>\<open>scratchpad.rs\<close> in which every call may depend on the values read before.
  \<^verbatim>\<open>run_prog\<close> executes it on a working set; \<^verbatim>\<open>spec_prog\<close> executes it on plain functions from keys to
  values. Accessory state can be written but not read, as in code that must behave the same inside
  and outside the guest.

  Two facts are proved for every program. The guest replays on the recorded witness exactly what the
  prover executed (\<^verbatim>\<open>block_replay\<close>). And whatever witness the guest is given, if it accepts it then its
  result is that of \<^verbatim>\<open>spec_prog\<close> on the tree whose root it started from (\<^verbatim>\<open>block_sound\<close>).
\<close>

datatype 'a state_prog =
    Return 'a
  | GetState storage_key "storage_value option \<Rightarrow> 'a state_prog"
  | SetState storage_key storage_value "'a state_prog"
  | DeleteState storage_key "'a state_prog"
  | GetOffchain storage_key "storage_value option \<times> bool \<Rightarrow> 'a state_prog"
  | SetOffchain storage_key storage_value "'a state_prog"
  | DeleteOffchain storage_key "'a state_prog"
  | SetAccessory storage_key storage_value "'a state_prog"
  | DeleteAccessory storage_key "'a state_prog"
  | Checkpoint "'a state_prog"
  | Rollback "'a state_prog"

primrec run_prog :: "'a state_prog \<Rightarrow> working_set \<Rightarrow> ('a \<times> working_set) option" where
  "run_prog (Return a) ws = Some (a, ws)"
| "run_prog (GetState k f) ws =
     (case ws_get ws k of None \<Rightarrow> None | Some (v, ws') \<Rightarrow> run_prog (f v) ws')"
| "run_prog (SetState k v p) ws = run_prog p (ws_set ws k v)"
| "run_prog (DeleteState k p) ws = run_prog p (ws_delete ws k)"
| "run_prog (GetOffchain k f) ws =
     (case offchain_get_with_cache_info ws k of None \<Rightarrow> None | Some (r, ws') \<Rightarrow> run_prog (f r) ws')"
| "run_prog (SetOffchain k v p) ws = run_prog p (offchain_set ws k v)"
| "run_prog (DeleteOffchain k p) ws = run_prog p (offchain_delete ws k)"
| "run_prog (SetAccessory k v p) ws = run_prog p (accessory_set ws k v)"
| "run_prog (DeleteAccessory k p) ws = run_prog p (accessory_delete ws k)"
| "run_prog (Checkpoint p) ws = run_prog p (to_revertable (ws_checkpoint ws))"
| "run_prog (Rollback p) ws = run_prog p (to_revertable (ws_revert ws))"

text \<open>
  The abstract run on the provable state: the current state and the state of the last checkpoint.
  Reads of offchain state are answered by the list given, in order.
\<close>

primrec spec_prog ::
  "'a state_prog \<Rightarrow> (storage_value option \<times> bool) list \<Rightarrow> base_state \<Rightarrow> base_state \<Rightarrow>
   ('a \<times> base_state \<times> base_state) option" where
  "spec_prog (Return a) os cur chk = (if os = [] then Some (a, cur, chk) else None)"
| "spec_prog (GetState k f) os cur chk = spec_prog (f (cur k)) os cur chk"
| "spec_prog (SetState k v p) os cur chk = spec_prog p os (cur(k := Some v)) chk"
| "spec_prog (DeleteState k p) os cur chk = spec_prog p os (cur(k := None)) chk"
| "spec_prog (GetOffchain k f) os cur chk =
     (case os of [] \<Rightarrow> None | r # os' \<Rightarrow> spec_prog (f r) os' cur chk)"
| "spec_prog (SetOffchain k v p) os cur chk = spec_prog p os cur chk"
| "spec_prog (DeleteOffchain k p) os cur chk = spec_prog p os cur chk"
| "spec_prog (SetAccessory k v p) os cur chk = spec_prog p os cur chk"
| "spec_prog (DeleteAccessory k p) os cur chk = spec_prog p os cur chk"
| "spec_prog (Checkpoint p) os cur chk = spec_prog p os cur cur"
| "spec_prog (Rollback p) os cur chk = spec_prog p os chk chk"

text \<open>
  A block: the program runs on a working set over the pre-state, with the logs of the block before
  as cache, and the frozen log goes to the storage. The calls are those of \<^verbatim>\<open>finalize_l2_block\<close> up to the
  state update.
\<close>

definition frozen :: "working_set \<Rightarrow> read_write_log \<times> storage_witness" where
  "frozen ws = fst (cp_freeze (ws_checkpoint ws))"

definition frozen_offchain :: "working_set \<Rightarrow> read_write_log \<times> storage_witness" where
  "frozen_offchain ws = fst (cp_freeze_offchain (ws_checkpoint ws))"

definition native_block ::
  "('p, 'u) borsh \<Rightarrow> ('p, 'u) jmt_verifier \<Rightarrow> ('s, 'p, 'u, 'n) jmt_tree \<Rightarrow> 's prover_storage \<Rightarrow>
   read_write_log \<Rightarrow> read_write_log \<Rightarrow> 'a state_prog \<Rightarrow>
   ('a \<times> state_root_transition \<times> state_diff \<times> read_write_log \<times> read_write_log \<times>
     storage_witness \<times> storage_witness) option" where
  "native_block B V T s slog olog p = do {
     (a, ws) \<leftarrow> run_prog p (ws_with_witness_and_log (prover_storage_ops B s) [] [] slog olog);
     let (log, w) = frozen ws;
     r \<leftarrow> prover_compute_state_update B V T s log w True;
     (case r of
        Inl _ \<Rightarrow> None
      | Inr (tr, upd, diff, w') \<Rightarrow>
          let (olog', ow) = frozen_offchain ws in Some (a, tr, diff, log, olog', w', ow))
   }"

definition zk_block ::
  "('p, 'u) borsh \<Rightarrow> ('p, 'u) jmt_verifier \<Rightarrow> read_write_log \<Rightarrow> read_write_log \<Rightarrow>
   storage_witness \<Rightarrow> storage_witness \<Rightarrow> 'a state_prog \<Rightarrow>
   ('a \<times> state_root_transition \<times> state_diff \<times> read_write_log \<times> read_write_log \<times>
     storage_witness \<times> storage_witness) option" where
  "zk_block B V slog olog sw ow p = do {
     (a, ws) \<leftarrow> run_prog p (ws_with_witness_and_log (zk_storage_ops B) sw ow slog olog);
     let (log, w) = frozen ws;
     r \<leftarrow> zk_compute_state_update B V log w True;
     (case r of
        Inl _ \<Rightarrow> None
      | Inr (tr, upd, diff, w') \<Rightarrow>
          let (olog', ow') = frozen_offchain ws in Some (a, tr, diff, log, olog', w', ow'))
   }"

subsection \<open>The guest's view of a native working set\<close>

definition sd_zk :: "('p, 'u) borsh \<Rightarrow> state_delta \<Rightarrow> storage_witness \<Rightarrow> state_delta" where
  "sd_zk B d w = d \<lparr> sd_storage := zk_storage_ops B, sd_witness := w \<rparr>"

definition od_zk :: "('p, 'u) borsh \<Rightarrow> offchain_delta \<Rightarrow> storage_witness \<Rightarrow> offchain_delta" where
  "od_zk B d w = d \<lparr> od_storage := zk_storage_ops B, od_witness := w \<rparr>"

definition ad_zk :: "('p, 'u) borsh \<Rightarrow> accessory_delta \<Rightarrow> accessory_delta" where
  "ad_zk B d = d \<lparr> ad_storage := zk_storage_ops B \<rparr>"

definition ws_zk :: "('p, 'u) borsh \<Rightarrow> working_set \<Rightarrow> storage_witness \<Rightarrow> storage_witness \<Rightarrow> working_set" where
  "ws_zk B ws sw ow =
     ws \<lparr> ws_delta := sd_zk B (ws_delta ws) sw, ws_accessory := ad_zk B (ws_accessory ws),
          ws_offchain := od_zk B (ws_offchain ws) ow \<rparr>"

definition over_prover :: "('p, 'u) borsh \<Rightarrow> 's prover_storage \<Rightarrow> working_set \<Rightarrow> bool" where
  "over_prover B s ws \<longleftrightarrow>
     sd_storage (ws_delta ws) = prover_storage_ops B s \<and> od_storage (ws_offchain ws) = prover_storage_ops B s \<and>
     ws_archival ws = None \<and> ws_archival_offchain ws = None \<and> ws_archival_accessory ws = None"

text \<open>A step that reads nothing from the storage: it keeps the witnesses and is the same in the guest.\<close>

definition silent :: "('p, 'u) borsh \<Rightarrow> 's prover_storage \<Rightarrow> (working_set \<Rightarrow> working_set) \<Rightarrow> bool" where
  "silent B s f \<longleftrightarrow> (\<forall>ws. over_prover B s ws \<longrightarrow>
     over_prover B s (f ws) \<and> sd_witness (ws_delta (f ws)) = sd_witness (ws_delta ws) \<and>
     od_witness (ws_offchain (f ws)) = od_witness (ws_offchain ws) \<and>
     (\<forall>sw ow. f (ws_zk B ws sw ow) = ws_zk B (f ws) sw ow))"

lemmas ws_ops_defs = ws_set_def ws_delete_def offchain_set_def offchain_delete_def accessory_set_def
  accessory_delete_def to_revertable_def ws_checkpoint_def ws_revert_def sd_set_def sd_delete_def
  sd_commit_def sd_revert_def od_set_def od_delete_def od_commit_def od_revert_def

lemma silent_ops:
  "silent B s (\<lambda>ws. ws_set ws k v)" "silent B s (\<lambda>ws. ws_delete ws k)"
  "silent B s (\<lambda>ws. offchain_set ws k v)" "silent B s (\<lambda>ws. offchain_delete ws k)"
  "silent B s (\<lambda>ws. accessory_set ws k v)" "silent B s (\<lambda>ws. accessory_delete ws k)"
  "silent B s (\<lambda>ws. to_revertable (ws_checkpoint ws))" "silent B s (\<lambda>ws. to_revertable (ws_revert ws))"
  by (simp_all add: silent_def over_prover_def ws_zk_def ws_ops_defs sd_zk_def od_zk_def ad_zk_def
      ad_set_def ad_delete_def ad_commit_def ad_revert_def)

subsection \<open>Replay\<close>

lemma sd_get_replay:
  assumes "borsh_roundtrip B" "sd_storage d = prover_storage_ops B s" "sd_get d k = Some (v, d')"
  shows "\<exists>hs. sd_witness d' = sd_witness d @ hs \<and> sd_storage d' = sd_storage d \<and>
    (\<forall>rest. sd_get (sd_zk B d (hs @ rest)) k = Some (v, sd_zk B d' rest))"
proof (cases "bm_get (sd_uncommitted d) (to_cache_key_version k (sd_version d)) = None \<and>
    bm_get (sd_cache_log d) (to_cache_key_version k (sd_version d)) = None")
  case True
  then obtain w log where get: "prover_get B s k (sd_witness d) = Some (v, w)"
      and add: "add_read (sd_cache_log d) (to_cache_key_version k (sd_version d)) v = Ok log"
      and d': "d' = d \<lparr> sd_witness := w, sd_cache_log := log,
        sd_reads := sd_reads d @ [(to_cache_key_version k (sd_version d), v)] \<rparr>"
    using assms(2,3)
    by (auto simp: sd_get_def Let_def get_value_def prover_storage_ops_def split: option.splits sum.splits)
  from replays_get [OF assms(1), of s k] get obtain hs where
    "w = sd_witness d @ hs" "\<And>rest. zk_get B k (hs @ rest) = Some (v, rest)"
    unfolding replays_def id_apply by blast
  with True add d' show ?thesis
    by (intro exI [of _ hs])
      (auto simp: sd_get_def sd_zk_def Let_def get_value_def zk_storage_ops_def split: option.splits)
next
  case False
  with assms(3) show ?thesis
    by (intro exI [of _ "[]"]) (auto simp: sd_get_def sd_zk_def Let_def get_value_def split: option.splits)
qed

lemma od_get_replay:
  assumes "borsh_roundtrip B" "od_storage d = prover_storage_ops B s"
    and "od_get_with_cache_info d k = Some (r, d')"
  shows "\<exists>hs. od_witness d' = od_witness d @ hs \<and> od_storage d' = od_storage d \<and>
    (\<forall>rest. od_get_with_cache_info (od_zk B d (hs @ rest)) k = Some (r, od_zk B d' rest))"
proof (cases "bm_get (od_uncommitted d) (to_cache_key_version k (od_version d)) = None \<and>
    bm_get (od_cache_log d) (to_cache_key_version k (od_version d)) = None")
  case True
  then obtain v w log where get: "prover_get_offchain B s k (od_witness d) = Some (v, w)"
      and add: "add_read (od_cache_log d) (to_cache_key_version k (od_version d)) v = Ok log"
      and d': "r = (v, False)" "d' = d \<lparr> od_witness := w, od_cache_log := log \<rparr>"
    using assms(2,3)
    by (auto simp: od_get_with_cache_info_def Let_def get_value_def prover_storage_ops_def
        split: option.splits sum.splits)
  from replays_get_offchain [OF assms(1), of s k] get obtain hs where
    "w = od_witness d @ hs" "\<And>rest. zk_get_offchain B k (hs @ rest) = Some (v, rest)"
    unfolding replays_def id_apply by blast
  with True add d' show ?thesis
    by (intro exI [of _ hs])
      (auto simp: od_get_with_cache_info_def od_zk_def Let_def get_value_def zk_storage_ops_def
        split: option.splits)
next
  case False
  with assms(3) show ?thesis
    by (intro exI [of _ "[]"])
      (auto simp: od_get_with_cache_info_def od_zk_def Let_def get_value_def split: option.splits)
qed

text \<open>
  A computation whose native runs are replayed in the guest, and how such computations compose.
\<close>

definition replayable ::
  "('p, 'u) borsh \<Rightarrow> 's prover_storage \<Rightarrow> (working_set \<Rightarrow> ('a \<times> working_set) option) \<Rightarrow> bool" where
  "replayable B s g \<longleftrightarrow> (\<forall>ws a ws'. over_prover B s ws \<and> g ws = Some (a, ws') \<longrightarrow>
     over_prover B s ws' \<and>
     (\<exists>hs ho. sd_witness (ws_delta ws') = sd_witness (ws_delta ws) @ hs \<and>
       od_witness (ws_offchain ws') = od_witness (ws_offchain ws) @ ho \<and>
       (\<forall>rest rest'. g (ws_zk B ws (hs @ rest) (ho @ rest')) = Some (a, ws_zk B ws' rest rest'))))"

lemma replayableE:
  assumes "replayable B s g" "over_prover B s ws" "g ws = Some (a, ws')"
  obtains hs ho where "over_prover B s ws'" "sd_witness (ws_delta ws') = sd_witness (ws_delta ws) @ hs"
    "od_witness (ws_offchain ws') = od_witness (ws_offchain ws) @ ho"
    "\<And>rest rest'. g (ws_zk B ws (hs @ rest) (ho @ rest')) = Some (a, ws_zk B ws' rest rest')"
  using assms unfolding replayable_def by blast

lemma replayable_return: "replayable B s (\<lambda>ws. Some (a, ws))"
  by (auto simp: replayable_def)

lemma replayable_silent:
  assumes "silent B s f" "replayable B s g"
  shows "replayable B s (\<lambda>ws. g (f ws))"
  unfolding replayable_def
proof (intro allI impI, elim conjE)
  fix ws a ws'
  assume "over_prover B s ws" "g (f ws) = Some (a, ws')"
  with assms(1) assms(2) [unfolded replayable_def, rule_format, of "f ws" a ws']
  show "over_prover B s ws' \<and>
     (\<exists>hs ho. sd_witness (ws_delta ws') = sd_witness (ws_delta ws) @ hs \<and>
       od_witness (ws_offchain ws') = od_witness (ws_offchain ws) @ ho \<and>
       (\<forall>rest rest'. g (f (ws_zk B ws (hs @ rest) (ho @ rest'))) = Some (a, ws_zk B ws' rest rest')))"
    by (simp add: silent_def)
qed

lemmas replayable_silent_ops = silent_ops [THEN replayable_silent]

lemma replayable_bind:
  assumes "replayable B s g" "\<And>x. replayable B s (h x)"
  shows "replayable B s (\<lambda>ws. case g ws of None \<Rightarrow> None | Some (x, ws') \<Rightarrow> h x ws')"
  unfolding replayable_def
proof (intro allI impI, elim conjE)
  fix ws a ws'
  assume ok: "over_prover B s ws" and run: "(case g ws of None \<Rightarrow> None | Some (x, y) \<Rightarrow> h x y) = Some (a, ws')"
  then obtain x ws1 where g: "g ws = Some (x, ws1)" and h: "h x ws1 = Some (a, ws')"
    by (auto simp: panic_simps)
  obtain hs ho where 1: "over_prover B s ws1" "sd_witness (ws_delta ws1) = sd_witness (ws_delta ws) @ hs"
    "od_witness (ws_offchain ws1) = od_witness (ws_offchain ws) @ ho"
    "\<And>rest rest'. g (ws_zk B ws (hs @ rest) (ho @ rest')) = Some (x, ws_zk B ws1 rest rest')"
    using replayableE [OF assms(1) ok g] by metis
  obtain hs2 ho2 where "over_prover B s ws'" "sd_witness (ws_delta ws') = sd_witness (ws_delta ws1) @ hs2"
    "od_witness (ws_offchain ws') = od_witness (ws_offchain ws1) @ ho2"
    "\<And>rest rest'. h x (ws_zk B ws1 (hs2 @ rest) (ho2 @ rest')) = Some (a, ws_zk B ws' rest rest')"
    using replayableE [OF assms(2) 1(1) h] by metis
  with 1 show "over_prover B s ws' \<and>
     (\<exists>hs ho. sd_witness (ws_delta ws') = sd_witness (ws_delta ws) @ hs \<and>
       od_witness (ws_offchain ws') = od_witness (ws_offchain ws) @ ho \<and>
       (\<forall>rest rest'. (case g (ws_zk B ws (hs @ rest) (ho @ rest')) of None \<Rightarrow> None | Some (x, y) \<Rightarrow> h x y) =
         Some (a, ws_zk B ws' rest rest')))"
    by (intro conjI exI [of _ "hs @ hs2"] exI [of _ "ho @ ho2"]) auto
qed

lemma replayable_ws_get:
  assumes "borsh_roundtrip B"
  shows "replayable B s (\<lambda>ws. ws_get ws k)"
  unfolding replayable_def
proof (intro allI impI, elim conjE)
  fix ws v ws'
  assume ok: "over_prover B s ws" and get: "ws_get ws k = Some (v, ws')"
  then obtain d where d: "sd_get (ws_delta ws) k = Some (v, d)" "ws' = ws \<lparr> ws_delta := d \<rparr>"
    by (auto simp: ws_get_def over_prover_def bind_is_Some)
  with ok sd_get_replay [OF assms, of "ws_delta ws" s k v d]
  obtain hs where "sd_witness d = sd_witness (ws_delta ws) @ hs" "sd_storage d = sd_storage (ws_delta ws)"
    "\<And>rest. sd_get (sd_zk B (ws_delta ws) (hs @ rest)) k = Some (v, sd_zk B d rest)"
    by (auto simp: over_prover_def)
  with ok d show "over_prover B s ws' \<and>
     (\<exists>hs ho. sd_witness (ws_delta ws') = sd_witness (ws_delta ws) @ hs \<and>
       od_witness (ws_offchain ws') = od_witness (ws_offchain ws) @ ho \<and>
       (\<forall>rest rest'. ws_get (ws_zk B ws (hs @ rest) (ho @ rest')) k = Some (v, ws_zk B ws' rest rest')))"
    by (intro conjI exI [of _ hs] exI [of _ "[]"]) (auto simp: over_prover_def ws_get_def ws_zk_def)
qed

lemma replayable_offchain_get:
  assumes "borsh_roundtrip B"
  shows "replayable B s (\<lambda>ws. offchain_get_with_cache_info ws k)"
  unfolding replayable_def
proof (intro allI impI, elim conjE)
  fix ws r ws'
  assume ok: "over_prover B s ws" and get: "offchain_get_with_cache_info ws k = Some (r, ws')"
  then obtain d where d: "od_get_with_cache_info (ws_offchain ws) k = Some (r, d)"
      "ws' = ws \<lparr> ws_offchain := d \<rparr>"
    by (auto simp: offchain_get_with_cache_info_def over_prover_def bind_is_Some)
  with ok od_get_replay [OF assms, of "ws_offchain ws" s k r d]
  obtain ho where "od_witness d = od_witness (ws_offchain ws) @ ho" "od_storage d = od_storage (ws_offchain ws)"
    "\<And>rest. od_get_with_cache_info (od_zk B (ws_offchain ws) (ho @ rest)) k = Some (r, od_zk B d rest)"
    by (auto simp: over_prover_def)
  with ok d show "over_prover B s ws' \<and>
     (\<exists>hs ho. sd_witness (ws_delta ws') = sd_witness (ws_delta ws) @ hs \<and>
       od_witness (ws_offchain ws') = od_witness (ws_offchain ws) @ ho \<and>
       (\<forall>rest rest'. offchain_get_with_cache_info (ws_zk B ws (hs @ rest) (ho @ rest')) k =
         Some (r, ws_zk B ws' rest rest')))"
    by (intro conjI exI [of _ "[]"] exI [of _ ho])
      (auto simp: over_prover_def offchain_get_with_cache_info_def ws_zk_def)
qed

lemma replayable_prog: "borsh_roundtrip B \<Longrightarrow> replayable B s (run_prog p)"
proof (induction p)
  case (GetState k f)
  then show ?case
    using replayable_bind [OF replayable_ws_get [OF GetState.prems, of s k], of "\<lambda>v. run_prog (f v)"]
    by (simp add: run_prog.simps [abs_def])
next
  case (GetOffchain k f)
  then show ?case
    using replayable_bind [OF replayable_offchain_get [OF GetOffchain.prems, of s k], of "\<lambda>v. run_prog (f v)"]
    by (simp add: run_prog.simps [abs_def])
qed (simp_all add: run_prog.simps [abs_def] replayable_return replayable_silent_ops)

lemma ws_zk_initial:
  "ws_zk B (ws_with_witness_and_log (prover_storage_ops B s) [] [] slog olog) sw ow =
   ws_with_witness_and_log (zk_storage_ops B) sw ow slog olog"
  by (simp add: ws_zk_def ws_with_witness_and_log_def cp_with_witness_and_log_def to_revertable_def
      sd_with_witness_and_log_def od_with_witness_and_log_def ad_new_def sd_zk_def od_zk_def ad_zk_def)

lemma frozen_zk: "fst (frozen (ws_zk B ws sw ow)) = fst (frozen ws)" "snd (frozen (ws_zk B ws sw ow)) = sw"
  by (simp_all add: frozen_def cp_freeze_def ws_checkpoint_def ws_zk_def sd_zk_def sd_freeze_def sd_commit_def)

lemma frozen_offchain_zk:
  "fst (frozen_offchain (ws_zk B ws sw ow)) = fst (frozen_offchain ws)"
  "snd (frozen_offchain (ws_zk B ws sw ow)) = ow"
  by (simp_all add: frozen_offchain_def cp_freeze_offchain_def ws_checkpoint_def ws_zk_def od_zk_def
      od_freeze_def od_commit_def)

lemma snd_frozen: "snd (frozen ws) = sd_witness (ws_delta ws)"
  "snd (frozen_offchain ws) = od_witness (ws_offchain ws)"
  by (simp_all add: frozen_def cp_freeze_def ws_checkpoint_def sd_freeze_def sd_commit_def
      frozen_offchain_def cp_freeze_offchain_def od_freeze_def od_commit_def)

lemma block_replay:
  assumes "borsh_roundtrip B" "jmt_complete V T"
    and "native_block B V T s slog olog p = Some (a, tr, diff, log, olog', sw, ow)"
  shows "zk_block B V slog olog (sw @ rest) (ow @ rest') p = Some (a, tr, diff, log, olog', rest, rest')"
proof -
  let ?ws = "ws_with_witness_and_log (prover_storage_ops B s) [] [] slog olog"
  from assms(3) obtain ws upd where
    run: "run_prog p ?ws = Some (a, ws)" and
    upd: "prover_compute_state_update B V T s (fst (frozen ws)) (snd (frozen ws)) True = Some (Ok (tr, upd, diff, sw))" and
    out: "log = fst (frozen ws)" "olog' = fst (frozen_offchain ws)" "ow = snd (frozen_offchain ws)"
    by (auto simp: native_block_def panic_simps Let_def case_prod_beta split: prod.splits)
  have "over_prover B s ?ws" "sd_witness (ws_delta ?ws) = []" "od_witness (ws_offchain ?ws) = []"
    by (simp_all add: over_prover_def ws_with_witness_and_log_def cp_with_witness_and_log_def
        to_revertable_def sd_with_witness_and_log_def od_with_witness_and_log_def)
  with run replayableE [OF replayable_prog [OF assms(1), of s p]] obtain hs where
    hs: "sd_witness (ws_delta ws) = hs" "od_witness (ws_offchain ws) = ow"
      "\<And>rest rest'. run_prog p (ws_zk B ?ws (hs @ rest) (ow @ rest')) = Some (a, ws_zk B ws rest rest')"
    using out(3) snd_frozen(2) by (metis append_Nil)
  from compute_state_update_replay [OF assms(1,2) upd] obtain hu where
    hu: "sw = hs @ hu"
      "\<And>rest. zk_compute_state_update B V (fst (frozen ws)) (hu @ rest) True = Some (Ok (tr, (), diff, rest))"
    using hs(1) snd_frozen(1) by metis
  have "run_prog p (ws_with_witness_and_log (zk_storage_ops B) (sw @ rest) (ow @ rest') slog olog) =
      Some (a, ws_zk B ws (hu @ rest) rest')"
    using hs(3) [of "hu @ rest" rest'] by (simp add: ws_zk_initial hu(1))
  with hu(2) out show ?thesis
    by (simp add: zk_block_def Let_def case_prod_beta frozen_zk frozen_offchain_zk)
qed

subsection \<open>Soundness\<close>

definition plain :: "working_set \<Rightarrow> bool" where
  "plain ws \<longleftrightarrow> ws_archival ws = None \<and> ws_archival_offchain ws = None \<and> ws_archival_accessory ws = None \<and>
     sd_version (ws_delta ws) = None"

text \<open>
  The relation between a working set and the abstract states \<open>cur\<close> and \<open>chk\<close> over a base state.
\<close>

definition abstracts :: "base_state \<Rightarrow> working_set \<Rightarrow> base_state \<Rightarrow> base_state \<Rightarrow> bool" where
  "abstracts base ws cur chk \<longleftrightarrow> plain ws \<and> sd_inv (ws_delta ws) \<and>
     log_consistent base (sd_cache_log (ws_delta ws)) \<and>
     cur = sd_view base (ws_delta ws) \<and> chk = log_view base (sd_cache_log (ws_delta ws))"

lemma abstracts_writes:
  assumes "abstracts base ws cur chk"
  shows "abstracts base (ws_set ws k v) (cur(k := Some v)) chk" "abstracts base (ws_delete ws k) (cur(k := None)) chk"
    "abstracts base (offchain_set ws k v) cur chk" "abstracts base (offchain_delete ws k) cur chk"
    "abstracts base (accessory_set ws k v) cur chk" "abstracts base (accessory_delete ws k) cur chk"
    "abstracts base (to_revertable (ws_checkpoint ws)) cur cur" "abstracts base (to_revertable (ws_revert ws)) chk chk"
  using assms sd_commit_spec [of "ws_delta ws" base]
  by (auto simp: abstracts_def plain_def ws_set_def ws_delete_def offchain_set_def offchain_delete_def
      accessory_set_def accessory_delete_def to_revertable_def ws_checkpoint_def ws_revert_def
      to_cache_key_version_def)
    (auto simp: sd_set_def sd_delete_def sd_commit_def sd_revert_def)

lemma abstracts_get:
  assumes "abstracts base ws cur chk" "ws_get ws k = Some (v, ws')"
    and "\<forall>(k, v) \<in> set (sd_reads (ws_delta ws')). base k = v"
  shows "v = cur k \<and> abstracts base ws' cur chk"
proof -
  from assms(1,2) obtain d where d: "sd_get (ws_delta ws) k = Some (v, d)" "ws' = ws \<lparr> ws_delta := d \<rparr>"
    by (auto simp: ws_get_def abstracts_def plain_def bind_is_Some)
  with assms sd_get_spec [of "ws_delta ws" base k v d] sd_get_frame [OF d(1)] show ?thesis
    by (auto simp: abstracts_def plain_def to_cache_key_version_def)
qed

lemma abstracts_offchain_get:
  "abstracts base ws cur chk \<Longrightarrow> offchain_get_with_cache_info ws k = Some (r, ws') \<Longrightarrow>
   abstracts base ws' cur chk \<and> ws_delta ws' = ws_delta ws"
  by (auto simp: offchain_get_with_cache_info_def abstracts_def plain_def bind_is_Some)

text \<open>The reads a working set has recorded only grow.\<close>

definition reads_grow :: "working_set \<Rightarrow> working_set \<Rightarrow> bool" where
  "reads_grow ws ws' \<longleftrightarrow> plain ws' \<and> (\<exists>rs. sd_reads (ws_delta ws') = sd_reads (ws_delta ws) @ rs)"

lemma reads_grow_trans: "reads_grow ws ws1 \<Longrightarrow> reads_grow ws1 ws2 \<Longrightarrow> reads_grow ws ws2"
  by (auto simp: reads_grow_def)

lemma reads_grow_writes:
  assumes "plain ws"
  shows "reads_grow ws (ws_set ws k v)" "reads_grow ws (ws_delete ws k)"
    "reads_grow ws (offchain_set ws k v)" "reads_grow ws (offchain_delete ws k)"
    "reads_grow ws (accessory_set ws k v)" "reads_grow ws (accessory_delete ws k)"
    "reads_grow ws (to_revertable (ws_checkpoint ws))" "reads_grow ws (to_revertable (ws_revert ws))"
  using assms by (simp_all add: reads_grow_def plain_def ws_ops_defs)

lemma reads_grow_gets:
  "plain ws \<Longrightarrow> ws_get ws k = Some (v, ws') \<Longrightarrow> reads_grow ws ws'"
  "plain ws \<Longrightarrow> offchain_get_with_cache_info ws k = Some (r, ws') \<Longrightarrow> reads_grow ws ws'"
  by (auto simp: reads_grow_def plain_def ws_get_def offchain_get_with_cache_info_def bind_is_Some
      dest: sd_get_frame)

lemma reads_grow_plain: "reads_grow ws ws' \<Longrightarrow> plain ws'"
  by (simp add: reads_grow_def)

lemma run_prog_reads: "plain ws \<Longrightarrow> run_prog p ws = Some (a, ws') \<Longrightarrow> reads_grow ws ws'"
proof (induction p arbitrary: ws)
  case (GetState k f)
  then obtain v ws1 where get: "ws_get ws k = Some (v, ws1)" and run: "run_prog (f v) ws1 = Some (a, ws')"
    by (auto simp: panic_simps)
  from reads_grow_gets(1) [OF GetState.prems(1) get] have 1: "reads_grow ws ws1" .
  from GetState.IH [OF rangeI reads_grow_plain [OF 1] run] 1 show ?case
    by (blast intro: reads_grow_trans)
next
  case (GetOffchain k f)
  then obtain r ws1 where get: "offchain_get_with_cache_info ws k = Some (r, ws1)"
      and run: "run_prog (f r) ws1 = Some (a, ws')"
    by (auto simp: panic_simps)
  from reads_grow_gets(2) [OF GetOffchain.prems(1) get] have 1: "reads_grow ws ws1" .
  from GetOffchain.IH [OF rangeI reads_grow_plain [OF 1] run] 1 show ?case
    by (blast intro: reads_grow_trans)
next
  case (Return x)
  then show ?case by (auto simp: reads_grow_def)
qed (simp, meson reads_grow_trans reads_grow_writes reads_grow_plain)+

lemma run_prog_spec:
  assumes "\<forall>(k, v) \<in> set (sd_reads (ws_delta ws')). base k = v"
  shows "abstracts base ws cur chk \<Longrightarrow> run_prog p ws = Some (a, ws') \<Longrightarrow>
    \<exists>os cur' chk'. spec_prog p os cur chk = Some (a, cur', chk') \<and> abstracts base ws' cur' chk'"
proof (induction p arbitrary: ws cur chk)
  case (Return x)
  then show ?case by (intro exI [of _ "[]"]) auto
next
  case (GetState k f)
  then obtain v ws1 where get: "ws_get ws k = Some (v, ws1)" and run: "run_prog (f v) ws1 = Some (a, ws')"
    by (auto simp: panic_simps)
  have "plain ws" using GetState.prems(1) by (simp add: abstracts_def)
  then have "reads_grow ws1 ws'"
    using run_prog_reads [OF _ run] reads_grow_gets(1) [OF _ get] reads_grow_plain by blast
  then obtain rs where "sd_reads (ws_delta ws') = sd_reads (ws_delta ws1) @ rs"
    by (auto simp: reads_grow_def)
  with assms have "\<forall>(k, v) \<in> set (sd_reads (ws_delta ws1)). base k = v"
    by (simp add: ball_Un)
  with abstracts_get [OF GetState.prems(1) get] have "v = cur k" "abstracts base ws1 cur chk"
    by auto
  with GetState.IH [OF rangeI this(2) run] show ?case by simp
next
  case (GetOffchain k f)
  then obtain r ws1 where get: "offchain_get_with_cache_info ws k = Some (r, ws1)"
      and run: "run_prog (f r) ws1 = Some (a, ws')"
    by (auto simp: panic_simps)
  have "abstracts base ws1 cur chk"
    using abstracts_offchain_get [OF GetOffchain.prems(1) get] by simp
  from GetOffchain.IH [OF rangeI this run] obtain os cur' chk' where
    "spec_prog (f r) os cur chk = Some (a, cur', chk')" "abstracts base ws' cur' chk'"
    by blast
  then show ?case by (intro exI [of _ "r # os"]) auto
qed (simp, blast dest: abstracts_writes)+

lemma view_of_reads:
  "log_consistent base (mark_all_as_read log) \<Longrightarrow> log_view base (mark_all_as_read log) = base"
  using log_consistentD [of base "mark_all_as_read log"]
  by (fastforce simp: log_view_def bm_get_mark fun_eq_iff split: option.splits)

lemma abstracts_initial:
  assumes "bm_inv (rw_cache_log slog)" "log_consistent base (into_cache_log slog)"
  shows "abstracts base (ws_with_witness_and_log st sw ow slog olog) base base"
  using assms
  by (simp add: abstracts_def plain_def ws_with_witness_and_log_def cp_with_witness_and_log_def to_revertable_def
      sd_with_witness_and_log_def sd_inv_def sd_view_def into_cache_log_def view_of_reads)

lemma frozen_log:
  assumes "abstracts base ws cur chk"
  shows "ordered_reads (fst (frozen ws)) = sd_reads (ws_delta ws)" "bm_inv (rw_cache_log (fst (frozen ws)))"
    "log_consistent cur (into_cache_log (fst (frozen ws)))"
    "apply_writes base (iter_ordered_writes (fst (frozen ws))) = cur"
proof -
  let ?d = "ws_delta ws"
  have log: "rw_cache_log (fst (frozen ws)) = sd_cache_log (sd_commit ?d)"
    by (simp add: frozen_def cp_freeze_def ws_checkpoint_def sd_freeze_def)
  have commit: "sd_inv (sd_commit ?d)" "log_consistent base (sd_cache_log (sd_commit ?d))"
      "log_view base (sd_cache_log (sd_commit ?d)) = cur"
    using assms sd_commit_spec [of ?d base] by (auto simp: abstracts_def)
  show "ordered_reads (fst (frozen ws)) = sd_reads ?d"
    by (simp add: frozen_def cp_freeze_def ws_checkpoint_def sd_freeze_def sd_commit_def)
  show "bm_inv (rw_cache_log (fst (frozen ws)))"
    using commit(1) log by (simp add: sd_inv_def)
  show "log_consistent cur (into_cache_log (fst (frozen ws)))"
    using mark_all_as_read_consistent [of base "sd_cache_log (sd_commit ?d)"] commit(3) log
    by (simp add: into_cache_log_def)
  show "apply_writes base (iter_ordered_writes (fst (frozen ws))) = cur"
    using apply_iter_writes [of "sd_cache_log (sd_commit ?d)" base] commit log
    by (simp add: iter_ordered_writes_def sd_inv_def)
qed

text \<open>The state a tree holds, read through the hashes of the keys.\<close>

definition state_of ::
  "('p, 'u) jmt_verifier \<Rightarrow> ('t \<Rightarrow> hash32 \<Rightarrow> storage_value option) \<Rightarrow> 't \<Rightarrow> base_state" where
  "state_of V tree_get t = (\<lambda>k. tree_get t (key_hash V k))"

text \<open>The keys a log mentions: those the block read or wrote, and those it was handed.\<close>

definition log_keys :: "read_write_log \<Rightarrow> cache_key set" where
  "log_keys log = fst ` set (rw_cache_log log)"

lemma keys_iter_writes: "fst ` set (iter_ordered_writes log) \<subseteq> log_keys log"
proof
  fix k assume "k \<in> fst ` set (iter_ordered_writes log)"
  then obtain e v where "e \<in> set (rw_cache_log log)" "write_of e = Some (k, v)"
    by (auto simp: iter_ordered_writes_def iter_writes_def in_map_filter)
  moreover from this(2) have "fst e = k"
    by (auto simp: write_of_def split: prod.splits access.splits)
  ultimately show "k \<in> log_keys log"
    unfolding log_keys_def by blast
qed

lemma consistent_reads_cong:
  assumes "log_consistent base (into_cache_log log)" "\<And>k. k \<in> log_keys log \<Longrightarrow> base' k = base k"
  shows "log_consistent base' (into_cache_log log)"
proof (rule log_consistentI)
  fix k a v assume get: "bm_get (into_cache_log log) k = Some a" and read: "first_read a = Some v"
  then have "k \<in> log_keys log"
    using map_of_SomeD [of "into_cache_log log" k a]
    by (force simp: into_cache_log_def bm_get_def log_keys_def mark_all_as_read_alt)
  with assms log_consistentD [OF assms(1) get read] show "base' k = v" by simp
qed

lemma block_sound:
  assumes "jmt_sound V root_of tree_get"
    and "zk_block B V slog olog sw ow p = Some (a, tr, diff, log, olog', sw', ow')"
    and "init_root tr = root_of t"
    and "bm_inv (rw_cache_log slog)" "log_consistent (state_of V tree_get t) (into_cache_log slog)"
    and "inj_on (key_hash V) (log_keys log)"
  shows "\<exists>t' os cur chk. spec_prog p os (state_of V tree_get t) (state_of V tree_get t) = Some (a, cur, chk) \<and>
    final_root tr = root_of t' \<and> apply_writes (state_of V tree_get t) diff = cur \<and>
    (\<forall>k. inj_on (key_hash V) (insert k (log_keys log)) \<longrightarrow> state_of V tree_get t' k = cur k) \<and>
    bm_inv (rw_cache_log log) \<and> log_consistent (state_of V tree_get t') (into_cache_log log)"
proof -
  let ?base = "state_of V tree_get t"
  from assms(2) obtain ws w where
    run: "run_prog p (ws_with_witness_and_log (zk_storage_ops B) sw ow slog olog) = Some (a, ws)" and
    upd: "zk_compute_state_update B V (fst (frozen ws)) w True = Some (Ok (tr, (), diff, sw'))" and
    log: "log = fst (frozen ws)"
    by (auto simp: zk_block_def panic_simps Let_def case_prod_beta split: prod.splits)
  from zk_compute_state_update_sound [OF assms(1) upd assms(3)] obtain t' where
    reads: "\<forall>(k, v) \<in> set (ordered_reads log). ?base k = v" and
    t': "final_root tr = root_of t'" "tree_get t' = apply_batch (write_batch V log) (tree_get t)" and
    diff: "diff = iter_ordered_writes log"
    by (auto simp: state_of_def diff_of_def log)
  have "ordered_reads log = sd_reads (ws_delta ws)"
    by (simp add: log frozen_def cp_freeze_def ws_checkpoint_def sd_freeze_def sd_commit_def)
  with reads run_prog_spec [OF _ abstracts_initial [OF assms(4,5)] run] obtain os cur chk where
    spec: "spec_prog p os ?base ?base = Some (a, cur, chk)" and abs: "abstracts ?base ws cur chk"
    by auto
  have cur: "apply_writes ?base (iter_ordered_writes log) = cur"
    using frozen_log(4) [OF abs] log by simp
  have keys: "state_of V tree_get t' k = cur k" if "inj_on (key_hash V) (insert k (log_keys log))" for k
  proof -
    have "w = k" if "w \<in> fst ` set (iter_ordered_writes log)" "key_hash V w = key_hash V k" for w
      using inj_onD [OF \<open>inj_on (key_hash V) (insert k (log_keys log))\<close> that(2)]
        subsetD [OF keys_iter_writes that(1)] by blast
    then have "tree_get t' (key_hash V k) = apply_writes ?base (iter_ordered_writes log) k"
      unfolding t'(2) write_batch_def state_of_def by (intro apply_batch_keys) blast
    then show ?thesis
      using cur by (simp add: state_of_def)
  qed
  have "log_consistent (state_of V tree_get t') (into_cache_log log)"
  proof (rule consistent_reads_cong [of cur])
    show "log_consistent cur (into_cache_log log)"
      using frozen_log(3) [OF abs] log by simp
    show "state_of V tree_get t' k = cur k" if "k \<in> log_keys log" for k
      using keys [of k] assms(6) that by (simp add: insert_absorb)
  qed
  moreover have "bm_inv (rw_cache_log log)"
    using frozen_log(2) [OF abs] log by simp
  ultimately show ?thesis
    unfolding diff using spec t'(1) cur keys
    by (intro exI [of _ t'] exI [of _ os] exI [of _ cur] exI [of _ chk]) simp
qed

subsection \<open>An instance\<close>

text \<open>
  A tree with one slot and a codec that writes a tag byte: they satisfy what is asked of the
  third-party code, so that the properties below speak of something.
\<close>

fun tag_value :: "bytes option \<Rightarrow> bytes" where
  "tag_value None = [0]"
| "tag_value (Some v) = 1 # v"

fun untag_value :: "bytes \<Rightarrow> bytes option option" where
  "untag_value [] = None"
| "untag_value (b # v) = Some (if b = 0 then None else Some v)"

definition tag_borsh :: "(unit, unit) borsh" where
  "tag_borsh = \<lparr> enc_value = tag_value, dec_value = untag_value, enc_root = id, dec_root = Some,
     enc_proof = \<lambda>_. [], dec_proof = \<lambda>_. Some (), enc_update_proof = \<lambda>_. [], dec_update_proof = \<lambda>_. Some () \<rparr>"

definition slot_get :: "bytes option \<Rightarrow> hash32 \<Rightarrow> bytes option" where
  "slot_get t k = (if k = [7] then t else None)"

definition slot_put :: "key_batch \<Rightarrow> bytes option \<Rightarrow> bytes option option" where
  "slot_put batch t = (if list_all (\<lambda>(k, _). k = [7]) batch then Some (fold (\<lambda>(_, v) _. v) batch t) else None)"

definition slot_verifier :: "(unit, unit) jmt_verifier" where
  "slot_verifier = \<lparr> key_hash = id,
     proof_verify = \<lambda>p r k v. (case untag_value r of None \<Rightarrow> False | Some t \<Rightarrow> slot_get t k = v),
     verify_update = \<lambda>u r r' batch. (case untag_value r of
        None \<Rightarrow> False
      | Some t \<Rightarrow> (case slot_put batch t of None \<Rightarrow> False | Some t' \<Rightarrow> r' = tag_value t')) \<rparr>"

definition slot_tree :: "(bytes option, unit, unit, unit) jmt_tree" where
  "slot_tree = \<lparr> get_root_hash_option = \<lambda>t _. Ok (Some (tag_value t)), put_empty = \<lambda>t _. Some t,
     get_root_hash = \<lambda>t _. Some (tag_value t), get_with_proof = \<lambda>t k _. Ok (slot_get t k, ()),
     put_value_set_with_proof = \<lambda>t batch _. map_option (\<lambda>t'. (tag_value t', (), ())) (slot_put batch t) \<rparr>"

definition slot_storage :: "bytes option \<Rightarrow> bytes option prover_storage" where
  "slot_storage t = \<lparr> ps_read_state = \<lambda>_ k. Some (slot_get t k), ps_read_native = \<lambda>_ _. Some None,
     ps_tree = t, ps_init_version = 1, ps_version = 1, ps_committable = True \<rparr>"

text \<open>Reads the slot and writes one byte more; writes and rolls back something else before.\<close>

definition slot_prog :: "nat state_prog" where
  "slot_prog = SetState [7] [99] (Rollback (GetState [7] (\<lambda>v.
     SetState [7] (case v of None \<Rightarrow> [1] | Some b \<Rightarrow> 1 # b) (Return (case v of None \<Rightarrow> 0 | Some b \<Rightarrow> length b)))))"

lemma untag_tag [simp]: "untag_value (tag_value t) = Some t"
  by (cases t) auto

lemma tag_borsh_roundtrip: "borsh_roundtrip tag_borsh"
  by (simp add: borsh_roundtrip_def tag_borsh_def)

lemma slot_get_upd [simp]: "(slot_get t)([7] := v) = slot_get v"
  by (auto simp: slot_get_def fun_eq_iff)

lemma slot_put_get: "slot_put batch t = Some t' \<Longrightarrow> slot_get t' = apply_batch batch (slot_get t)"
proof (induction batch arbitrary: t)
  case (Cons e batch)
  then obtain v where e: "e = ([7], v)" "slot_put batch v = Some t'"
    by (cases e) (auto simp: slot_put_def split: if_splits)
  with Cons.IH [OF e(2)] show ?case
    by (simp add: apply_batch_def)
qed (simp add: slot_put_def apply_batch_def)

lemma slot_complete: "jmt_complete slot_verifier slot_tree"
  by (auto simp: jmt_complete_def slot_verifier_def slot_tree_def)

lemma slot_sound: "jmt_sound slot_verifier tag_value slot_get"
  by (auto simp: jmt_sound_def slot_verifier_def dest: slot_put_get split: option.splits)

lemma slot_no_collision: "inj_on (key_hash slot_verifier) A"
  by (simp add: slot_verifier_def)

lemmas slot_defs = slot_prog_def slot_storage_def slot_tree_def slot_verifier_def slot_put_def slot_get_def
  tag_borsh_def empty_read_write_log_def

lemmas block_defs = native_block_def zk_block_def ws_with_witness_and_log_def cp_with_witness_and_log_def
  to_revertable_def sd_with_witness_and_log_def od_with_witness_and_log_def into_cache_log_def
  mark_all_as_read_def ws_get_def sd_get_def ws_set_def sd_set_def ws_revert_def sd_revert_def ad_revert_def
  od_revert_def ad_new_def frozen_def frozen_offchain_def cp_freeze_def cp_freeze_offchain_def ws_checkpoint_def
  sd_commit_def ad_commit_def od_commit_def sd_freeze_def od_freeze_def add_read_def add_write_def get_value_def
  bm_get_def prover_storage_ops_def prover_get_def read_value_def prover_compute_state_update_def
  zk_storage_ops_def zk_get_def zk_compute_state_update_def write_batch_def diff_of_def iter_ordered_writes_def
  iter_writes_def write_of_def List.map_filter_def add_hint_def get_hint_def to_cache_key_version_def Let_def

lemma slot_native_block:
  "\<exists>log olog. native_block tag_borsh slot_verifier slot_tree (slot_storage (Some [5])) empty_read_write_log
     empty_read_write_log slot_prog =
   Some (1, \<lparr> init_root = [1, 5], final_root = [1, 1, 5] \<rparr>, [([7], Some [1, 5])], log, olog,
     [[1, 5], [1, 5], [], [], [1, 1, 5]], [])"
  by (simp add: slot_defs block_defs)

end
