(* ===== verification/Forks.thy ===== *)
theory Forks
  imports Binary_Search
begin

section \<open>Forks: specification ids, activation heights and the fork manager\<close>

text \<open>
  Models \<^verbatim>\<open>sovereign-sdk/rollup-interface/src/{spec,network}.rs\<close>, \<^verbatim>\<open>.../fork/{mod,manager,migration}.rs\<close>,
  \<^verbatim>\<open>primitives/src/{forks,zk_dev_mode,constants}.rs\<close> and the activation height helper of
  \<^verbatim>\<open>common/src/utils.rs\<close>, as built without the \<^verbatim>\<open>testing\<close> feature. A migration handler is a function
  from the activated fork to a result. The global \<^verbatim>\<open>FORKS\<close> cell is an explicit state.
\<close>

datatype spec_id = Genesis | Kumquat | Tangerine | Fork3

fun spec_id_u8 :: "spec_id \<Rightarrow> u8" where
  "spec_id_u8 Genesis = 0"
| "spec_id_u8 Kumquat = 1"
| "spec_id_u8 Tangerine = 2"
| "spec_id_u8 Fork3 = 3"

lemma spec_id_u8_inj: "spec_id_u8 a = spec_id_u8 b \<longleftrightarrow> a = b"
  by (cases a; cases b; simp)

text \<open>The derived \<^verbatim>\<open>PartialOrd\<close> compares discriminants.\<close>

instantiation spec_id :: linorder
begin

definition less_eq_spec_id :: "spec_id \<Rightarrow> spec_id \<Rightarrow> bool" where
  "less_eq_spec_id a b \<longleftrightarrow> spec_id_u8 a \<le> spec_id_u8 b"

definition less_spec_id :: "spec_id \<Rightarrow> spec_id \<Rightarrow> bool" where
  "less_spec_id a b \<longleftrightarrow> spec_id_u8 a < spec_id_u8 b"

instance
  by standard (auto simp: less_eq_spec_id_def less_spec_id_def spec_id_u8_inj dest: order_antisym)

end

definition latest :: spec_id where
  "latest = Fork3"

datatype network = Mainnet | Testnet | Devnet | Nightly | TestNetworkWithForks

definition const_from_str :: "string \<Rightarrow> network option" where
  "const_from_str s =
     (if s = ''mainnet'' then Some Mainnet
      else if s = ''testnet'' then Some Testnet
      else if s = ''devnet'' then Some Devnet
      else if s = ''nightly'' then Some Nightly
      else if s = ''testnetworkwithforks'' then Some TestNetworkWithForks
      else None)"

definition network_to_dev_mode :: "network \<Rightarrow> bool" where
  "network_to_dev_mode n = (n \<noteq> Mainnet)"

definition min_base_fee_per_gas :: "spec_id \<Rightarrow> u64" where
  "min_base_fee_per_gas s = (if s \<ge> Fork3 then 1000000 else 10000000)"

record fork =
  fork_spec_id :: spec_id
  activation_height :: u64

definition Fork_new :: "spec_id \<Rightarrow> u64 \<Rightarrow> fork" where
  "Fork_new s h = \<lparr> fork_spec_id = s, activation_height = h \<rparr>"

definition Fork_default :: fork where
  "Fork_default = \<lparr> fork_spec_id = Tangerine, activation_height = 0 \<rparr>"

text \<open>The loop of \<^verbatim>\<open>verify_forks\<close> from index \<open>i\<close> on.\<close>

function verify_forks_from :: "fork list \<Rightarrow> nat \<Rightarrow> bool" where
  "verify_forks_from forks i =
     (if i < length forks then
        let f = forks ! i in
        if i = 0 then
          (if activation_height f \<noteq> 0 then False else verify_forks_from forks (i + 1))
        else
          (if sat_sub (spec_id_u8 (fork_spec_id f)) (spec_id_u8 (fork_spec_id (forks ! (i - 1)))) \<noteq> 1
              \<or> activation_height f \<le> activation_height (forks ! (i - 1))
           then False else verify_forks_from forks (i + 1))
      else True)"
  by pat_completeness auto
termination
  by (relation "measure (\<lambda>(forks, i). length forks - i)") auto

declare verify_forks_from.simps [simp del]

definition verify_forks :: "fork list \<Rightarrow> bool" where
  "verify_forks forks = verify_forks_from forks 0"

definition fork_pos_from_block_number :: "fork list \<Rightarrow> u64 \<Rightarrow> nat" where
  "fork_pos_from_block_number forks n =
     (case binary_search (map activation_height forks) n of
        Inr idx \<Rightarrow> idx
      | Inl idx \<Rightarrow> idx - 1)"

subsection \<open>The fork manager\<close>

type_synonym 'e fork_migration = "fork \<Rightarrow> 'e + unit"

record 'e fork_manager =
  fm_forks :: "fork list"
  active_fork_idx :: nat
  migration_handlers :: "'e fork_migration list"

definition noop_migration :: "'e fork_migration" where
  "noop_migration f = Ok ()"

definition ForkManager_new :: "fork list \<Rightarrow> u64 \<Rightarrow> 'e fork_manager" where
  "ForkManager_new forks current_l2_height =
     \<lparr> fm_forks = forks,
       active_fork_idx = fork_pos_from_block_number forks current_l2_height,
       migration_handlers = [] \<rparr>"

definition register_handler :: "'e fork_manager \<Rightarrow> 'e fork_migration \<Rightarrow> 'e fork_manager" where
  "register_handler m h = m \<lparr> migration_handlers := migration_handlers m @ [h] \<rparr>"

definition active_fork :: "'e fork_manager \<Rightarrow> fork option" where
  "active_fork m = index (fm_forks m) (active_fork_idx m)"

definition next_fork :: "'e fork_manager \<Rightarrow> fork option" where
  "next_fork m = index (fm_forks m) (active_fork_idx m + 1)"

fun run_handlers :: "'e fork_migration list \<Rightarrow> fork \<Rightarrow> 'e + unit" where
  "run_handlers [] f = Ok ()"
| "run_handlers (h # hs) f = (case h f of Inl e \<Rightarrow> Err e | Inr _ \<Rightarrow> run_handlers hs f)"

text \<open>
  The first guard of the code compares with \<^verbatim>\<open>forks.len() - 1\<close>; on an empty slice that wraps to
  the largest \<^verbatim>\<open>usize\<close>, the guard fails and the index that follows panics. Comparing the
  successor with the length says the same for every length.
\<close>

definition register_block :: "'e fork_manager \<Rightarrow> u64 \<Rightarrow> ('e fork_manager \<times> ('e + unit)) option" where
  "register_block m height =
     (if active_fork_idx m + 1 = length (fm_forks m) then Some (m, Ok ())
      else do {
        next \<leftarrow> index (fm_forks m) (active_fork_idx m + 1);
        if height < activation_height next then Some (m, Ok ())
        else (case run_handlers (migration_handlers m) next of
                Inl e \<Rightarrow> Some (m, Err e)
              | Inr _ \<Rightarrow> Some (m \<lparr> active_fork_idx := active_fork_idx m + 1 \<rparr>, Ok ()))
      })"

subsection \<open>The tables of the networks\<close>

definition MAINNET_FORKS :: "fork list" where
  "MAINNET_FORKS = [Fork_new Tangerine 0]"

definition TESTNET_FORKS :: "fork list" where
  "TESTNET_FORKS = [Fork_new Genesis 0, Fork_new Kumquat 5546000, Fork_new Tangerine 9057000]"

definition DEVNET_FORKS :: "fork list" where
  "DEVNET_FORKS = [Fork_new Tangerine 0]"

definition NIGHTLY_FORKS :: "fork list" where
  "NIGHTLY_FORKS = [Fork_new latest 0]"

definition ALL_FORKS :: "fork list" where
  "ALL_FORKS = [Fork_new Genesis 0, Fork_new Kumquat 100, Fork_new Tangerine 200, Fork_new Fork3 210]"

fun network_forks :: "network \<Rightarrow> fork list" where
  "network_forks Mainnet = MAINNET_FORKS"
| "network_forks Testnet = TESTNET_FORKS"
| "network_forks Devnet = DEVNET_FORKS"
| "network_forks Nightly = NIGHTLY_FORKS"
| "network_forks TestNetworkWithForks = ALL_FORKS"

text \<open>The cell \<^verbatim>\<open>FORKS\<close> is written once; the second write and a read before the first panic.\<close>

type_synonym forks_cell = "fork list option"

definition use_network_forks :: "network \<Rightarrow> forks_cell \<Rightarrow> forks_cell option" where
  "use_network_forks n cell = (case cell of None \<Rightarrow> Some (Some (network_forks n)) | Some _ \<Rightarrow> None)"

definition get_forks :: "forks_cell \<Rightarrow> fork list option" where
  "get_forks cell = cell"

definition fork_from_block_number :: "forks_cell \<Rightarrow> u64 \<Rightarrow> fork option" where
  "fork_from_block_number cell n = do {
     forks \<leftarrow> get_forks cell;
     index forks (fork_pos_from_block_number forks n)
   }"

definition get_tangerine_activation_height_non_zero :: "forks_cell \<Rightarrow> u64 option" where
  "get_tangerine_activation_height_non_zero cell = do {
     forks \<leftarrow> get_forks cell;
     first \<leftarrow> index forks 0;
     if fork_spec_id first > Tangerine then Some 1
     else do {
       f \<leftarrow> List.find (\<lambda>f. fork_spec_id f = Tangerine) forks;
       if activation_height f = 0 then Some 1 else Some (activation_height f)
     }
   }"

text \<open>A node registers the blocks it produces or receives in the order of their heights.\<close>

fun register_blocks :: "'e fork_manager \<Rightarrow> u64 list \<Rightarrow> ('e fork_manager \<times> ('e + unit)) option" where
  "register_blocks m [] = Some (m, Ok ())"
| "register_blocks m (h # hs) =
     (case register_block m h of
        None \<Rightarrow> None
      | Some (m', Inl e) \<Rightarrow> Some (m', Err e)
      | Some (m', Inr _) \<Rightarrow> register_blocks m' hs)"

subsection \<open>What \<open>verify_forks\<close> checks\<close>

definition fork_step_ok :: "fork list \<Rightarrow> nat \<Rightarrow> bool" where
  "fork_step_ok forks i \<longleftrightarrow>
     (if i = 0 then activation_height (forks ! 0) = 0
      else unat (spec_id_u8 (fork_spec_id (forks ! i))) = unat (spec_id_u8 (fork_spec_id (forks ! (i - 1)))) + 1
        \<and> activation_height (forks ! (i - 1)) < activation_height (forks ! i))"

lemma sat_sub_eq_1: "sat_sub a b = 1 \<longleftrightarrow> unat a = unat b + 1" for a b :: u8
  by (auto simp: word_eq_unat unat_sat_sub)

lemma verify_forks_from_iff:
  "verify_forks_from forks i \<longleftrightarrow> (\<forall>j. i \<le> j \<and> j < length forks \<longrightarrow> fork_step_ok forks j)"
proof (induction forks i rule: verify_forks_from.induct)
  case (1 forks i)
  have split_at: "(\<forall>j. i \<le> j \<and> j < length forks \<longrightarrow> P j) \<longleftrightarrow>
      P i \<and> (\<forall>j. i + 1 \<le> j \<and> j < length forks \<longrightarrow> P j)" if "i < length forks" for P
    using that by (metis Suc_eq_plus1 Suc_leI le_eq_less_or_eq le_SucI not_less_eq_eq)
  show ?case
  proof (cases "i < length forks")
    case True
    have "verify_forks_from forks i \<longleftrightarrow> fork_step_ok forks i \<and> verify_forks_from forks (i + 1)"
      using True by (subst verify_forks_from.simps)
        (auto simp: Let_def fork_step_ok_def sat_sub_eq_1 not_le)
    moreover have "verify_forks_from forks (i + 1) \<longleftrightarrow>
        (\<forall>j. i + 1 \<le> j \<and> j < length forks \<longrightarrow> fork_step_ok forks j)" if "fork_step_ok forks i"
      using that True "1.IH" by (cases "i = 0") (auto simp: fork_step_ok_def sat_sub_eq_1 not_le)
    ultimately show ?thesis
      unfolding split_at [OF True] by blast
  next
    case False
    then show ?thesis by (subst verify_forks_from.simps) auto
  qed
qed

lemma verify_forks_iff: "verify_forks forks \<longleftrightarrow> (\<forall>j < length forks. fork_step_ok forks j)"
  by (simp add: verify_forks_def verify_forks_from_iff)

lemma verify_forks_first: "verify_forks forks \<Longrightarrow> forks \<noteq> [] \<Longrightarrow> activation_height (forks ! 0) = 0"
  by (auto simp: verify_forks_iff fork_step_ok_def)

lemma verify_forks_Suc:
  assumes "verify_forks forks" "Suc j < length forks"
  shows "activation_height (forks ! j) < activation_height (forks ! Suc j)"
    and "fork_spec_id (forks ! j) < fork_spec_id (forks ! Suc j)"
proof -
  from assms have "fork_step_ok forks (Suc j)" by (simp add: verify_forks_iff)
  then show "activation_height (forks ! j) < activation_height (forks ! Suc j)"
    and "fork_spec_id (forks ! j) < fork_spec_id (forks ! Suc j)"
    by (auto simp: fork_step_ok_def less_spec_id_def word_less_nat_alt)
qed

lemma verify_forks_sorted: "verify_forks forks \<Longrightarrow> sorted_wrt (<) (map activation_height forks)"
  by (subst sorted_wrt_iff_nth_Suc_transp) (auto simp: verify_forks_Suc intro: transpI)

lemma verify_forks_sorted_spec: "verify_forks forks \<Longrightarrow> sorted_wrt (<) (map fork_spec_id forks)"
  by (subst sorted_wrt_iff_nth_Suc_transp) (auto simp: verify_forks_Suc intro: transpI)

subsection \<open>The position of a block number\<close>

lemma fork_pos_last_le:
  "fork_pos_from_block_number forks n = last_le_pos (binary_search (map activation_height forks) n)"
  by (simp add: fork_pos_from_block_number_def last_le_pos_def)

lemma fork_pos_bounds:
  "verify_forks forks \<Longrightarrow> forks \<noteq> [] \<Longrightarrow> fork_pos_from_block_number forks n < length forks"
  using bsearch.last_le_pos_bounds [OF verify_forks_sorted, of forks n] by (simp add: fork_pos_last_le)

lemma fork_pos_le:
  assumes "verify_forks forks" "forks \<noteq> []"
  shows "activation_height (forks ! fork_pos_from_block_number forks n) \<le> n"
  using bsearch.last_le_pos_le [OF verify_forks_sorted [OF assms(1)], of n] fork_pos_bounds [OF assms, of n]
    verify_forks_first [OF assms] assms(2)
  by (simp add: fork_pos_last_le)

lemma fork_pos_above:
  assumes "verify_forks forks" "fork_pos_from_block_number forks n < j" "j < length forks"
  shows "n < activation_height (forks ! j)"
  using bsearch.last_le_pos_above [OF verify_forks_sorted [OF assms(1)], of n j] assms(2,3)
  by (simp add: fork_pos_last_le)

lemma fork_pos_unique:
  assumes "verify_forks forks" "p < length forks" "activation_height (forks ! p) \<le> n"
    and "Suc p < length forks \<Longrightarrow> n < activation_height (forks ! Suc p)"
  shows "fork_pos_from_block_number forks n = p"
  unfolding fork_pos_last_le
proof (rule bsearch.last_le_pos_unique [OF verify_forks_sorted [OF assms(1)]])
  fix j assume "p < j" "j < length (map activation_height forks)"
  then have "activation_height (forks ! Suc p) \<le> activation_height (forks ! j)" "Suc p < length forks"
    using sorted_wrt_less_nth_le [OF verify_forks_sorted [OF assms(1)], of "Suc p" j] by auto
  with assms(4) \<open>j < length (map activation_height forks)\<close> show "n < map activation_height forks ! j"
    by (auto intro: less_le_trans)
qed (use assms(2,3) in auto)

subsection \<open>Registering blocks\<close>

lemma run_handlers_Ok: "(\<forall>h \<in> set hs. h f = Ok ()) \<Longrightarrow> run_handlers hs f = Ok ()"
  by (induction hs) auto

lemma register_block_frame:
  "register_block m h = Some (m', r) \<Longrightarrow>
   fm_forks m' = fm_forks m \<and> migration_handlers m' = migration_handlers m"
  by (auto simp: register_block_def bind_is_Some split: if_splits sum.splits)

text \<open>
  The invariant of the manager: its index is the position of the last registered height. One
  block moves it by at most one fork, which is enough because activation heights increase.
\<close>

definition at_height :: "'e fork_manager \<Rightarrow> u64 \<Rightarrow> bool" where
  "at_height m h \<longleftrightarrow> fm_forks m \<noteq> [] \<and> verify_forks (fm_forks m) \<and>
     active_fork_idx m = fork_pos_from_block_number (fm_forks m) h"

lemma register_block_at_height:
  assumes "at_height m h" "h \<noteq> - 1" "\<forall>g \<in> set (migration_handlers m). \<forall>f. g f = Ok ()"
  shows "\<exists>m'. register_block m (h + 1) = Some (m', Ok ()) \<and> at_height m' (h + 1)"
proof -
  let ?forks = "fm_forks m" and ?p = "active_fork_idx m"
  have inv: "?forks \<noteq> []" "verify_forks ?forks" "?p = fork_pos_from_block_number ?forks h"
    using assms(1) by (auto simp: at_height_def)
  have p: "?p < length ?forks" "activation_height (?forks ! ?p) \<le> h"
    using fork_pos_bounds fork_pos_le inv by auto
  have le: "activation_height (?forks ! ?p) \<le> h + 1"
    using p(2) assms(2) by (simp add: word_le_nat_alt unat_inc)
  show ?thesis
  proof (cases "Suc ?p < length ?forks \<and> activation_height (?forks ! Suc ?p) \<le> h + 1")
    case True
    have "h < activation_height (?forks ! Suc ?p)"
      using fork_pos_above [OF inv(2)] True inv(3) by simp
    with True assms(2) have act: "activation_height (?forks ! Suc ?p) = h + 1"
      by (auto simp: word_eq_unat word_le_nat_alt word_less_nat_alt unat_inc)
    have "fork_pos_from_block_number ?forks (h + 1) = Suc ?p"
      using True act verify_forks_Suc [OF inv(2)] by (intro fork_pos_unique [OF inv(2)]) (auto, metis)
    moreover have "run_handlers (migration_handlers m) (?forks ! Suc ?p) = Ok ()"
      using assms(3) by (intro run_handlers_Ok) simp
    ultimately show ?thesis
      using True inv(1,2) by (auto simp: register_block_def at_height_def index_def)
  next
    case False
    then have "fork_pos_from_block_number ?forks (h + 1) = ?p"
      using p(1) le by (intro fork_pos_unique [OF inv(2)]) auto
    with False p(1) inv(1,2) show ?thesis
      by (auto simp: register_block_def at_height_def index_def)
  qed
qed

lemma register_blocks_at_height:
  assumes "at_height m h" "unat h + n < 2 ^ 64" "\<forall>g \<in> set (migration_handlers m). \<forall>f. g f = Ok ()"
  shows "\<exists>m'. register_blocks m (map (\<lambda>i. h + of_nat i) [1..<n + 1]) = Some (m', Ok ()) \<and>
    fm_forks m' = fm_forks m \<and> at_height m' (h + of_nat n)"
  using assms
proof (induction n arbitrary: m h)
  case 0
  then show ?case by simp
next
  case (Suc n)
  have ne: "h \<noteq> - 1"
    using Suc.prems(2) by (auto simp: unat_max_word)
  with register_block_at_height Suc.prems(1,3)
  obtain m1 where m1: "register_block m (h + 1) = Some (m1, Ok ())" "at_height m1 (h + 1)"
    by blast
  have frame: "fm_forks m1 = fm_forks m" "migration_handlers m1 = migration_handlers m"
    using register_block_frame [OF m1(1)] by auto
  have rest: "unat (h + 1) + n < 2 ^ 64"
    using Suc.prems(2) by (simp add: unat_inc [OF ne])
  obtain m2 where m2: "register_blocks m1 (map (\<lambda>i. h + 1 + of_nat i) [1..<n + 1]) = Some (m2, Ok ())"
      "fm_forks m2 = fm_forks m1" "at_height m2 (h + 1 + of_nat n)"
    using Suc.IH [OF m1(2) rest] Suc.prems(3) frame by auto
  have "[1..<Suc n + 1] = 1 # map Suc [1..<n + 1]"
    by (simp add: upt_conv_Cons map_Suc_upt del: upt_Suc)
  then have "map (\<lambda>i. h + of_nat i) [1..<Suc n + 1] = (h + 1) # map (\<lambda>i. h + 1 + of_nat i) [1..<n + 1]"
    by (simp add: add.assoc)
  with m1(1) m2 frame show ?case
    by (auto simp: add.assoc simp del: upt_Suc)
qed

subsection \<open>Properties\<close>

text \<open>
  C21: in a table that passes \<^verbatim>\<open>verify_forks\<close>, the fork of a block number is the active one: it is in
  the table, it is active at that number, and every other fork active there is an earlier one.
  The lookup returns; its index is never out of range.
\<close>

theorem fork_from_block_number_active:
  assumes "verify_forks forks" "forks \<noteq> []"
  shows "\<exists>f. fork_from_block_number (Some forks) n = Some f \<and> f \<in> set forks \<and> activation_height f \<le> n \<and>
    (\<forall>g \<in> set forks. activation_height g \<le> n \<longrightarrow>
       activation_height g \<le> activation_height f \<and> fork_spec_id g \<le> fork_spec_id f)"
proof -
  let ?p = "fork_pos_from_block_number forks n"
  have "activation_height g \<le> activation_height (forks ! ?p) \<and> fork_spec_id g \<le> fork_spec_id (forks ! ?p)"
    if "g \<in> set forks" "activation_height g \<le> n" for g
  proof -
    from that(1) obtain j where j: "j < length forks" "g = forks ! j"
      by (auto simp: in_set_conv_nth)
    with that(2) fork_pos_above [OF assms(1), of n j] have "j \<le> ?p"
      by (meson leI leD)
    with j(2) fork_pos_bounds [OF assms, of n] verify_forks_sorted [OF assms(1)]
      verify_forks_sorted_spec [OF assms(1)]
    show ?thesis
      using sorted_wrt_less_nth_le [of "map activation_height forks" j ?p]
        sorted_wrt_less_nth_le [of "map fork_spec_id forks" j ?p] by simp
  qed
  with fork_pos_bounds [OF assms, of n] fork_pos_le [OF assms, of n] show ?thesis
    by (auto simp: fork_from_block_number_def get_forks_def index_def)
qed

lemma network_forks_ok: "verify_forks (network_forks n) \<and> network_forks n \<noteq> []"
  by (cases n) (simp_all add: verify_forks_def verify_forks_from.simps MAINNET_FORKS_def TESTNET_FORKS_def
      DEVNET_FORKS_def NIGHTLY_FORKS_def ALL_FORKS_def Fork_new_def latest_def sat_sub_def)

theorem fork_from_block_number_active_witness:
  "\<exists>f. fork_from_block_number (Some (network_forks Testnet)) 6000000 = Some f \<and>
     activation_height f \<le> 6000000 \<and> verify_forks (network_forks Testnet)"
  using fork_from_block_number_active [of "network_forks Testnet" 6000000] network_forks_ok [of Testnet]
  by blast

text \<open>
  C22: a fork manager created at height \<open>h\<close> and given the following \<open>n\<close> blocks one after the other
  (the heights do not overflow, the migrations succeed) accepts all of them and its active fork is
  the one that the table gives for the last block.
\<close>

theorem fork_manager_follows_chain:
  assumes "verify_forks forks" "forks \<noteq> []" "unat h + n < 2 ^ 64"
    and "\<forall>g \<in> set handlers. \<forall>f. g f = Ok ()"
  shows "\<exists>m. register_blocks (fold (\<lambda>g m. register_handler m g) handlers (ForkManager_new forks h))
      (map (\<lambda>i. h + of_nat i) [1..<n + 1]) = Some (m, Ok ()) \<and>
    active_fork m = fork_from_block_number (Some forks) (h + of_nat n)"
proof -
  have handlers: "fold (\<lambda>g m. register_handler m g) hs m = m \<lparr> migration_handlers := migration_handlers m @ hs \<rparr>"
    for hs and m :: "'a fork_manager"
    by (induction hs arbitrary: m) (simp_all add: register_handler_def)
  let ?m = "fold (\<lambda>g m. register_handler m g) handlers (ForkManager_new forks h)"
  have "at_height ?m h" "\<forall>g \<in> set (migration_handlers ?m). \<forall>f. g f = Ok ()" "fm_forks ?m = forks"
    using assms by (auto simp: handlers ForkManager_new_def at_height_def)
  from register_blocks_at_height [OF this(1) assms(3) this(2)] this(3) show ?thesis
    by (auto simp: at_height_def active_fork_def fork_from_block_number_def get_forks_def)
qed

theorem fork_manager_follows_chain_witness:
  "\<exists>m. register_blocks (fold (\<lambda>g m. register_handler m g) [noop_migration]
       (ForkManager_new (network_forks TestNetworkWithForks) 95 :: nat fork_manager))
      (map (\<lambda>i. 95 + of_nat i) [1..<10 + 1]) = Some (m, Ok ()) \<and>
    active_fork m = fork_from_block_number (Some (network_forks TestNetworkWithForks)) (95 + of_nat 10)"
  using fork_manager_follows_chain [of "network_forks TestNetworkWithForks" 95 10 "[noop_migration]"]
    network_forks_ok [of TestNetworkWithForks]
  by (simp add: noop_migration_def)

text \<open>
  Every network's table passes \<^verbatim>\<open>verify_forks\<close> and selects a fork for every block number, the
  first call of \<^verbatim>\<open>use_network_forks\<close> publishes it, a second one panics, and the activation height of
  Tangerine that the provers use is at least one on every network.
\<close>

lemma network_forks_published:
  "use_network_forks n None = Some (Some (network_forks n)) \<and>
   use_network_forks n' (Some (network_forks n)) = None \<and>
   verify_forks (network_forks n) \<and>
   (\<exists>f. fork_from_block_number (Some (network_forks n)) h = Some f) \<and>
   (\<exists>a. get_tangerine_activation_height_non_zero (Some (network_forks n)) = Some a \<and> 1 \<le> a)"
proof -
  have "\<exists>f. fork_from_block_number (Some (network_forks n)) h = Some f"
    using fork_pos_bounds [of "network_forks n" h] network_forks_ok [of n]
    by (auto simp: fork_from_block_number_def get_forks_def index_def)
  moreover have "\<exists>a. get_tangerine_activation_height_non_zero (Some (network_forks n)) = Some a \<and> 1 \<le> a"
    by (cases n) (simp_all add: get_tangerine_activation_height_non_zero_def get_forks_def index_def
        MAINNET_FORKS_def TESTNET_FORKS_def DEVNET_FORKS_def NIGHTLY_FORKS_def ALL_FORKS_def Fork_new_def
        latest_def less_spec_id_def)
  ultimately show ?thesis
    using network_forks_ok [of n] by (simp add: use_network_forks_def)
qed

end
