(* ===== verification/L2_Block.thy ===== *)
theory L2_Block
  imports Forks
begin

section \<open>L2 blocks and transactions\<close>

text \<open>
  Models \<^verbatim>\<open>rollup-interface/src/state_machine/block.rs\<close> and \<^verbatim>\<open>transaction.rs\<close>, the transaction Merkle root
  of \<^verbatim>\<open>primitives/src/merkle.rs\<close>, the keys of \<^verbatim>\<open>sov-keys\<close> and \<^verbatim>\<open>SequencerCommitment\<close> of \<^verbatim>\<open>da.rs\<close>.
  A public key is its SEC1 encoding, a signature its 64 bytes. The record \<^verbatim>\<open>l2_env\<close> holds the functions of
  other crates: SHA-256, the \<^verbatim>\<open>k256\<close> curve, the trees of \<^verbatim>\<open>rs_merkle\<close> and the borsh encoding of a commitment.
\<close>

type_synonym pub_key = bytes
type_synonym signature = bytes

record sequencer_commitment =
  sc_merkle_root :: hash32
  sc_index :: u32
  sc_l2_end_block_number :: u64

record l2_env =
  l2_sha256 :: "bytes \<Rightarrow> hash32"
  k256_pub_valid :: "bytes \<Rightarrow> bool"
  k256_sig_valid :: "bytes \<Rightarrow> bool"
  k256_verify :: "pub_key \<Rightarrow> bytes \<Rightarrow> signature \<Rightarrow> bool"
  rs_merkle_root :: "(bytes \<Rightarrow> hash32) \<Rightarrow> hash32 list \<Rightarrow> hash32 option"
  rs_merkle_verify :: "bytes \<Rightarrow> hash32 \<Rightarrow> nat list \<Rightarrow> hash32 list \<Rightarrow> nat \<Rightarrow> bool option"
  borsh_commitment :: "sequencer_commitment \<Rightarrow> bytes"

subsection \<open>Keys\<close>

definition pub_key_try_from_slice :: "l2_env \<Rightarrow> bytes \<Rightarrow> pub_key option" where
  "pub_key_try_from_slice E bs = (if length bs = 33 \<and> k256_pub_valid E bs then Some bs else None)"

definition signature_try_from_slice :: "l2_env \<Rightarrow> bytes \<Rightarrow> signature option" where
  "signature_try_from_slice E bs = (if length bs = 64 \<and> k256_sig_valid E bs then Some bs else None)"

definition signature_try_from :: "l2_env \<Rightarrow> bytes \<Rightarrow> signature option" where
  "signature_try_from E bs = (if k256_sig_valid E bs then Some bs else None)"

definition signature_verify :: "l2_env \<Rightarrow> signature \<Rightarrow> pub_key \<Rightarrow> bytes \<Rightarrow> bool" where
  "signature_verify E sig pk msg = k256_verify E pk msg sig"

subsection \<open>Transactions\<close>

datatype tx_version = V1 | V2

fun tx_version_u8 :: "tx_version \<Rightarrow> u8" where
  "tx_version_u8 V1 = 0"
| "tx_version_u8 V2 = 1"

record transaction_body =
  tx_signature :: bytes
  tx_pub_key :: pub_key
  tx_runtime_msg :: bytes
  tx_chain_id :: u64
  tx_nonce :: u64

datatype transaction = TransactionV1 transaction_body | TransactionV2 transaction_body

fun version :: "transaction \<Rightarrow> tx_version" where
  "version (TransactionV1 _) = V1"
| "version (TransactionV2 _) = V2"

fun tx_body :: "transaction \<Rightarrow> transaction_body" where
  "tx_body (TransactionV1 t) = t"
| "tx_body (TransactionV2 t) = t"

definition runtime_msg :: "transaction \<Rightarrow> bytes" where
  "runtime_msg tx = tx_runtime_msg (tx_body tx)"

fun tx_message :: "tx_version \<Rightarrow> bytes \<Rightarrow> u64 \<Rightarrow> u64 \<Rightarrow> bytes" where
  "tx_message V1 msg chain nonce = msg @ le_bytes 8 chain @ le_bytes 8 nonce"
| "tx_message V2 msg chain nonce = [tx_version_u8 V2] @ msg @ be_bytes 8 chain @ be_bytes 8 nonce"

fun verify_transaction :: "l2_env \<Rightarrow> transaction \<Rightarrow> bool" where
  "verify_transaction E (TransactionV1 t) =
     (case signature_try_from_slice E (tx_signature t) of
        None \<Rightarrow> False
      | Some sig \<Rightarrow> signature_verify E sig (tx_pub_key t) (tx_message V1 (tx_runtime_msg t) (tx_chain_id t) (tx_nonce t)))"
| "verify_transaction E (TransactionV2 t) =
     signature_verify E (tx_signature t) (tx_pub_key t) (tx_message V2 (tx_runtime_msg t) (tx_chain_id t) (tx_nonce t))"

fun tx_preimage :: "transaction \<Rightarrow> bytes" where
  "tx_preimage (TransactionV1 t) = tx_runtime_msg t @ be_bytes 8 (tx_chain_id t) @ be_bytes 8 (tx_nonce t)"
| "tx_preimage (TransactionV2 t) =
     [tx_version_u8 V2] @ tx_runtime_msg t @ be_bytes 8 (tx_chain_id t) @ be_bytes 8 (tx_nonce t)"

definition tx_compute_digest :: "l2_env \<Rightarrow> transaction \<Rightarrow> hash32" where
  "tx_compute_digest E tx = l2_sha256 E (tx_preimage tx)"

text \<open>\<^verbatim>\<open>new_signed_tx\<close> with the signing function of the key.\<close>

definition new_signed_tx :: "spec_id \<Rightarrow> pub_key \<Rightarrow> (bytes \<Rightarrow> signature) \<Rightarrow> bytes \<Rightarrow> u64 \<Rightarrow> u64 \<Rightarrow> transaction" where
  "new_signed_tx spec pk sign msg chain nonce =
     (let v = (if Fork3 \<le> spec then V2 else V1);
          body = \<lparr> tx_signature = sign (tx_message v msg chain nonce), tx_pub_key = pk, tx_runtime_msg = msg,
                   tx_chain_id = chain, tx_nonce = nonce \<rparr>
      in if v = V2 then TransactionV2 body else TransactionV1 body)"

subsection \<open>The transaction Merkle root\<close>

definition EMPTY_TX_ROOT :: hash32 where
  "EMPTY_TX_ROOT = [0xb9, 0x38, 0x83, 0x52, 0xdd, 0xd5, 0x9e, 0x59, 0xf6, 0x7a, 0x20, 0x8c, 0xbe, 0xba, 0xb3, 0xcd,
     0x6b, 0x23, 0xf9, 0x62, 0xa9, 0x03, 0x2e, 0xfe, 0x78, 0x58, 0xcd, 0x84, 0x01, 0x38, 0xaa, 0x27]"

definition compute_tx_hashes :: "l2_env \<Rightarrow> transaction list \<Rightarrow> spec_id \<Rightarrow> hash32 list" where
  "compute_tx_hashes E txs spec =
     map (\<lambda>tx. if Fork3 \<le> spec then l2_sha256 E (0 # tx_compute_digest E tx) else tx_compute_digest E tx) txs"

definition compute_tx_merkle_root :: "l2_env \<Rightarrow> hash32 list \<Rightarrow> spec_id \<Rightarrow> hash32 option" where
  "compute_tx_merkle_root E hashes spec =
     (if hashes = [] then Some EMPTY_TX_ROOT
      else if Fork3 \<le> spec then rs_merkle_root E (\<lambda>x. l2_sha256 E (1 # x)) hashes
      else rs_merkle_root E (l2_sha256 E) hashes)"

definition verify_tx_merkle_root :: "l2_env \<Rightarrow> transaction list \<Rightarrow> hash32 \<Rightarrow> spec_id \<Rightarrow> bool option" where
  "verify_tx_merkle_root E txs root spec = do {
     r \<leftarrow> compute_tx_merkle_root E (compute_tx_hashes E txs spec) spec;
     Some (r = root)
   }"

subsection \<open>Headers and blocks\<close>

record l2_header =
  l2_height :: u64
  l2_prev_hash :: hash32
  l2_state_root :: hash32
  l2_l1_fee_rate :: u128
  l2_tx_merkle_root :: hash32
  l2_timestamp :: u64

definition header_preimage :: "l2_header \<Rightarrow> bytes" where
  "header_preimage h = be_bytes 8 (l2_height h) @ l2_prev_hash h @ l2_state_root h @ be_bytes 16 (l2_l1_fee_rate h)
     @ l2_tx_merkle_root h @ be_bytes 8 (l2_timestamp h)"

definition compute_digest :: "l2_env \<Rightarrow> l2_header \<Rightarrow> hash32" where
  "compute_digest E h = l2_sha256 E (header_preimage h)"

record signed_l2_header =
  sh_inner :: l2_header
  sh_hash :: hash32
  sh_signature :: bytes

record l2_block =
  lb_header :: signed_l2_header
  lb_txs :: "transaction list"

definition lb_inner :: "l2_block \<Rightarrow> l2_header" where
  "lb_inner b = sh_inner (lb_header b)"

definition lb_height :: "l2_block \<Rightarrow> u64" where
  "lb_height b = l2_height (lb_inner b)"

definition lb_hash :: "l2_block \<Rightarrow> hash32" where
  "lb_hash b = sh_hash (lb_header b)"

definition lb_prev_hash :: "l2_block \<Rightarrow> hash32" where
  "lb_prev_hash b = l2_prev_hash (lb_inner b)"

definition lb_state_root :: "l2_block \<Rightarrow> hash32" where
  "lb_state_root b = l2_state_root (lb_inner b)"

definition lb_tx_merkle_root :: "l2_block \<Rightarrow> hash32" where
  "lb_tx_merkle_root b = l2_tx_merkle_root (lb_inner b)"

definition serialize_and_calculate_sha_256 :: "l2_env \<Rightarrow> sequencer_commitment \<Rightarrow> hash32" where
  "serialize_and_calculate_sha_256 E c = l2_sha256 E (borsh_commitment E c)"

subsection \<open>What a digest commits to\<close>

lemma le_nat_u128: "le_nat (le_bytes 16 w) = unat w" for w :: u128
  using unsigned_less [of w, where ?'a = nat] by (simp add: le_nat_le_bytes)

lemma be_bytes_u128_inj: "be_bytes 16 v = be_bytes 16 w \<longleftrightarrow> v = w" for v w :: u128
  by (metis le_nat_u128 rev_le_bytes rev_rev_ident word_eq_unat)

definition header_sized :: "l2_header \<Rightarrow> bool" where
  "header_sized h \<longleftrightarrow> length (l2_prev_hash h) = 32 \<and> length (l2_state_root h) = 32 \<and> length (l2_tx_merkle_root h) = 32"

lemma header_preimage_inj:
  "header_sized h \<Longrightarrow> header_sized h' \<Longrightarrow> header_preimage h = header_preimage h' \<Longrightarrow> h = h'"
  by (auto simp: header_preimage_def header_sized_def be_bytes_u64_inj be_bytes_u128_inj)

lemma message_suffix:
  "xs @ be_bytes 8 (c :: u64) @ be_bytes 8 (n :: u64) = ys @ be_bytes 8 (c' :: u64) @ be_bytes 8 (n' :: u64)
   \<longleftrightarrow> xs = ys \<and> c = c' \<and> n = n'"
proof -
  have "xs @ be_bytes 8 c @ be_bytes 8 n = ys @ be_bytes 8 c' @ be_bytes 8 n'
      \<longleftrightarrow> xs = ys \<and> be_bytes 8 c @ be_bytes 8 n = be_bytes 8 c' @ be_bytes 8 n'"
    by (rule append_eq_append_conv) simp
  then show ?thesis by (simp add: be_bytes_u64_inj)
qed

text \<open>C23: What the digest of a transaction commits to. Two transactions are hashed from the same bytes exactly when their chain ids and
  nonces are equal and either they have the same version and the same runtime message, or one is of version 2 and
  the other of version 1 with the byte 1 before the message. So the digest alone does not tell the versions apart,
  and neither the signature nor the public key is part of it.\<close>

theorem tx_digest_commits:
  "tx_preimage tx = tx_preimage tx' \<longleftrightarrow>
     tx_chain_id (tx_body tx) = tx_chain_id (tx_body tx') \<and> tx_nonce (tx_body tx) = tx_nonce (tx_body tx')
     \<and> (if version tx = version tx' then runtime_msg tx = runtime_msg tx'
        else if version tx = V2 then runtime_msg tx' = 1 # runtime_msg tx
        else runtime_msg tx = 1 # runtime_msg tx')"
proof (cases tx; cases tx')
  fix t t' assume [simp]: "tx = TransactionV1 t" "tx' = TransactionV2 t'"
  show ?thesis
    using message_suffix [of "tx_runtime_msg t" "tx_chain_id t" "tx_nonce t" "1 # tx_runtime_msg t'"]
    by (auto simp: runtime_msg_def)
next
  fix t t' assume [simp]: "tx = TransactionV2 t" "tx' = TransactionV1 t'"
  show ?thesis
    using message_suffix [of "1 # tx_runtime_msg t" "tx_chain_id t" "tx_nonce t" "tx_runtime_msg t'"]
    by (auto simp: runtime_msg_def)
qed (auto simp: runtime_msg_def message_suffix)

text \<open>Concrete functions: hashes and signatures that pad or cut their input, and a tree that hashes all leaves at once.\<close>

definition pad_to :: "nat \<Rightarrow> bytes \<Rightarrow> bytes" where
  "pad_to n x = take n (x @ zeros n)"

definition pad_l2_env :: l2_env where
  "pad_l2_env = \<lparr> l2_sha256 = pad_to 32, k256_pub_valid = (\<lambda>_. True), k256_sig_valid = (\<lambda>s. length s = 64),
     k256_verify = (\<lambda>pk m s. s = pad_to 64 m),
     rs_merkle_root = (\<lambda>h leaves. if leaves = [] then None else Some (h (concat leaves))),
     rs_merkle_verify = (\<lambda>p root idx leaves n. Some (p = root)),
     borsh_commitment = (\<lambda>c. sc_merkle_root c @ le_bytes 4 (sc_index c) @ le_bytes 8 (sc_l2_end_block_number c)) \<rparr>"

lemma length_pad_to [simp]: "length (pad_to n x) = n"
  by (simp add: pad_to_def)

text \<open>A transaction the node signs verifies, before and after Fork3, provided the key's signatures are 64 valid bytes
  that verify under its public key.\<close>

lemma signed_tx_verifies:
  assumes "\<And>m. length (sign m) = 64 \<and> k256_sig_valid E (sign m) \<and> k256_verify E pk m (sign m)"
  shows "verify_transaction E (new_signed_tx spec pk sign msg chain nonce)"
  using assms by (simp add: new_signed_tx_def Let_def signature_try_from_slice_def signature_verify_def)

lemma signed_tx_verifies_applied:
  "verify_transaction pad_l2_env (new_signed_tx Fork3 (replicate 33 2) (pad_to 64) [7, 8] 5115 3)
   \<and> verify_transaction pad_l2_env (new_signed_tx Tangerine (replicate 33 2) (pad_to 64) [7, 8] 5115 3)"
  using signed_tx_verifies [of "pad_to 64" pad_l2_env "replicate 33 2"] by (simp add: pad_l2_env_def)

end
