(* ===== verification/Stf_Blueprint.thy ===== *)
theory Stf_Blueprint
  imports State_Programs L2_Block
begin

section \<open>The state transition function\<close>

text \<open>
  Models \<^verbatim>\<open>sov-modules-stf-blueprint/src/lib.rs\<close> and \<^verbatim>\<open>stf_blueprint.rs\<close>: applying one L2 block, and applying the blocks of a list
  of sequencer commitments inside the guest. Both are generic in the runtime and the storage, and so is the model:

    \<^item> the runtime is a record of programs on the working set; a call may change the runtime value itself
      (\<^verbatim>\<open>&mut self\<close>), so every program takes and returns one;
    \<^item> the storage is a record of the operations of the \<^verbatim>\<open>Storage\<close> trait the function uses, instantiated at the prover's storage and
      at the guest's;
    \<^item> what the guest reads from the host is a list of items, and a read of the wrong kind is a panic.

  Panics (\<^verbatim>\<open>assert_eq!\<close>, \<^verbatim>\<open>expect\<close>, \<^verbatim>\<open>unwrap\<close>) are \<^const>\<open>None\<close>.
\<close>

datatype l2_block_error =
    InvalidL2BlockHash | InvalidL2BlockSignature | InvalidSovTxSignature | SovTxCantBeRuntimeDecoded
  | InvalidTxMerkleRoot | OtherL2BlockError string

datatype l2_block_hook_error =
    SovTxBadNonce | SovTxAccountNotFound | SovTxAccountAlreadyExists | TooManyL2BlocksOnDaSlot
  | TimestampShouldBeGreater

datatype l2_block_module_call_error =
    EvmGasUsedExceedsBlockGasLimit u64 u64 u64 | EvmTransactionExecutionError string | EvmMisplacedSystemTx
  | EvmNotEnoughFundsForL1Fee | EvmTxNotSerializable | RuleEnforcerUnauthorized | EvmTxTypeNotSupported string
  | ShortHeaderProofNotFound | ShortHeaderProofVerificationError | ShortHeaderProofAllocationError string
  | EvmSystemTransactionPlacedAfterUserTx | EvmSystemTxParseError | EvmSystemTransactionNotSuccessful

datatype state_transition_error =
    L2BlockError l2_block_error | HookError l2_block_hook_error | ModuleCallError l2_block_module_call_error

record hook_l2_block_info =
  hi_l2_height :: u64
  hi_pre_state_root :: hash32
  hi_current_spec :: spec_id
  hi_sequencer_pub_key :: pub_key
  hi_l1_fee_rate :: u128
  hi_timestamp :: u64

definition HookL2BlockInfo_new :: "l2_block \<Rightarrow> hash32 \<Rightarrow> spec_id \<Rightarrow> pub_key \<Rightarrow> hook_l2_block_info" where
  "HookL2BlockInfo_new b pre spec pk =
     \<lparr> hi_l2_height = lb_height b, hi_pre_state_root = pre, hi_current_spec = spec, hi_sequencer_pub_key = pk,
       hi_l1_fee_rate = l2_l1_fee_rate (lb_inner b), hi_timestamp = l2_timestamp (lb_inner b) \<rparr>"

record runtime_tx_hook =
  th_height :: u64
  th_current_spec :: spec_id
  th_l1_fee_rate :: u128

subsection \<open>Programs of the runtime\<close>

primrec prog_bind :: "'a state_prog \<Rightarrow> ('a \<Rightarrow> 'b state_prog) \<Rightarrow> 'b state_prog" where
  "prog_bind (Return a) g = g a"
| "prog_bind (GetState k f) g = GetState k (\<lambda>v. prog_bind (f v) g)"
| "prog_bind (SetState k v p) g = SetState k v (prog_bind p g)"
| "prog_bind (DeleteState k p) g = DeleteState k (prog_bind p g)"
| "prog_bind (GetOffchain k f) g = GetOffchain k (\<lambda>v. prog_bind (f v) g)"
| "prog_bind (SetOffchain k v p) g = SetOffchain k v (prog_bind p g)"
| "prog_bind (DeleteOffchain k p) g = DeleteOffchain k (prog_bind p g)"
| "prog_bind (SetAccessory k v p) g = SetAccessory k v (prog_bind p g)"
| "prog_bind (DeleteAccessory k p) g = DeleteAccessory k (prog_bind p g)"
| "prog_bind (Checkpoint p) g = Checkpoint (prog_bind p g)"
| "prog_bind (Rollback p) g = Rollback (prog_bind p g)"

type_synonym ('r, 'e, 'a) rt_prog = "'r \<Rightarrow> (('e + 'a) \<times> 'r) state_prog"

definition rt_return :: "'a \<Rightarrow> ('r, 'e, 'a) rt_prog" where
  "rt_return a = (\<lambda>r. Return (Ok a, r))"

definition rt_fail :: "'e \<Rightarrow> ('r, 'e, 'a) rt_prog" where
  "rt_fail e = (\<lambda>r. Return (Err e, r))"

text \<open>The operator \<^verbatim>\<open>?\<close>: the error returns early.\<close>

definition rt_bind :: "('r, 'e, 'a) rt_prog \<Rightarrow> ('a \<Rightarrow> ('r, 'e, 'b) rt_prog) \<Rightarrow> ('r, 'e, 'b) rt_prog" where
  "rt_bind p f = (\<lambda>r. prog_bind (p r) (\<lambda>(x, r'). case x of Inl e \<Rightarrow> Return (Err e, r') | Inr a \<Rightarrow> f a r'))"

definition rt_map_err :: "('e \<Rightarrow> 'e') \<Rightarrow> ('r, 'e, 'a) rt_prog \<Rightarrow> ('r, 'e', 'a) rt_prog" where
  "rt_map_err g p = (\<lambda>r. prog_bind (p r) (\<lambda>(x, r'). Return (map_sum g id x, r')))"

text \<open>The finalize hook sees the accessory state only.\<close>

datatype accessory_prog =
    AReturn
  | AGet storage_key "storage_value option \<Rightarrow> accessory_prog"
  | ASet storage_key storage_value accessory_prog
  | ADelete storage_key accessory_prog

primrec run_accessory :: "bool \<Rightarrow> accessory_prog \<Rightarrow> working_set \<Rightarrow> working_set option" where
  "run_accessory native AReturn ws = Some ws"
| "run_accessory native (AGet k f) ws = (case accessory_get native ws k of None \<Rightarrow> None | Some v \<Rightarrow> run_accessory native (f v) ws)"
| "run_accessory native (ASet k v p) ws = run_accessory native p (accessory_set ws k v)"
| "run_accessory native (ADelete k p) ws = run_accessory native p (accessory_delete ws k)"

record ('r, 'msg, 'ctx) runtime =
  rt_decode_call :: "bytes \<Rightarrow> 'msg option"
  rt_genesis :: "unit state_prog"
  rt_begin_l2_block_hook :: "hook_l2_block_info \<Rightarrow> ('r, l2_block_hook_error, unit) rt_prog"
  rt_pre_dispatch_tx_hook :: "transaction \<Rightarrow> runtime_tx_hook \<Rightarrow> spec_id \<Rightarrow> ('r, l2_block_hook_error, 'ctx) rt_prog"
  rt_dispatch_call :: "'msg \<Rightarrow> 'ctx \<Rightarrow> ('r, l2_block_module_call_error, unit) rt_prog"
  rt_post_dispatch_tx_hook :: "transaction \<Rightarrow> 'ctx \<Rightarrow> spec_id \<Rightarrow> ('r, l2_block_hook_error, unit) rt_prog"
  rt_end_l2_block_hook :: "hook_l2_block_info \<Rightarrow> ('r, l2_block_hook_error, unit) rt_prog"
  rt_finalize_hook :: "'r \<Rightarrow> hash32 \<Rightarrow> accessory_prog"

subsection \<open>The storage\<close>

text \<open>\<open>ss_native\<close> is the compile-time feature \<^verbatim>\<open>native\<close>, which the guest is built without.\<close>

record ('n, 'c) stf_storage =
  ss_native :: bool
  ss_ops :: storage_ops
  ss_compute_state_update :: "read_write_log \<Rightarrow> storage_witness \<Rightarrow> bool \<Rightarrow>
    (storage_error + state_root_transition \<times> 'n \<times> state_diff \<times> storage_witness) option"
  ss_commit :: "'n \<Rightarrow> (cache_key \<times> cache_value option) list \<Rightarrow> read_write_log \<Rightarrow> 'c"

record 'c l2_block_result =
  res_state_root_transition :: state_root_transition
  res_state_log :: read_write_log
  res_offchain_log :: read_write_log
  res_change_set :: 'c
  res_witness :: storage_witness
  res_offchain_witness :: storage_witness
  res_state_diff :: state_diff

definition prover_stf_storage ::
  "('p, 'u) borsh \<Rightarrow> ('p, 'u) jmt_verifier \<Rightarrow> ('s, 'p, 'u, 'n) jmt_tree \<Rightarrow> 's prover_storage \<Rightarrow>
   ('n \<times> (hash32 \<times> cache_key) list \<Rightarrow> (cache_key \<times> cache_value option) list \<Rightarrow> read_write_log \<Rightarrow> 'c) \<Rightarrow>
   ('n \<times> (hash32 \<times> cache_key) list, 'c) stf_storage" where
  "prover_stf_storage B V T s commit =
     \<lparr> ss_native = True, ss_ops = prover_storage_ops B s,
       ss_compute_state_update = prover_compute_state_update B V T s, ss_commit = commit \<rparr>"

definition zk_stf_storage :: "('p, 'u) borsh \<Rightarrow> ('p, 'u) jmt_verifier \<Rightarrow> (unit, unit) stf_storage" where
  "zk_stf_storage B V =
     \<lparr> ss_native = False, ss_ops = zk_storage_ops B,
       ss_compute_state_update = zk_compute_state_update B V, ss_commit = (\<lambda>_ _ _. ()) \<rparr>"

subsection \<open>Applying one block\<close>

definition verify_signature :: "l2_env \<Rightarrow> signed_l2_header \<Rightarrow> pub_key \<Rightarrow> bool" where
  "verify_signature E h pk =
     (case signature_try_from E (sh_signature h) of None \<Rightarrow> False | Some sig \<Rightarrow> signature_verify E sig pk (sh_hash h))"

definition verify_l2_block ::
  "l2_env \<Rightarrow> l2_block \<Rightarrow> pub_key \<Rightarrow> spec_id \<Rightarrow> (state_transition_error + unit) option" where
  "verify_l2_block E b pk spec = do {
     root_ok \<leftarrow> verify_tx_merkle_root E (lb_txs b) (lb_tx_merkle_root b) spec;
     Some (if \<not> root_ok then Err (L2BlockError InvalidTxMerkleRoot)
           else if lb_hash b \<noteq> compute_digest E (lb_inner b) then Err (L2BlockError InvalidL2BlockHash)
           else if \<not> verify_signature E (lb_header b) pk then Err (L2BlockError InvalidL2BlockSignature)
           else Ok ())
   }"

definition begin_l2_block ::
  "('r, 'msg, 'ctx) runtime \<Rightarrow> hook_l2_block_info \<Rightarrow> ('r, state_transition_error, unit) rt_prog" where
  "begin_l2_block R info = rt_map_err HookError (rt_begin_l2_block_hook R info)"

definition apply_sov_tx_inner ::
  "l2_env \<Rightarrow> ('r, 'msg, 'ctx) runtime \<Rightarrow> hook_l2_block_info \<Rightarrow> transaction \<Rightarrow> ('r, state_transition_error, unit) rt_prog" where
  "apply_sov_tx_inner E R info tx =
     (if \<not> verify_transaction E tx then rt_fail (L2BlockError InvalidSovTxSignature)
      else case rt_decode_call R (runtime_msg tx) of
        None \<Rightarrow> rt_fail (L2BlockError SovTxCantBeRuntimeDecoded)
      | Some msg \<Rightarrow>
          let hook = \<lparr> th_height = hi_l2_height info, th_current_spec = hi_current_spec info,
                       th_l1_fee_rate = hi_l1_fee_rate info \<rparr> in
          rt_bind (rt_map_err HookError (rt_pre_dispatch_tx_hook R tx hook (hi_current_spec info))) (\<lambda>ctx.
          rt_bind (rt_map_err ModuleCallError (rt_dispatch_call R msg ctx)) (\<lambda>_.
          rt_map_err HookError (rt_post_dispatch_tx_hook R tx ctx (hi_current_spec info)))))"

fun apply_sov_txs_inner ::
  "l2_env \<Rightarrow> ('r, 'msg, 'ctx) runtime \<Rightarrow> hook_l2_block_info \<Rightarrow> transaction list \<Rightarrow>
   ('r, state_transition_error, unit) rt_prog" where
  "apply_sov_txs_inner E R info [] = rt_return ()"
| "apply_sov_txs_inner E R info (tx # txs) =
     rt_bind (apply_sov_tx_inner E R info tx) (\<lambda>_. apply_sov_txs_inner E R info txs)"

definition end_l2_block ::
  "('r, 'msg, 'ctx) runtime \<Rightarrow> hook_l2_block_info \<Rightarrow> ('r, state_transition_error, unit) rt_prog" where
  "end_l2_block R info = rt_map_err HookError (rt_end_l2_block_hook R info)"

definition finalize_l2_block ::
  "('r, 'msg, 'ctx) runtime \<Rightarrow> 'r \<Rightarrow> ('n, 'c) stf_storage \<Rightarrow> working_set \<Rightarrow> 'c l2_block_result option" where
  "finalize_l2_block R rt S working_set = do {
     let ((state_log, witness), checkpoint) = cp_freeze (ws_checkpoint working_set);
     r \<leftarrow> ss_compute_state_update S state_log witness True;
     (case r of
        Inl _ \<Rightarrow> None
      | Inr (transition, state_update, diff, witness') \<Rightarrow> do {
          ws \<leftarrow> run_accessory (ss_native S) (rt_finalize_hook R rt (final_root transition)) (to_revertable checkpoint);
          let (accessory_log, checkpoint2) = cp_freeze_non_provable (ws_checkpoint ws);
          let ((offchain_log, offchain_witness), _) = cp_freeze_offchain checkpoint2;
          Some \<lparr> res_state_root_transition = transition, res_state_log = state_log, res_offchain_log = offchain_log,
                 res_change_set = ss_commit S state_update accessory_log offchain_log,
                 res_witness = witness', res_offchain_witness = offchain_witness, res_state_diff = diff \<rparr>
        })
   }"

text \<open>The part of \<^verbatim>\<open>apply_l2_block\<close> between the checks and the end, as one program.\<close>

definition block_prog ::
  "l2_env \<Rightarrow> ('r, 'msg, 'ctx) runtime \<Rightarrow> hook_l2_block_info \<Rightarrow> transaction list \<Rightarrow> ('r, state_transition_error, unit) rt_prog" where
  "block_prog E R info txs =
     rt_bind (begin_l2_block R info) (\<lambda>_. rt_bind (apply_sov_txs_inner E R info txs) (\<lambda>_. end_l2_block R info))"

definition initial_working_set ::
  "storage_ops \<Rightarrow> storage_witness \<Rightarrow> storage_witness \<Rightarrow> read_write_log option \<Rightarrow> read_write_log option \<Rightarrow> working_set option" where
  "initial_working_set ops sw ow slog olog =
     (case slog of
        Some l \<Rightarrow> (case olog of None \<Rightarrow> None | Some o' \<Rightarrow> Some (ws_with_witness_and_log ops sw ow l o'))
      | None \<Rightarrow> Some (ws_with_witness ops sw ow))"

definition apply_l2_block ::
  "l2_env \<Rightarrow> ('r, 'msg, 'ctx) runtime \<Rightarrow> 'r \<Rightarrow> ('n, 'c) stf_storage \<Rightarrow> spec_id \<Rightarrow> pub_key \<Rightarrow> hash32 \<Rightarrow>
   read_write_log option \<Rightarrow> read_write_log option \<Rightarrow> storage_witness \<Rightarrow> storage_witness \<Rightarrow> l2_block \<Rightarrow>
   ((state_transition_error + 'c l2_block_result) \<times> 'r) option" where
  "apply_l2_block E R rt S spec pk pre_root slog olog sw ow b = do {
     let info = HookL2BlockInfo_new b pre_root spec pk;
     ws \<leftarrow> initial_working_set (ss_ops S) sw ow slog olog;
     v \<leftarrow> verify_l2_block E b pk spec;
     (case v of
        Inl e \<Rightarrow> Some (Err e, rt)
      | Inr _ \<Rightarrow> do {
          ((x, rt'), ws') \<leftarrow> run_prog (block_prog E R info (lb_txs b) rt) ws;
          (case x of
             Inl e \<Rightarrow> Some (Err e, rt')
           | Inr _ \<Rightarrow> do { res \<leftarrow> finalize_l2_block R rt' S ws'; Some (Ok res, rt') })
        })
   }"

definition init_chain ::
  "('r, 'msg, 'ctx) runtime \<Rightarrow> 'r \<Rightarrow> ('n, 'c) stf_storage \<Rightarrow> (hash32 \<times> 'c) option" where
  "init_chain R rt S = do {
     (_, working_set) \<leftarrow> run_prog (rt_genesis R) (ws_new (ss_ops S));
     let ((state_log, witness), checkpoint) = cp_freeze (ws_checkpoint working_set);
     r \<leftarrow> ss_compute_state_update S state_log witness True;
     (case r of
        Inl _ \<Rightarrow> None
      | Inr (transition, state_update, _, _) \<Rightarrow> do {
          ws \<leftarrow> run_accessory (ss_native S) (rt_finalize_hook R rt (final_root transition)) (to_revertable checkpoint);
          let (accessory_log, checkpoint2) = cp_freeze_non_provable (ws_checkpoint ws);
          let ((offchain_log, _), _) = cp_freeze_offchain checkpoint2;
          Some (final_root transition, ss_commit S state_update accessory_log offchain_log)
        })
   }"

subsection \<open>Applying the blocks of sequencer commitments\<close>

record prev_hash_proof =
  php_last_header :: l2_header
  php_merkle_proof_bytes :: bytes
  php_prev_sequencer_commitment_start :: u64

datatype host_item = HostU32 u32 | HostU64 u64 | HostBlock l2_block storage_witness storage_witness

fun read_u32 :: "host_item list \<Rightarrow> (u32 \<times> host_item list) option" where
  "read_u32 (HostU32 n # rest) = Some (n, rest)"
| "read_u32 _ = None"

fun read_u64 :: "host_item list \<Rightarrow> (u64 \<times> host_item list) option" where
  "read_u64 (HostU64 n # rest) = Some (n, rest)"
| "read_u64 _ = None"

fun read_block :: "host_item list \<Rightarrow> ((l2_block \<times> storage_witness \<times> storage_witness) \<times> host_item list) option" where
  "read_block (HostBlock b sw ow # rest) = Some ((b, sw, ow), rest)"
| "read_block _ = None"

text \<open>The variables of the loop over blocks.\<close>

record 'r batch_state =
  bs_runtime :: 'r
  bs_state_root :: hash32
  bs_state_diff :: "(bytes, bytes option) bmap"
  bs_prev_hash :: "hash32 option"
  bs_fork_manager :: "unit fork_manager"
  bs_state_log :: "read_write_log option"
  bs_offchain_log :: "read_write_log option"
  bs_prune_heights :: "u64 list"
  bs_l2_height :: u64
  bs_block_hashes :: "hash32 list"

definition extend_diff :: "(bytes, bytes option) bmap \<Rightarrow> state_diff \<Rightarrow> (bytes, bytes option) bmap" where
  "extend_diff m diff = fold (\<lambda>(k, v). bm_insert k v) diff m"

fun next_if_eq :: "u64 list \<Rightarrow> u64 \<Rightarrow> bool \<times> u64 list" where
  "next_if_eq (x # xs) h = (if x = h then (True, xs) else (False, x # xs))"
| "next_if_eq [] h = (False, [])"

definition apply_checked_block ::
  "l2_env \<Rightarrow> ('r, 'msg, 'ctx) runtime \<Rightarrow> ('n, 'c) stf_storage \<Rightarrow> pub_key \<Rightarrow> 'r batch_state \<Rightarrow>
   l2_block \<times> storage_witness \<times> storage_witness \<Rightarrow> ('c l2_block_result \<times> 'r \<times> unit fork_manager) option" where
  "apply_checked_block E R S pk st item = (case item of (b, sw, ow) \<Rightarrow> do {
     assert_that (lb_height b = bs_l2_height st);
     assert_that (case bs_prev_hash st of None \<Rightarrow> True | Some h \<Rightarrow> lb_prev_hash b = h);
     (fm, ok) \<leftarrow> register_block (bs_fork_manager st) (bs_l2_height st);
     assert_that (ok = Ok ());
     f \<leftarrow> active_fork fm;
     (x, rt) \<leftarrow> apply_l2_block E R (bs_runtime st) S (fork_spec_id f) pk (bs_state_root st)
                  (bs_state_log st) (bs_offchain_log st) sw ow b;
     (case x of Inl _ \<Rightarrow> None | Inr res \<Rightarrow> Some (res, rt, fm))
   })"

definition record_block ::
  "'r batch_state \<Rightarrow> l2_block \<Rightarrow> 'c l2_block_result \<Rightarrow> 'r \<Rightarrow> unit fork_manager \<Rightarrow> 'r batch_state option" where
  "record_block st b res rt fm = do {
     assert_that (bs_state_root st = init_root (res_state_root_transition res));
     let root = final_root (res_state_root_transition res);
     assert_that (root = lb_state_root b);
     let (prune, heights) = next_if_eq (bs_prune_heights st) (bs_l2_height st);
     state_log \<leftarrow> (if prune then rw_prune_half (res_state_log res) else Some (res_state_log res));
     offchain_log \<leftarrow> (if prune then rw_prune_half (res_offchain_log res) else Some (res_offchain_log res));
     Some (st \<lparr> bs_runtime := rt, bs_state_root := root,
             bs_state_diff := extend_diff (bs_state_diff st) (res_state_diff res),
             bs_prev_hash := Some (lb_hash b), bs_fork_manager := fm,
             bs_state_log := Some state_log, bs_offchain_log := Some offchain_log,
             bs_prune_heights := heights, bs_l2_height := bs_l2_height st + 1,
             bs_block_hashes := bs_block_hashes st @ [lb_hash b] \<rparr>)
   }"

definition apply_block_step ::
  "l2_env \<Rightarrow> ('r, 'msg, 'ctx) runtime \<Rightarrow> ('n, 'c) stf_storage \<Rightarrow> pub_key \<Rightarrow> 'r batch_state \<Rightarrow>
   l2_block \<times> storage_witness \<times> storage_witness \<Rightarrow> 'r batch_state option" where
  "apply_block_step E R S pk st item = do {
     (res, rt, fm) \<leftarrow> apply_checked_block E R S pk st item;
     record_block st (fst item) res rt fm
   }"

fun apply_block_steps ::
  "l2_env \<Rightarrow> ('r, 'msg, 'ctx) runtime \<Rightarrow> ('n, 'c) stf_storage \<Rightarrow> pub_key \<Rightarrow> nat \<Rightarrow> 'r batch_state \<Rightarrow>
   host_item list \<Rightarrow> ('r batch_state \<times> host_item list) option" where
  "apply_block_steps E R S pk 0 st host = Some (st, host)"
| "apply_block_steps E R S pk (Suc n) st host = do {
     (_, host1) \<leftarrow> read_u64 host;
     (item, host2) \<leftarrow> read_block host1;
     st' \<leftarrow> apply_block_step E R S pk st item;
     apply_block_steps E R S pk n st' host2
   }"

text \<open>The loop over commitments keeps the end height of the last one, the start height of the next one and the roots.\<close>

fun apply_commitments ::
  "l2_env \<Rightarrow> ('r, 'msg, 'ctx) runtime \<Rightarrow> ('n, 'c) stf_storage \<Rightarrow> pub_key \<Rightarrow> sequencer_commitment list \<Rightarrow>
   'r batch_state \<Rightarrow> u64 \<Rightarrow> u64 \<Rightarrow> hash32 list \<Rightarrow> host_item list \<Rightarrow>
   ('r batch_state \<times> u64 \<times> hash32 list \<times> host_item list) option" where
  "apply_commitments E R S pk [] st last_end start roots host = Some (st, last_end, roots, host)"
| "apply_commitments E R S pk (c # cs) st last_end start roots host = do {
     assert_that (last_end + 1 = start);
     (n, host1) \<leftarrow> read_u32 host;
     (st', host2) \<leftarrow> apply_block_steps E R S pk (unat n) (st \<lparr> bs_l2_height := start, bs_block_hashes := [] \<rparr>) host1;
     assert_that (rs_merkle_root E (l2_sha256 E) (bs_block_hashes st') = Some (sc_merkle_root c));
     assert_that (sc_l2_end_block_number c = bs_l2_height st' - 1);
     apply_commitments E R S pk cs st' (sc_l2_end_block_number c) (bs_l2_height st')
       (roots @ [bs_state_root st']) host2
   }"

record apply_sequencer_commitments_output =
  aso_state_roots :: "hash32 list"
  aso_state_diff :: "(bytes, bytes option) bmap"
  aso_last_l2_height :: u64
  aso_final_l2_block_hash :: hash32
  aso_sequencer_commitment_hashes :: "hash32 list"
  aso_sequencer_commitment_index_range :: "u32 \<times> u32"
  aso_cumulative_state_log :: read_write_log
  aso_previous_commitment_index :: "u32 option"
  aso_previous_commitment_hash :: "hash32 option"

definition initial_prev_hash ::
  "l2_env \<Rightarrow> hash32 option \<Rightarrow> hash32 \<Rightarrow> sequencer_commitment option \<Rightarrow> prev_hash_proof option \<Rightarrow> hash32 option option" where
  "initial_prev_hash E initial_prev_l2_block_hash initial_state_root prev_commitment prev_proof =
     (case prev_commitment of
        Some c \<Rightarrow> do {
          p \<leftarrow> prev_proof;
          let last_hash = compute_digest E (php_last_header p);
          let start = php_prev_sequencer_commitment_start p;
          assert_that (l2_state_root (php_last_header p) = initial_state_root);
          assert_that (start \<le> sc_l2_end_block_number c);
          let idx = unat (sc_l2_end_block_number c - start);
          assert_that (idx + 1 < 2 ^ 64);
          ok \<leftarrow> rs_merkle_verify E (php_merkle_proof_bytes p) (sc_merkle_root c) [idx] [last_hash] (idx + 1);
          assert_that ok;
          Some (Some last_hash)
        }
      | None \<Rightarrow> do { assert_that (prev_proof = None); Some initial_prev_l2_block_hash })"

definition first_proving_height :: "fork list \<Rightarrow> u64 option" where
  "first_proving_height forks =
     map_option activation_height (find (\<lambda>f. Tangerine \<le> fork_spec_id f) forks)"

definition previous_commitment_info ::
  "l2_env \<Rightarrow> sequencer_commitment option \<Rightarrow> sequencer_commitment \<Rightarrow> u64 \<Rightarrow> (u64 \<times> u32 option \<times> hash32 option) option" where
  "previous_commitment_info E prev_commitment first activation =
     (case prev_commitment of
        Some c \<Rightarrow> do {
          assert_that (sc_index c \<noteq> 0);
          assert_that (sc_index c + 1 = sc_index first);
          Some (sc_l2_end_block_number c, Some (sc_index c), Some (serialize_and_calculate_sha_256 E c))
        }
      | None \<Rightarrow> do {
          assert_that (sc_index first = 1);
          Some (sat_sub activation 1, None, None)
        })"

definition apply_l2_blocks_from_sequencer_commitments ::
  "l2_env \<Rightarrow> ('r, 'msg, 'ctx) runtime \<Rightarrow> 'r \<Rightarrow> ('n, 'c) stf_storage \<Rightarrow> host_item list \<Rightarrow> bytes \<Rightarrow> hash32 option \<Rightarrow> hash32 \<Rightarrow>
   sequencer_commitment option \<Rightarrow> prev_hash_proof option \<Rightarrow> sequencer_commitment list \<Rightarrow> u64 list \<Rightarrow> fork list \<Rightarrow>
   apply_sequencer_commitments_output option" where
  "apply_l2_blocks_from_sequencer_commitments E R rt S host key initial_prev_l2_block_hash initial_state_root
     prev_commitment prev_proof commitments prune_heights forks = do {
     pk \<leftarrow> pub_key_try_from_slice E key;
     first \<leftarrow> index commitments 0;
     prev_hash \<leftarrow> initial_prev_hash E initial_prev_l2_block_hash initial_state_root prev_commitment prev_proof;
     (group_count, host1) \<leftarrow> read_u32 host;
     assert_that (group_count = of_nat (length commitments));
     activation \<leftarrow> first_proving_height forks;
     (previous_end, previous_index, previous_hash) \<leftarrow> previous_commitment_info E prev_commitment first activation;
     let first_height = previous_end + 1;
     (st, last_end, roots, _) \<leftarrow> apply_commitments E R S pk commitments
        \<lparr> bs_runtime = rt, bs_state_root = initial_state_root, bs_state_diff = [], bs_prev_hash = prev_hash,
          bs_fork_manager = ForkManager_new forks first_height, bs_state_log = None, bs_offchain_log = None,
          bs_prune_heights = prune_heights, bs_l2_height = first_height, bs_block_hashes = [] \<rparr>
        previous_end first_height [initial_state_root] host1;
     final_hash \<leftarrow> bs_prev_hash st;
     log \<leftarrow> bs_state_log st;
     Some \<lparr> aso_state_roots = roots, aso_state_diff = bs_state_diff st, aso_last_l2_height = last_end,
            aso_final_l2_block_hash = final_hash,
            aso_sequencer_commitment_hashes = map (serialize_and_calculate_sha_256 E) commitments,
            aso_sequencer_commitment_index_range = (sc_index first, sc_index (last commitments)),
            aso_cumulative_state_log = log, aso_previous_commitment_index = previous_index,
            aso_previous_commitment_hash = previous_hash \<rparr>
   }"

subsection \<open>One block, in the terms of programs\<close>

lemma run_prog_bind:
  "run_prog (prog_bind p f) ws = (case run_prog p ws of None \<Rightarrow> None | Some (a, ws') \<Rightarrow> run_prog (f a) ws')"
  by (induction p arbitrary: ws) (auto split: option.splits)

lemma ws_with_empty_logs:
  "ws_with_witness ops sw ow = ws_with_witness_and_log ops sw ow empty_read_write_log empty_read_write_log"
  by (simp add: ws_with_witness_def ws_with_witness_and_log_def cp_with_witness_def cp_with_witness_and_log_def
      sd_with_witness_def sd_with_witness_and_log_def od_with_witness_def od_with_witness_and_log_def
      into_cache_log_def empty_read_write_log_def mark_all_as_read_def)

definition log_or_empty :: "read_write_log option \<Rightarrow> read_write_log" where
  "log_or_empty l = (case l of None \<Rightarrow> empty_read_write_log | Some l' \<Rightarrow> l')"

text \<open>The offchain log is only used together with a state log.\<close>

definition offchain_or_empty :: "read_write_log option \<Rightarrow> read_write_log option \<Rightarrow> read_write_log" where
  "offchain_or_empty slog olog = (if slog = None then empty_read_write_log else log_or_empty olog)"

lemma initial_working_set_iff:
  "initial_working_set ops sw ow slog olog = Some ws \<longleftrightarrow>
     (slog \<noteq> None \<longrightarrow> olog \<noteq> None) \<and>
     ws = ws_with_witness_and_log ops sw ow (log_or_empty slog) (offchain_or_empty slog olog)"
  by (auto simp: initial_working_set_def log_or_empty_def offchain_or_empty_def ws_with_empty_logs split: option.splits)

lemma run_accessory_frame:
  "run_accessory n p ws = Some ws' \<Longrightarrow> ws_archival_accessory ws = None \<Longrightarrow> ws_offchain ws' = ws_offchain ws"
proof (induction p arbitrary: ws)
  case (AGet k f)
  then show ?case by (auto split: option.splits)
qed (auto simp: accessory_set_def accessory_delete_def)

text \<open>Inside the guest a read of accessory state answers nothing, so the finalize hook cannot panic.\<close>

lemma run_accessory_guest: "\<exists>ws'. run_accessory False p ws = Some ws'"
  by (induction p arbitrary: ws) (auto simp: accessory_get_def)

lemma frozen_offchain_hook:
  assumes "run_accessory n p (to_revertable (snd (cp_freeze (ws_checkpoint ws)))) = Some ws'"
  shows "fst (cp_freeze_offchain (snd (cp_freeze_non_provable (ws_checkpoint ws')))) = frozen_offchain ws"
  using run_accessory_frame [OF assms]
  by (simp add: to_revertable_def cp_freeze_def ws_checkpoint_def sd_freeze_def cp_freeze_non_provable_def ad_freeze_def
      cp_freeze_offchain_def frozen_offchain_def od_commit_def od_freeze_def)

lemma finalize_iff:
  "finalize_l2_block R rt S ws = Some res \<longleftrightarrow>
   (\<exists>tr upd diff w ws'. ss_compute_state_update S (fst (frozen ws)) (snd (frozen ws)) True = Some (Ok (tr, upd, diff, w))
     \<and> run_accessory (ss_native S) (rt_finalize_hook R rt (final_root tr)) (to_revertable (snd (cp_freeze (ws_checkpoint ws)))) = Some ws'
     \<and> res = \<lparr> res_state_root_transition = tr, res_state_log = fst (frozen ws), res_offchain_log = fst (frozen_offchain ws),
         res_change_set = ss_commit S upd (fst (cp_freeze_non_provable (ws_checkpoint ws'))) (fst (frozen_offchain ws)),
         res_witness = w, res_offchain_witness = snd (frozen_offchain ws), res_state_diff = diff \<rparr>)"
  (is "?l = ?r")
proof -
  have "?l \<longleftrightarrow> (\<exists>tr upd diff w ws'. ss_compute_state_update S (fst (frozen ws)) (snd (frozen ws)) True = Some (Ok (tr, upd, diff, w))
     \<and> run_accessory (ss_native S) (rt_finalize_hook R rt (final_root tr)) (to_revertable (snd (cp_freeze (ws_checkpoint ws)))) = Some ws'
     \<and> res = \<lparr> res_state_root_transition = tr, res_state_log = fst (frozen ws),
         res_offchain_log = fst (fst (cp_freeze_offchain (snd (cp_freeze_non_provable (ws_checkpoint ws'))))),
         res_change_set = ss_commit S upd (fst (cp_freeze_non_provable (ws_checkpoint ws')))
           (fst (fst (cp_freeze_offchain (snd (cp_freeze_non_provable (ws_checkpoint ws')))))),
         res_witness = w, res_offchain_witness = snd (fst (cp_freeze_offchain (snd (cp_freeze_non_provable (ws_checkpoint ws'))))),
         res_state_diff = diff \<rparr>)"
    unfolding finalize_l2_block_def Let_def frozen_def case_prod_beta
    by (auto simp: panic_simps case_prod_beta)
  also have "\<dots> \<longleftrightarrow> ?r" using frozen_offchain_hook by (intro iff_exI conj_cong refl) simp
  finally show ?thesis .
qed

lemma apply_l2_block_iff:
  "apply_l2_block E R rt S spec pk pre slog olog sw ow b = Some (Ok res, rt') \<longleftrightarrow>
   (slog \<noteq> None \<longrightarrow> olog \<noteq> None) \<and> verify_l2_block E b pk spec = Some (Ok ()) \<and>
   (\<exists>ws'. run_prog (block_prog E R (HookL2BlockInfo_new b pre spec pk) (lb_txs b) rt)
       (ws_with_witness_and_log (ss_ops S) sw ow (log_or_empty slog) (offchain_or_empty slog olog)) = Some ((Ok (), rt'), ws')
     \<and> finalize_l2_block R rt' S ws' = Some res)"
  unfolding apply_l2_block_def Let_def
  by (auto simp: panic_simps initial_working_set_iff)

lemma apply_prover_native_block:
  assumes "apply_l2_block E R rt (prover_stf_storage B V T s commit) spec pk pre slog olog [] [] b = Some (Ok res, rt')"
  shows "native_block B V T s (log_or_empty slog) (offchain_or_empty slog olog)
      (block_prog E R (HookL2BlockInfo_new b pre spec pk) (lb_txs b) rt) =
    Some ((Ok (), rt'), res_state_root_transition res, res_state_diff res, res_state_log res, res_offchain_log res,
      res_witness res, res_offchain_witness res)"
  using assms
  by (auto simp: apply_l2_block_iff finalize_iff prover_stf_storage_def native_block_def Let_def case_prod_beta)

lemma apply_zk_iff:
  "apply_l2_block E R rt (zk_stf_storage B V) spec pk pre slog olog sw ow b = Some (Ok res, rt') \<longleftrightarrow>
   (slog \<noteq> None \<longrightarrow> olog \<noteq> None) \<and> verify_l2_block E b pk spec = Some (Ok ()) \<and>
   zk_block B V (log_or_empty slog) (offchain_or_empty slog olog) sw ow
      (block_prog E R (HookL2BlockInfo_new b pre spec pk) (lb_txs b) rt) =
    Some ((Ok (), rt'), res_state_root_transition res, res_state_diff res, res_state_log res, res_offchain_log res,
      res_witness res, res_offchain_witness res)"
  (is "_ = (?logs \<and> ?verified \<and> ?block)")
proof -
  have "(\<exists>ws'. run_prog (block_prog E R (HookL2BlockInfo_new b pre spec pk) (lb_txs b) rt)
       (ws_with_witness_and_log (zk_storage_ops B) sw ow (log_or_empty slog) (offchain_or_empty slog olog)) = Some ((Ok (), rt'), ws')
     \<and> finalize_l2_block R rt' (zk_stf_storage B V) ws' = Some res) \<longleftrightarrow> ?block"
    using run_accessory_guest
    by (auto simp: finalize_iff zk_stf_storage_def zk_block_def Let_def case_prod_beta panic_simps
        intro!: l2_block_result.equality)
  then show ?thesis by (simp add: apply_l2_block_iff zk_stf_storage_def)
qed

text \<open>The state a block leaves, by the abstract run of its program.\<close>

lemma block_applied:
  assumes "jmt_sound V root_of tree_get"
    and "apply_l2_block E R rt (zk_stf_storage B V) spec pk pre slog olog sw ow b = Some (Ok res, rt')"
    and "init_root (res_state_root_transition res) = root_of t"
    and "bm_inv (rw_cache_log (log_or_empty slog))"
    and "log_consistent (state_of V tree_get t) (into_cache_log (log_or_empty slog))"
    and "inj_on (key_hash V) (log_keys (res_state_log res))"
  shows "\<exists>t' os cur chk.
    spec_prog (block_prog E R (HookL2BlockInfo_new b pre spec pk) (lb_txs b) rt) os
      (state_of V tree_get t) (state_of V tree_get t) = Some ((Ok (), rt'), cur, chk) \<and>
    final_root (res_state_root_transition res) = root_of t' \<and>
    apply_writes (state_of V tree_get t) (res_state_diff res) = cur \<and>
    (\<forall>k. inj_on (key_hash V) (insert k (log_keys (res_state_log res))) \<longrightarrow> state_of V tree_get t' k = cur k) \<and>
    bm_inv (rw_cache_log (res_state_log res)) \<and>
    log_consistent (state_of V tree_get t') (into_cache_log (res_state_log res))"
  by (rule block_sound [OF assms(1) assms(2) [unfolded apply_zk_iff, THEN conjunct2, THEN conjunct2] assms(3-6)])

subsection \<open>The blocks the guest applied\<close>

text \<open>A trace lists the blocks of a run of the loop, each with the fork it was applied under and its result.\<close>

type_synonym 'c block_entry = "l2_block \<times> spec_id \<times> 'c l2_block_result"

inductive block_trace ::
  "l2_env \<Rightarrow> ('r, 'msg, 'ctx) runtime \<Rightarrow> ('n, 'c) stf_storage \<Rightarrow> pub_key \<Rightarrow>
   'r batch_state \<Rightarrow> 'c block_entry list \<Rightarrow> 'r batch_state \<Rightarrow> bool"
  for E R S pk where
  trace_end: "block_trace E R S pk st [] st"
| trace_block: "apply_checked_block E R S pk st (b, sw, ow) = Some (res, rt, fm) \<Longrightarrow> record_block st b res rt fm = Some st1 \<Longrightarrow>
    active_fork fm = Some f \<Longrightarrow> block_trace E R S pk st1 es st2 \<Longrightarrow>
    block_trace E R S pk st ((b, fork_spec_id f, res) # es) st2"

inductive commitment_trace ::
  "l2_env \<Rightarrow> ('r, 'msg, 'ctx) runtime \<Rightarrow> ('n, 'c) stf_storage \<Rightarrow> pub_key \<Rightarrow>
   'r batch_state \<Rightarrow> (sequencer_commitment \<times> 'c block_entry list) list \<Rightarrow> hash32 list \<Rightarrow> 'r batch_state \<Rightarrow> bool"
  for E R S pk where
  commitments_end: "commitment_trace E R S pk st [] [] st"
| commitment: "block_trace E R S pk (st \<lparr> bs_block_hashes := [] \<rparr>) es st1 \<Longrightarrow>
    rs_merkle_root E (l2_sha256 E) (bs_block_hashes st1) = Some (sc_merkle_root c) \<Longrightarrow>
    sc_l2_end_block_number c = bs_l2_height st1 - 1 \<Longrightarrow>
    commitment_trace E R S pk st1 gs roots st2 \<Longrightarrow>
    commitment_trace E R S pk st ((c, es) # gs) (bs_state_root st1 # roots) st2"

lemma checked_block_active:
  "apply_checked_block E R S pk st item = Some (res, rt, fm) \<Longrightarrow> \<exists>f. active_fork fm = Some f"
  by (auto simp: apply_checked_block_def panic_simps split: prod.splits)

lemma apply_block_steps_trace:
  "apply_block_steps E R S pk n st host = Some (st', host') \<Longrightarrow> \<exists>es. block_trace E R S pk st es st' \<and> length es = n"
proof (induction n arbitrary: st host)
  case 0
  then show ?case by (auto intro: block_trace.intros)
next
  case (Suc n)
  then obtain b sw ow host2 res rt fm st1 where
    step: "apply_checked_block E R S pk st (b, sw, ow) = Some (res, rt, fm)" "record_block st b res rt fm = Some st1" and
    rest: "apply_block_steps E R S pk n st1 host2 = Some (st', host')"
    by (auto simp: panic_simps apply_block_step_def split: prod.splits)
  from Suc.IH [OF rest] obtain es where "block_trace E R S pk st1 es st'" "length es = n" by blast
  with step checked_block_active [OF step(1)] show ?case
    by (metis block_trace.trace_block length_Cons)
qed

lemma apply_commitments_trace:
  "apply_commitments E R S pk cs st last_end start roots host = Some (st', last_end', roots', host') \<Longrightarrow>
   start = bs_l2_height st \<Longrightarrow>
   \<exists>gs rs. commitment_trace E R S pk st gs rs st' \<and> map fst gs = cs \<and> roots' = roots @ rs
     \<and> last_end' = (if cs = [] then last_end else sc_l2_end_block_number (last cs))"
proof (induction cs arbitrary: st last_end start roots host)
  case Nil
  then show ?case by (auto intro: commitment_trace.intros)
next
  case (Cons c cs)
  then obtain n host1 st1 host2 where
    steps: "apply_block_steps E R S pk n (st \<lparr> bs_block_hashes := [] \<rparr>) host1 = Some (st1, host2)" and
    ok: "rs_merkle_root E (l2_sha256 E) (bs_block_hashes st1) = Some (sc_merkle_root c)"
      "sc_l2_end_block_number c = bs_l2_height st1 - 1" and
    rest: "apply_commitments E R S pk cs st1 (sc_l2_end_block_number c) (bs_l2_height st1)
      (roots @ [bs_state_root st1]) host2 = Some (st', last_end', roots', host')"
    by (auto simp: panic_simps assert_that_def split: if_splits)
  from apply_block_steps_trace [OF steps] obtain es where "block_trace E R S pk (st \<lparr> bs_block_hashes := [] \<rparr>) es st1" by blast
  moreover from Cons.IH [OF rest refl] obtain gs rs where
    "commitment_trace E R S pk st1 gs rs st'" "map fst gs = cs" "roots' = roots @ bs_state_root st1 # rs"
    "last_end' = (if cs = [] then sc_l2_end_block_number c else sc_l2_end_block_number (last cs))" by auto
  ultimately show ?case
    using commitment_trace.commitment [of E R S pk st es st1 c gs rs st'] ok
    by (intro exI [of _ "(c, es) # gs"] exI [of _ "bs_state_root st1 # rs"]) auto
qed

text \<open>What the loop has checked of the blocks: consecutive heights, hashes that link them, the digest, the
  sequencer's signature and the transaction root.\<close>

fun chain_ok :: "l2_env \<Rightarrow> pub_key \<Rightarrow> hash32 option \<Rightarrow> u64 \<Rightarrow> 'c block_entry list \<Rightarrow> bool" where
  "chain_ok E pk prev height [] \<longleftrightarrow> True"
| "chain_ok E pk prev height ((b, spec, res) # es) \<longleftrightarrow>
     lb_height b = height \<and> (prev = None \<or> prev = Some (lb_prev_hash b)) \<and> verify_l2_block E b pk spec = Some (Ok ())
     \<and> chain_ok E pk (Some (lb_hash b)) (height + 1) es"

definition last_hash :: "hash32 option \<Rightarrow> 'c block_entry list \<Rightarrow> hash32 option" where
  "last_hash prev es = (if es = [] then prev else Some (lb_hash (fst (last es))))"

lemma chain_ok_append:
  "chain_ok E pk prev height (es @ es') \<longleftrightarrow>
     chain_ok E pk prev height es \<and> chain_ok E pk (last_hash prev es) (height + of_nat (length es)) es'"
  by (induction E pk prev height es rule: chain_ok.induct) (auto simp: last_hash_def algebra_simps)

lemma last_hash_append: "last_hash prev (es @ es') = last_hash (last_hash prev es) es'"
  by (simp add: last_hash_def)

lemma checked_block_ok:
  assumes "apply_checked_block E R S pk st (b, sw, ow) = Some (res, rt, fm)" "active_fork fm = Some f"
  shows "lb_height b = bs_l2_height st" "bs_prev_hash st = None \<or> bs_prev_hash st = Some (lb_prev_hash b)"
    "register_block (bs_fork_manager st) (bs_l2_height st) = Some (fm, Ok ())"
    "apply_l2_block E R (bs_runtime st) S (fork_spec_id f) pk (bs_state_root st)
       (bs_state_log st) (bs_offchain_log st) sw ow b = Some (Ok res, rt)"
    "verify_l2_block E b pk (fork_spec_id f) = Some (Ok ())"
  using assms by (auto simp: apply_checked_block_def panic_simps assert_that_def apply_l2_block_iff
      split: if_splits option.splits prod.splits)

lemma record_block_Some:
  assumes "record_block st b res rt fm = Some st1"
  shows "bs_l2_height st1 = bs_l2_height st + 1" "bs_prev_hash st1 = Some (lb_hash b)" "bs_runtime st1 = rt"
    "bs_fork_manager st1 = fm" "bs_block_hashes st1 = bs_block_hashes st @ [lb_hash b]"
    "bs_state_root st1 = lb_state_root b" "bs_state_root st = init_root (res_state_root_transition res)"
    "final_root (res_state_root_transition res) = lb_state_root b"
    "bs_state_diff st1 = extend_diff (bs_state_diff st) (res_state_diff res)"
    "\<exists>log. bs_state_log st1 = Some log \<and> (log = res_state_log res \<or> rw_prune_half (res_state_log res) = Some log)"
  using assms by (auto simp: record_block_def panic_simps assert_that_def Let_def split: if_splits prod.splits)

lemma block_trace_ok:
  assumes "block_trace E R S pk st es st'"
  shows "chain_ok E pk (bs_prev_hash st) (bs_l2_height st) es" "bs_prev_hash st' = last_hash (bs_prev_hash st) es"
    "bs_l2_height st' = bs_l2_height st + of_nat (length es)"
    "bs_block_hashes st' = bs_block_hashes st @ map (\<lambda>e. lb_hash (fst e)) es"
  using assms
proof (induction rule: block_trace.induct)
  case (trace_block st b sw ow res rt fm st1 f es st2)
  note ok = checked_block_ok [OF trace_block(1,3)] record_block_Some [OF trace_block(2)]
  { case 1 show ?case using ok trace_block.IH(1) by simp }
  { case 2 show ?case using ok trace_block.IH(2) by (simp add: last_hash_def) }
  { case 3 show ?case using ok trace_block.IH(3) by simp }
  { case 4 show ?case using ok trace_block.IH(4) by simp }
qed (simp_all add: last_hash_def)

definition group_entries :: "(sequencer_commitment \<times> 'c block_entry list) list \<Rightarrow> 'c block_entry list" where
  "group_entries gs = concat (map snd gs)"

lemma group_entries_simps [simp]:
  "group_entries [] = []" "group_entries ((c, es) # gs) = es @ group_entries gs"
  by (simp_all add: group_entries_def)

text \<open>A commitment covers the blocks after those of the commitments before it, up to its end height, and
  its root is the Merkle root of their hashes.\<close>

fun commitments_cover :: "l2_env \<Rightarrow> u64 \<Rightarrow> (sequencer_commitment \<times> 'c block_entry list) list \<Rightarrow> bool" where
  "commitments_cover E height [] \<longleftrightarrow> True"
| "commitments_cover E height ((c, es) # gs) \<longleftrightarrow>
     rs_merkle_root E (l2_sha256 E) (map (\<lambda>e. lb_hash (fst e)) es) = Some (sc_merkle_root c)
     \<and> sc_l2_end_block_number c = height + of_nat (length es) - 1
     \<and> commitments_cover E (height + of_nat (length es)) gs"

lemma commitment_trace_ok:
  assumes "commitment_trace E R S pk st gs roots st'"
  shows "chain_ok E pk (bs_prev_hash st) (bs_l2_height st) (group_entries gs)"
    "bs_prev_hash st' = last_hash (bs_prev_hash st) (group_entries gs)"
    "commitments_cover E (bs_l2_height st) gs" "length roots = length gs"
  using assms
proof (induction rule: commitment_trace.induct)
  case (commitment st es st1 c gs roots st2)
  note ok = block_trace_ok [OF commitment(1), simplified]
  { case 1 show ?case using ok commitment.IH(1) by (simp add: chain_ok_append) }
  { case 2 show ?case using ok commitment.IH(2) by (simp add: last_hash_append) }
  { case 3 show ?case using ok commitment.IH(3) commitment(2,3) by simp }
  { case 4 show ?case using commitment.IH(4) by simp }
qed (simp_all add: last_hash_def)

subsection \<open>What the applied blocks do to the state\<close>

text \<open>
  The blocks of a trace, executed one after another on the states of trees: each block's program, run on plain
  functions, succeeds and leaves the state of a tree whose root the block's header names. The states are compared on the keys of
  \<open>K\<close>, which the theorem chooses so that their hashes differ.
\<close>

inductive executes ::
  "l2_env \<Rightarrow> ('r, 'msg, 'ctx) runtime \<Rightarrow> pub_key \<Rightarrow> ('t \<Rightarrow> base_state) \<Rightarrow> ('t \<Rightarrow> hash32) \<Rightarrow> cache_key set \<Rightarrow>
   'r \<Rightarrow> 't \<Rightarrow> 'c block_entry list \<Rightarrow> 'r \<Rightarrow> 't \<Rightarrow> bool"
  for E R pk state root K where
  exec_end: "executes E R pk state root K rt t [] rt t"
| exec_block: "spec_prog (block_prog E R (HookL2BlockInfo_new b (root t) spec pk) (lb_txs b) rt) os (state t) (state t) =
      Some ((Ok (), rt1), cur, chk) \<Longrightarrow>
    root t1 = lb_state_root b \<Longrightarrow> \<forall>k \<in> K. state t1 k = cur k \<Longrightarrow> executes E R pk state root K rt1 t1 es rt2 t2 \<Longrightarrow>
    executes E R pk state root K rt t ((b, spec, res) # es) rt2 t2"

definition entry_keys :: "'c block_entry list \<Rightarrow> cache_key set" where
  "entry_keys es = (\<Union>e \<in> set es. log_keys (res_state_log (snd (snd e))))"

lemma prune_consistent:
  assumes "rw_prune_half log = Some log'" "bm_inv (rw_cache_log log)" "log_consistent base (into_cache_log log)"
  shows "bm_inv (rw_cache_log log') \<and> log_consistent base (into_cache_log log')"
proof -
  let ?c = "rw_cache_log log" and ?n = "length (rw_cache_log log) div 2"
  have c: "rw_cache_log log' = take ?n ?c"
    using assms(1,2) by (auto simp: rw_prune_half_def prune_half_take)
  have inv: "bm_inv (take ?n ?c)"
    using assms(2) by (simp add: bm_inv_def take_map [symmetric] sorted_wrt_take)
  have sub: "bm_get ?c k = Some a" if "bm_get (take ?n ?c) k = Some a" for k a
    using that bm.distinct_entries [OF assms(2)] set_take_subset [of ?n ?c]
    by (auto simp: bm_get_def map_of_eq_Some_iff dest: map_of_SomeD)
  have "log_consistent base (into_cache_log log')"
  proof (rule log_consistentI)
    fix k a v assume a: "bm_get (into_cache_log log') k = Some a" "first_read a = Some v"
    then obtain a0 where "bm_get (take ?n ?c) k = Some a0" "a = Read (last_value a0)"
      by (auto simp: into_cache_log_def bm_get_mark c)
    with sub have "bm_get (into_cache_log log) k = Some a" by (simp add: into_cache_log_def bm_get_mark)
    from log_consistentD [OF assms(3) this a(2)] show "base k = v" .
  qed
  with inv c show ?thesis by simp
qed

text \<open>A state diff over a base state.\<close>

definition diff_view :: "(bytes, bytes option) bmap \<Rightarrow> base_state \<Rightarrow> base_state" where
  "diff_view m base = (\<lambda>k. case bm_get m k of Some v \<Rightarrow> v | None \<Rightarrow> base k)"

lemma extend_diff_view:
  "bm_inv m \<Longrightarrow> bm_inv (extend_diff m d) \<and> diff_view (extend_diff m d) base = apply_writes (diff_view m base) d"
proof (induction d arbitrary: m)
  case (Cons e d)
  obtain k v where e: "e = (k, v)" by (cases e)
  have "diff_view (bm_insert k v m) base = (diff_view m base)(k := v)"
    using Cons.prems by (auto simp: diff_view_def fun_eq_iff)
  with Cons.IH [of "bm_insert k v m"] Cons.prems show ?case
    by (simp add: extend_diff_def apply_writes_def e fun_upd_def)
qed (simp add: extend_diff_def apply_writes_def)

lemma apply_writes_cong: "b k = b' k \<Longrightarrow> apply_writes b d k = apply_writes b' d k"
proof (induction d arbitrary: b b')
  case (Cons e d)
  obtain k' v where e: "e = (k', v)" by (cases e)
  from Cons.prems have "(b(k' := v)) k = (b'(k' := v)) k" by simp
  with Cons.IH [of "b(k' := v)" "b'(k' := v)"] show ?case by (simp add: apply_writes_def e fun_upd_def)
qed (simp add: apply_writes_def)

definition trusted :: "('t \<Rightarrow> base_state) \<Rightarrow> ('t \<Rightarrow> hash32) \<Rightarrow> cache_key set \<Rightarrow> base_state \<Rightarrow> 'r batch_state \<Rightarrow> 't \<Rightarrow> bool" where
  "trusted state root K base st t \<longleftrightarrow>
     bs_state_root st = root t \<and> bm_inv (rw_cache_log (log_or_empty (bs_state_log st)))
     \<and> log_consistent (state t) (into_cache_log (log_or_empty (bs_state_log st)))
     \<and> bm_inv (bs_state_diff st) \<and> (\<forall>k \<in> K. state t k = diff_view (bs_state_diff st) base k)"

lemma step_trusted:
  assumes "jmt_sound V root tree_get" "inj_on (key_hash V) K" "log_keys (res_state_log res) \<subseteq> K"
    and "trusted (state_of V tree_get) root K base st t"
    and "apply_l2_block E R (bs_runtime st) (zk_stf_storage B V) spec pk (bs_state_root st)
       (bs_state_log st) (bs_offchain_log st) sw ow b = Some (Ok res, rt)"
    and "record_block st b res rt fm = Some st1"
  obtains t1 os cur chk where
    "spec_prog (block_prog E R (HookL2BlockInfo_new b (root t) spec pk) (lb_txs b) (bs_runtime st)) os
       (state_of V tree_get t) (state_of V tree_get t) = Some ((Ok (), rt), cur, chk)"
    "root t1 = lb_state_root b" "\<forall>k \<in> K. state_of V tree_get t1 k = cur k"
    "trusted (state_of V tree_get) root K base st1 t1"
proof -
  note st = assms(4) [unfolded trusted_def] and rec = record_block_Some [OF assms(6)]
  have inj: "inj_on (key_hash V) (log_keys (res_state_log res))" using assms(2,3) by (rule inj_on_subset)
  from st rec have "init_root (res_state_root_transition res) = root t" by simp
  from block_applied [OF assms(1,5) this _ _ inj] st obtain t1 os cur chk where
    spec: "spec_prog (block_prog E R (HookL2BlockInfo_new b (root t) spec pk) (lb_txs b) (bs_runtime st)) os
       (state_of V tree_get t) (state_of V tree_get t) = Some ((Ok (), rt), cur, chk)" and
    root: "final_root (res_state_root_transition res) = root t1" and
    diff: "apply_writes (state_of V tree_get t) (res_state_diff res) = cur" and
    state: "\<And>k. inj_on (key_hash V) (insert k (log_keys (res_state_log res))) \<Longrightarrow> state_of V tree_get t1 k = cur k" and
    log: "bm_inv (rw_cache_log (res_state_log res))" "log_consistent (state_of V tree_get t1) (into_cache_log (res_state_log res))"
    by auto
  have cur: "state_of V tree_get t1 k = cur k" if "k \<in> K" for k
    using that assms(3) by (intro state inj_on_subset [OF assms(2)]) auto
  have "state_of V tree_get t1 k = diff_view (bs_state_diff st1) base k" if "k \<in> K" for k
  proof -
    have "cur k = apply_writes (diff_view (bs_state_diff st) base) (res_state_diff res) k"
      unfolding diff [symmetric] using st that by (intro apply_writes_cong) blast
    with cur [OF that] st rec extend_diff_view [of "bs_state_diff st" "res_state_diff res" base] show ?thesis by simp
  qed
  note diffs = this
  obtain log' where log': "bs_state_log st1 = Some log'" "log' = res_state_log res \<or> rw_prune_half (res_state_log res) = Some log'"
    using rec(10) by blast
  have "bm_inv (rw_cache_log log') \<and> log_consistent (state_of V tree_get t1) (into_cache_log log')"
    using log'(2) log prune_consistent [OF _ log] by blast
  moreover have "bm_inv (bs_state_diff st1)"
    using extend_diff_view [of "bs_state_diff st" "res_state_diff res"] st rec(9) by simp
  moreover have "bs_state_root st1 = root t1" using rec(6,8) root by simp
  ultimately have tr: "trusted (state_of V tree_get) root K base st1 t1"
    unfolding trusted_def log'(1) log_or_empty_def option.case using diffs by blast
  have "root t1 = lb_state_root b" using root rec(8) by simp
  from that [OF spec this _ tr] cur show thesis by blast
qed

lemma trace_executes:
  assumes "block_trace E R (zk_stf_storage B V) pk st es st'"
    and "jmt_sound V root tree_get" "inj_on (key_hash V) K"
    and "entry_keys es \<subseteq> K" "trusted (state_of V tree_get) root K base st t"
  shows "\<exists>t'. executes E R pk (state_of V tree_get) root K (bs_runtime st) t es (bs_runtime st') t'
    \<and> trusted (state_of V tree_get) root K base st' t'"
  using assms
proof (induction arbitrary: t rule: block_trace.induct)
  case (trace_end st)
  then show ?case by (blast intro: executes.exec_end)
next
  case (trace_block st b sw ow res rt fm st1 f es st2)
  note ok = checked_block_ok [OF trace_block(1,3)]
  have keys: "log_keys (res_state_log res) \<subseteq> K" "entry_keys es \<subseteq> K"
    using trace_block.prems(3) by (simp_all add: entry_keys_def)
  obtain t1 os cur chk where step:
    "spec_prog (block_prog E R (HookL2BlockInfo_new b (root t) (fork_spec_id f) pk) (lb_txs b) (bs_runtime st)) os
       (state_of V tree_get t) (state_of V tree_get t) = Some ((Ok (), rt), cur, chk)"
    "root t1 = lb_state_root b" "\<forall>k \<in> K. state_of V tree_get t1 k = cur k"
    and tr: "trusted (state_of V tree_get) root K base st1 t1"
    by (rule step_trusted [OF trace_block.prems(1,2) keys(1) trace_block.prems(4) ok(4) trace_block(2)])
  from trace_block.IH [OF trace_block.prems(1,2) keys(2) tr] obtain t2 where
    "executes E R pk (state_of V tree_get) root K (bs_runtime st1) t1 es (bs_runtime st2) t2"
    "trusted (state_of V tree_get) root K base st2 t2" by blast
  with executes.exec_block [OF step] record_block_Some(3) [OF trace_block(2)] show ?case by metis
qed

text \<open>The same for the blocks of a list of commitments, with the tree after each of them.\<close>

inductive executes_groups ::
  "l2_env \<Rightarrow> ('r, 'msg, 'ctx) runtime \<Rightarrow> pub_key \<Rightarrow> ('t \<Rightarrow> base_state) \<Rightarrow> ('t \<Rightarrow> hash32) \<Rightarrow> cache_key set \<Rightarrow>
   'r \<Rightarrow> 't \<Rightarrow> (sequencer_commitment \<times> 'c block_entry list) list \<Rightarrow> 't list \<Rightarrow> bool"
  for E R pk state root K where
  groups_end: "executes_groups E R pk state root K rt t [] []"
| groups_next: "executes E R pk state root K rt t es rt1 t1 \<Longrightarrow> executes_groups E R pk state root K rt1 t1 gs ts \<Longrightarrow>
    executes_groups E R pk state root K rt t ((c, es) # gs) (t1 # ts)"

lemma trusted_hashes [simp]: "trusted state root K base (st \<lparr> bs_block_hashes := hs \<rparr>) t \<longleftrightarrow> trusted state root K base st t"
  by (simp add: trusted_def)

lemma commitments_execute:
  assumes "commitment_trace E R (zk_stf_storage B V) pk st gs roots st'"
    and "jmt_sound V root tree_get" "inj_on (key_hash V) K"
    and "entry_keys (group_entries gs) \<subseteq> K" "trusted (state_of V tree_get) root K base st t"
  shows "\<exists>ts. executes_groups E R pk (state_of V tree_get) root K (bs_runtime st) t gs ts \<and> roots = map root ts
    \<and> trusted (state_of V tree_get) root K base st' (last (t # ts))"
  using assms
proof (induction arbitrary: t rule: commitment_trace.induct)
  case (commitments_end st)
  then show ?case by (intro exI [of _ "[]"]) (simp add: executes_groups.groups_end)
next
  case (commitment st es st1 c gs roots st2)
  have keys: "entry_keys es \<subseteq> K" "entry_keys (group_entries gs) \<subseteq> K"
    using commitment.prems(3) by (auto simp: entry_keys_def)
  have "trusted (state_of V tree_get) root K base (st \<lparr> bs_block_hashes := [] \<rparr>) t"
    using commitment.prems(4) by simp
  from trace_executes [OF commitment(1) commitment.prems(1,2) keys(1) this] obtain t1 where
    ex: "executes E R pk (state_of V tree_get) root K (bs_runtime st) t es (bs_runtime st1) t1" and
    tr: "trusted (state_of V tree_get) root K base st1 t1" by auto
  from commitment.IH [OF commitment.prems(1,2) keys(2) tr] obtain ts where
    "executes_groups E R pk (state_of V tree_get) root K (bs_runtime st1) t1 gs ts" "roots = map root ts"
    "trusted (state_of V tree_get) root K base st2 (last (t1 # ts))" by blast
  with executes_groups.groups_next [OF ex] tr show ?case
    by (intro exI [of _ "t1 # ts"]) (simp add: trusted_def)
qed

text \<open>The fork a block is applied under is the one its height selects.\<close>

definition forks_selected :: "fork list \<Rightarrow> 'c block_entry list \<Rightarrow> bool" where
  "forks_selected forks es \<longleftrightarrow>
     (\<forall>(b, spec, res) \<in> set es. spec = fork_spec_id (forks ! fork_pos_from_block_number forks (lb_height b)))"

lemma register_block_same: "at_height m h \<Longrightarrow> register_block m h = Some (m, Ok ())"
proof -
  assume a: "at_height m h"
  let ?p = "active_fork_idx m"
  have p: "?p < length (fm_forks m)" "?p = fork_pos_from_block_number (fm_forks m) h"
    using a fork_pos_bounds by (auto simp: at_height_def)
  then have "h < activation_height (fm_forks m ! Suc ?p)" if "Suc ?p < length (fm_forks m)"
    using that a fork_pos_above [of "fm_forks m" h] by (auto simp: at_height_def)
  with p(1) show ?thesis by (auto simp: register_block_def index_def)
qed

definition manager_ok :: "fork list \<Rightarrow> 'r batch_state \<Rightarrow> bool" where
  "manager_ok forks st \<longleftrightarrow>
     fm_forks (bs_fork_manager st) = forks \<and> migration_handlers (bs_fork_manager st) = []
     \<and> (at_height (bs_fork_manager st) (bs_l2_height st)
        \<or> bs_l2_height st \<noteq> 0 \<and> at_height (bs_fork_manager st) (bs_l2_height st - 1))"

lemma register_block_manager:
  assumes "manager_ok forks st" "register_block (bs_fork_manager st) (bs_l2_height st) = Some (fm, Ok ())"
  shows "at_height fm (bs_l2_height st)" "fm_forks fm = forks" "migration_handlers fm = []"
proof -
  let ?m = "bs_fork_manager st" and ?h = "bs_l2_height st"
  show "fm_forks fm = forks" "migration_handlers fm = []"
    using register_block_frame [OF assms(2)] assms(1) by (auto simp: manager_ok_def)
  show "at_height fm ?h"
  proof (cases "at_height ?m ?h")
    case True
    with register_block_same [OF True] assms(2) show ?thesis by simp
  next
    case False
    then have "at_height ?m (?h - 1)" "?h - 1 \<noteq> - 1" "\<forall>g \<in> set (migration_handlers ?m). \<forall>f. g f = Ok ()"
      using assms(1) by (auto simp: manager_ok_def)
    from register_block_at_height [OF this] assms(2) show ?thesis by auto
  qed
qed

lemma trace_forks:
  assumes "block_trace E R S pk st es st'" "manager_ok forks st" "unat (bs_l2_height st) + length es < 2 ^ 64"
  shows "forks_selected forks es \<and> manager_ok forks st'"
  using assms
proof (induction rule: block_trace.induct)
  case (trace_end st)
  then show ?case by (simp add: forks_selected_def)
next
  case (trace_block st b sw ow res rt fm st1 f es st2)
  note ok = checked_block_ok [OF trace_block(1,3)] and rec = record_block_Some [OF trace_block(2)]
  note fm = register_block_manager [OF trace_block.prems(1) ok(3)]
  have ne: "bs_l2_height st \<noteq> - 1" using trace_block.prems(2) by (auto simp: unat_max_word)
  then have inc: "unat (bs_l2_height st1) = unat (bs_l2_height st) + 1" using rec(1) by (simp add: unat_inc)
  then have "bs_l2_height st1 \<noteq> 0" by auto
  then have "manager_ok forks st1" using fm rec(1,4) by (simp add: manager_ok_def)
  with trace_block.IH inc trace_block.prems(2) have "forks_selected forks es" "manager_ok forks st2" by simp_all
  moreover have "f = forks ! fork_pos_from_block_number forks (lb_height b)"
    using fm trace_block(3) ok(1) by (auto simp: active_fork_def index_def at_height_def split: if_splits)
  ultimately show ?case by (simp add: forks_selected_def)
qed

lemma commitments_forks:
  assumes "commitment_trace E R S pk st gs roots st'" "manager_ok forks st"
    "unat (bs_l2_height st) + length (group_entries gs) < 2 ^ 64"
  shows "forks_selected forks (group_entries gs)"
  using assms
proof (induction rule: commitment_trace.induct)
  case (commitment st es st1 c gs roots st2)
  have "unat (bs_l2_height st1) = unat (bs_l2_height st) + length es"
    using block_trace_ok(3) [OF commitment(1)] commitment.prems(2)
    by (simp add: unat_word_ariths(1) unat_of_nat take_bit_nat_eq_self)
  moreover have "forks_selected forks es \<and> manager_ok forks st1"
    using trace_forks [OF commitment(1), of forks] commitment.prems by (simp add: manager_ok_def)
  ultimately show ?case using commitment.IH commitment.prems(2) by (auto simp: forks_selected_def)
qed (simp add: forks_selected_def)

subsection \<open>The output of the guest\<close>

text \<open>The state the loop starts with.\<close>

definition batch_start :: "'r \<Rightarrow> hash32 \<Rightarrow> hash32 option \<Rightarrow> fork list \<Rightarrow> u64 list \<Rightarrow> u64 \<Rightarrow> 'r batch_state" where
  "batch_start rt root prev forks prune first =
     \<lparr> bs_runtime = rt, bs_state_root = root, bs_state_diff = [], bs_prev_hash = prev,
       bs_fork_manager = ForkManager_new forks first, bs_state_log = None, bs_offchain_log = None,
       bs_prune_heights = prune, bs_l2_height = first, bs_block_hashes = [] \<rparr>"

definition batch_first_height :: "l2_env \<Rightarrow> fork list \<Rightarrow> sequencer_commitment option \<Rightarrow> u64 \<Rightarrow> bool" where
  "batch_first_height E forks prev_commitment first \<longleftrightarrow>
     (case prev_commitment of
        Some c \<Rightarrow> first = sc_l2_end_block_number c + 1
      | None \<Rightarrow> \<exists>a. first_proving_height forks = Some a \<and> first = sat_sub a 1 + 1)"

lemma batch_output_trace:
  assumes "apply_l2_blocks_from_sequencer_commitments E R rt S host key initial_prev root prev_commitment prev_proof
      commitments prune forks = Some out"
  obtains pk prev first gs rs st where
    "pub_key_try_from_slice E key = Some pk" "initial_prev_hash E initial_prev root prev_commitment prev_proof = Some prev"
    "batch_first_height E forks prev_commitment first"
    "commitment_trace E R S pk (batch_start rt root prev forks prune first) gs rs st"
    "map fst gs = commitments" "commitments \<noteq> []"
    "aso_state_roots out = root # rs" "aso_last_l2_height out = sc_l2_end_block_number (last commitments)"
    "bs_prev_hash st = Some (aso_final_l2_block_hash out)" "aso_state_diff out = bs_state_diff st"
    "aso_sequencer_commitment_hashes out = map (serialize_and_calculate_sha_256 E) commitments"
proof -
  from assms obtain pk first prev host1 activation previous_end pi ph st last_end roots h where
    key: "pub_key_try_from_slice E key = Some pk" and ne: "index commitments 0 = Some first" and
    prev: "initial_prev_hash E initial_prev root prev_commitment prev_proof = Some prev" and
    act: "first_proving_height forks = Some activation" and
    info: "previous_commitment_info E prev_commitment first activation = Some (previous_end, pi, ph)" and
    run: "apply_commitments E R S pk commitments (batch_start rt root prev forks prune (previous_end + 1))
      previous_end (previous_end + 1) [root] host1 = Some (st, last_end, roots, h)" and
    out: "aso_state_roots out = roots" "aso_last_l2_height out = last_end" "bs_prev_hash st = Some (aso_final_l2_block_hash out)"
      "aso_state_diff out = bs_state_diff st" "aso_sequencer_commitment_hashes out = map (serialize_and_calculate_sha_256 E) commitments"
    unfolding apply_l2_blocks_from_sequencer_commitments_def Let_def batch_start_def
    by (auto simp: panic_simps)
  have "commitments \<noteq> []" using ne by (auto simp: index_def)
  moreover have "batch_first_height E forks prev_commitment (previous_end + 1)"
    using info act by (auto simp: batch_first_height_def previous_commitment_info_def panic_simps split: option.splits)
  moreover obtain gs rs where "commitment_trace E R S pk (batch_start rt root prev forks prune (previous_end + 1)) gs rs st"
    "map fst gs = commitments" "roots = [root] @ rs"
    "last_end = (if commitments = [] then previous_end else sc_l2_end_block_number (last commitments))"
    using apply_commitments_trace [OF run] by (auto simp: batch_start_def)
  ultimately show thesis using that [OF key prev] out by auto
qed

text \<open>A concrete batch over the one-slot tree: one commitment to one block whose begin hook runs the slot program.\<close>

definition slot_runtime :: "(unit, unit, unit) runtime" where
  "slot_runtime = \<lparr> rt_decode_call = \<lambda>_. None, rt_genesis = Return (),
     rt_begin_l2_block_hook = \<lambda>_ r. prog_bind slot_prog (\<lambda>_. Return (Ok (), r)),
     rt_pre_dispatch_tx_hook = \<lambda>_ _ _. rt_return (), rt_dispatch_call = \<lambda>_ _. rt_return (),
     rt_post_dispatch_tx_hook = \<lambda>_ _ _. rt_return (), rt_end_l2_block_hook = \<lambda>_. rt_return (),
     rt_finalize_hook = \<lambda>_ root. AGet [3] (\<lambda>_. ASet [3] root AReturn) \<rparr>"

definition slot_header :: l2_header where
  "slot_header = \<lparr> l2_height = 1, l2_prev_hash = zeros 32, l2_state_root = [1, 1, 5], l2_l1_fee_rate = 2,
     l2_tx_merkle_root = EMPTY_TX_ROOT, l2_timestamp = 100 \<rparr>"

definition slot_hash :: hash32 where
  "slot_hash = compute_digest pad_l2_env slot_header"

definition slot_block :: l2_block where
  "slot_block = \<lparr> lb_header = \<lparr> sh_inner = slot_header, sh_hash = slot_hash, sh_signature = pad_to 64 slot_hash \<rparr>, lb_txs = [] \<rparr>"

definition slot_commitment :: sequencer_commitment where
  "slot_commitment = \<lparr> sc_merkle_root = pad_to 32 slot_hash, sc_index = 1, sc_l2_end_block_number = 1 \<rparr>"

definition slot_host :: "host_item list" where
  "slot_host = [HostU32 1, HostU32 1, HostU64 1, HostBlock slot_block [[1, 5], [1, 5], [], [], [1, 1, 5]] []]"

lemma slot_verified: "verify_l2_block pad_l2_env slot_block (replicate 33 2) Tangerine = Some (Ok ())"
proof -
  have "compute_tx_merkle_root pad_l2_env (compute_tx_hashes pad_l2_env [] Tangerine) Tangerine = Some EMPTY_TX_ROOT"
    by (simp add: compute_tx_merkle_root_def compute_tx_hashes_def)
  then show ?thesis
    by (simp add: verify_l2_block_def slot_block_def verify_tx_merkle_root_def lb_tx_merkle_root_def lb_inner_def lb_hash_def
        slot_hash_def verify_signature_def signature_try_from_def signature_verify_def)
      (simp add: slot_header_def pad_l2_env_def)
qed

lemma slot_block_zk:
  "\<exists>log olog. zk_block tag_borsh slot_verifier empty_read_write_log empty_read_write_log
     [[1, 5], [1, 5], [], [], [1, 1, 5]] []
     (block_prog pad_l2_env slot_runtime info [] ()) =
   Some ((Ok (), ()), \<lparr> init_root = [1, 5], final_root = [1, 1, 5] \<rparr>, [([7], Some [1, 5])], log, olog, [], [])"
  by (simp add: slot_defs block_defs slot_runtime_def block_prog_def begin_l2_block_def end_l2_block_def rt_bind_def
      rt_map_err_def rt_return_def)

lemma slot_applied:
  "\<exists>res. apply_l2_block pad_l2_env slot_runtime () (zk_stf_storage tag_borsh slot_verifier) Tangerine (replicate 33 2) [1, 5]
     None None [[1, 5], [1, 5], [], [], [1, 1, 5]] [] slot_block = Some (Ok res, ())
   \<and> res_state_root_transition res = \<lparr> init_root = [1, 5], final_root = [1, 1, 5] \<rparr>"
proof -
  obtain log olog where "zk_block tag_borsh slot_verifier empty_read_write_log empty_read_write_log
     [[1, 5], [1, 5], [], [], [1, 1, 5]] []
     (block_prog pad_l2_env slot_runtime (HookL2BlockInfo_new slot_block [1, 5] Tangerine (replicate 33 2)) [] ()) =
   Some ((Ok (), ()), \<lparr> init_root = [1, 5], final_root = [1, 1, 5] \<rparr>, [([7], Some [1, 5])], log, olog, [], [])"
    using slot_block_zk by blast
  then have "apply_l2_block pad_l2_env slot_runtime () (zk_stf_storage tag_borsh slot_verifier) Tangerine (replicate 33 2) [1, 5]
     None None [[1, 5], [1, 5], [], [], [1, 1, 5]] [] slot_block =
    Some (Ok \<lparr> res_state_root_transition = \<lparr> init_root = [1, 5], final_root = [1, 1, 5] \<rparr>, res_state_log = log,
      res_offchain_log = olog, res_change_set = (), res_witness = [], res_offchain_witness = [],
      res_state_diff = [([7], Some [1, 5])] \<rparr>, ())"
    unfolding apply_zk_iff using slot_verified
    by (simp add: log_or_empty_def offchain_or_empty_def) (simp add: slot_block_def)
  then show ?thesis by auto
qed

lemma slot_native:
  "\<exists>res. apply_l2_block pad_l2_env slot_runtime ()
     (prover_stf_storage tag_borsh slot_verifier slot_tree (slot_storage (Some [5])) (\<lambda>_ _ _. ()))
     Tangerine (replicate 33 2) [1, 5] None None [] [] slot_block = Some (Ok res, ())
   \<and> res_witness res = [[1, 5], [1, 5], [], [], [1, 1, 5]] \<and> res_offchain_witness res = []
   \<and> res_state_diff res = [([7], Some [1, 5])]"
  unfolding apply_l2_block_iff finalize_iff using slot_verified
  by (simp add: slot_defs block_defs slot_runtime_def block_prog_def begin_l2_block_def end_l2_block_def rt_bind_def
      rt_map_err_def rt_return_def prover_stf_storage_def log_or_empty_def offchain_or_empty_def slot_block_def
      accessory_get_def accessory_set_def ad_get_def ad_set_def prover_get_accessory_def bm_append_def)

text \<open>C8: The guest replays the prover. If the prover applies an L2 block on its own storage, starting with empty witnesses,
  then the guest, given the witnesses the prover recorded (and anything after them), applies the same block with
  the same runtime and the same logs, and returns the same state roots, logs and state diff, having consumed exactly
  the prover's hints. This holds for every runtime, given that borsh reads back what it wrote and that the tree's
  proofs verify.\<close>

theorem guest_replays_prover:
  assumes "borsh_roundtrip B" "jmt_complete V T"
    and "apply_l2_block E R rt (prover_stf_storage B V T s commit) spec pk pre slog olog [] [] b = Some (Ok res, rt')"
  shows "apply_l2_block E R rt (zk_stf_storage B V) spec pk pre slog olog
      (res_witness res @ rest) (res_offchain_witness res @ rest') b =
    Some (Ok \<lparr> res_state_root_transition = res_state_root_transition res, res_state_log = res_state_log res,
      res_offchain_log = res_offchain_log res, res_change_set = (), res_witness = rest, res_offchain_witness = rest',
      res_state_diff = res_state_diff res \<rparr>, rt')"
  using block_replay [OF assms(1,2) apply_prover_native_block [OF assms(3)]] assms(3)
  by (simp add: apply_zk_iff) (simp add: apply_l2_block_iff)

theorem guest_replays_prover_witness:
  "\<exists>res. apply_l2_block pad_l2_env slot_runtime () (zk_stf_storage tag_borsh slot_verifier)
     Tangerine (replicate 33 2) [1, 5] None None [[1, 5], [1, 5], [], [], [1, 1, 5], [42]] [] slot_block = Some (Ok res, ())
   \<and> res_witness res = [[42]] \<and> res_state_diff res = [([7], Some [1, 5])]"
proof -
  obtain res where res: "apply_l2_block pad_l2_env slot_runtime ()
     (prover_stf_storage tag_borsh slot_verifier slot_tree (slot_storage (Some [5])) (\<lambda>_ _ _. ()))
     Tangerine (replicate 33 2) [1, 5] None None [] [] slot_block = Some (Ok res, ())"
    "res_witness res = [[1, 5], [1, 5], [], [], [1, 1, 5]]" "res_offchain_witness res = []" "res_state_diff res = [([7], Some [1, 5])]"
    using slot_native by blast
  from guest_replays_prover [OF tag_borsh_roundtrip slot_complete res(1), of "[[42]]" "[]"] res(2-4) show ?thesis by simp
qed

lemma slot_batch:
  "\<exists>out. apply_l2_blocks_from_sequencer_commitments pad_l2_env slot_runtime () (zk_stf_storage tag_borsh slot_verifier)
     slot_host (replicate 33 2) (Some (zeros 32)) [1, 5] None None [slot_commitment] [] MAINNET_FORKS = Some out"
proof -
  obtain res where res: "apply_l2_block pad_l2_env slot_runtime () (zk_stf_storage tag_borsh slot_verifier) Tangerine (replicate 33 2)
      [1, 5] None None [[1, 5], [1, 5], [], [], [1, 1, 5]] [] slot_block = Some (Ok res, ())"
    "res_state_root_transition res = \<lparr> init_root = [1, 5], final_root = [1, 1, 5] \<rparr>" using slot_applied by blast
  have blk: "lb_height slot_block = 1" "lb_prev_hash slot_block = zeros 32" "lb_state_root slot_block = [1, 1, 5]"
    "lb_hash slot_block = slot_hash"
    by (simp_all add: slot_block_def slot_header_def lb_height_def lb_prev_hash_def lb_state_root_def lb_hash_def lb_inner_def)
  have key: "pub_key_try_from_slice pad_l2_env (replicate 33 2) = Some (replicate 33 2)"
    by (simp add: pub_key_try_from_slice_def pad_l2_env_def)
  have root: "rs_merkle_root pad_l2_env (l2_sha256 pad_l2_env) [slot_hash] = Some (sc_merkle_root slot_commitment)"
    by (simp add: pad_l2_env_def slot_commitment_def)
  have fm: "register_block (ForkManager_new MAINNET_FORKS 1 :: unit fork_manager) 1 = Some (ForkManager_new MAINNET_FORKS 1, Ok ())"
    "active_fork (ForkManager_new MAINNET_FORKS 1 :: unit fork_manager) = Some (Fork_new Tangerine 0)"
    by (simp_all add: ForkManager_new_def MAINNET_FORKS_def register_block_def active_fork_def index_def
        fork_pos_from_block_number_def binary_search_def bs_loop.simps Fork_new_def)
  have first: "first_proving_height MAINNET_FORKS = Some 0" "sat_sub (0 :: u64) 1 = 0"
    "sc_index slot_commitment = 1" "sc_l2_end_block_number slot_commitment = 1"
    by (simp_all add: first_proving_height_def MAINNET_FORKS_def Fork_new_def sat_sub_def slot_commitment_def)
  have fork: "fork_spec_id (Fork_new Tangerine 0) = Tangerine" by (simp add: Fork_new_def)
  show ?thesis
    by (simp add: apply_l2_blocks_from_sequencer_commitments_def key index_def initial_prev_hash_def slot_host_def
        previous_commitment_info_def apply_block_step_def apply_checked_block_def record_block_def
        assert_that_def blk fm res root first fork)
qed

text \<open>C5: What a batch proof's output says of the blocks behind it, whatever the host supplies. If the guest returns, then there are
  L2 blocks, grouped by the commitments it was given, such that: the blocks have consecutive heights from the first
  unproven one and each names the hash of the one before it; every block's hash is the digest of its header,
  signed by the sequencer, over its transactions; every commitment's Merkle root is that of the hashes of its group and its end
  height that of the group's last block; the final block hash and the last height are those of the last block;
  there is one state root per commitment after the initial one; and every block ran under the fork its
  height selects.\<close>

theorem batch_output_structure:
  fixes S :: "('n, 'c) stf_storage"
  assumes "apply_l2_blocks_from_sequencer_commitments E R rt S host key initial_prev root prev_commitment prev_proof
      commitments prune forks = Some out"
  shows "\<exists>pk prev first (gs :: (sequencer_commitment \<times> 'c block_entry list) list). pub_key_try_from_slice E key = Some pk
    \<and> initial_prev_hash E initial_prev root prev_commitment prev_proof = Some prev
    \<and> batch_first_height E forks prev_commitment first \<and> map fst gs = commitments
    \<and> chain_ok E pk prev first (group_entries gs) \<and> commitments_cover E first gs
    \<and> last_hash prev (group_entries gs) = Some (aso_final_l2_block_hash out)
    \<and> aso_last_l2_height out = sc_l2_end_block_number (last commitments)
    \<and> hd (aso_state_roots out) = root \<and> length (aso_state_roots out) = length commitments + 1
    \<and> aso_sequencer_commitment_hashes out = map (serialize_and_calculate_sha_256 E) commitments
    \<and> (verify_forks forks \<and> forks \<noteq> [] \<and> unat first + length (group_entries gs) < 2 ^ 64 \<longrightarrow>
        forks_selected forks (group_entries gs))"
proof -
  obtain pk prev first gs rs st where t:
    "pub_key_try_from_slice E key = Some pk" "initial_prev_hash E initial_prev root prev_commitment prev_proof = Some prev"
    "batch_first_height E forks prev_commitment first"
    "commitment_trace E R S pk (batch_start rt root prev forks prune first) gs rs st"
    "map fst gs = commitments" "commitments \<noteq> []"
    "aso_state_roots out = root # rs" "aso_last_l2_height out = sc_l2_end_block_number (last commitments)"
    "bs_prev_hash st = Some (aso_final_l2_block_hash out)" "aso_state_diff out = bs_state_diff st"
    "aso_sequencer_commitment_hashes out = map (serialize_and_calculate_sha_256 E) commitments"
    by (rule batch_output_trace [OF assms])
  note ok = commitment_trace_ok [OF t(4)]
  have sel: "bs_prev_hash (batch_start rt root prev forks prune first) = prev"
    "bs_l2_height (batch_start rt root prev forks prune first) = first" by (simp_all add: batch_start_def)
  have "forks_selected forks (group_entries gs)"
    if "verify_forks forks" "forks \<noteq> []" "unat first + length (group_entries gs) < 2 ^ 64"
    using that by (intro commitments_forks [OF t(4)])
      (simp_all add: batch_start_def manager_ok_def ForkManager_new_def at_height_def)
  moreover have "length rs = length commitments" using ok(4) t(5) by auto
  ultimately show ?thesis using t ok unfolding sel by (intro exI [of _ pk] exI [of _ prev] exI [of _ first] exI [of _ gs]) simp
qed

theorem batch_output_structure_witness:
  "\<exists>out gs. apply_l2_blocks_from_sequencer_commitments pad_l2_env slot_runtime () (zk_stf_storage tag_borsh slot_verifier)
     slot_host (replicate 33 2) (Some (zeros 32)) [1, 5] None None [slot_commitment] [] MAINNET_FORKS = Some out
   \<and> map fst (gs :: (sequencer_commitment \<times> unit block_entry list) list) = [slot_commitment]
   \<and> last_hash (Some (zeros 32)) (group_entries gs) = Some (aso_final_l2_block_hash out)"
proof -
  obtain out where run: "apply_l2_blocks_from_sequencer_commitments pad_l2_env slot_runtime () (zk_stf_storage tag_borsh slot_verifier)
     slot_host (replicate 33 2) (Some (zeros 32)) [1, 5] None None [slot_commitment] [] MAINNET_FORKS = Some out"
    using slot_batch by blast
  from batch_output_structure [OF run] obtain prev and gs :: "(sequencer_commitment \<times> unit block_entry list) list" where
    "initial_prev_hash pad_l2_env (Some (zeros 32)) [1, 5] None None = Some prev" "map fst gs = [slot_commitment]"
    "last_hash prev (group_entries gs) = Some (aso_final_l2_block_hash out)" by (elim exE conjE) (rule that)
  moreover have "initial_prev_hash pad_l2_env (Some (zeros 32)) [1, 5] None None = Some (Some (zeros 32))"
    by (simp add: initial_prev_hash_def assert_that_def)
  ultimately show ?thesis using run by (intro exI [of _ out] exI [of _ gs]) simp
qed



end
