(* ===== verification/Merkle_Tree.thy ===== *)
theory Merkle_Tree
  imports Prelude
begin

section \<open>The Bitcoin Merkle tree\<close>

text \<open>
  Models \<^verbatim>\<open>bitcoin-da/src/helpers/merkle_tree.rs\<close> and \<^verbatim>\<open>calculate_double_sha256\<close> of \<^verbatim>\<open>helpers/mod.rs\<close>. SHA-256 is
  the parameter \<open>sha\<close>; nothing is assumed of it but, where a statement says so, that digests have 32
  bytes. Binding statements have the form ``equal, or here are two inputs with the same double hash''.
\<close>

definition calculate_double_sha256 :: "(bytes \<Rightarrow> hash32) \<Rightarrow> bytes \<Rightarrow> hash32" where
  "calculate_double_sha256 sha x = sha (sha x)"

text \<open>One round of the loop: the parents of a level. Equal siblings panic; the last node of an odd
  level is paired with itself.\<close>

fun next_level :: "(bytes \<Rightarrow> hash32) \<Rightarrow> hash32 list \<Rightarrow> hash32 list option" where
  "next_level sha [] = Some []"
| "next_level sha [x] = Some [calculate_double_sha256 sha (x @ x)]"
| "next_level sha (l # r # xs) =
     (if l = r then None
      else (case next_level sha xs of
          None \<Rightarrow> None
        | Some ys \<Rightarrow> Some (calculate_double_sha256 sha (l @ r) # ys)))"

lemma length_next_level: "next_level sha xs = Some ys \<Longrightarrow> length ys = (length xs + 1) div 2"
  by (induction sha xs arbitrary: ys rule: next_level.induct) (auto split: if_splits option.splits)

text \<open>\<^verbatim>\<open>BitcoinMerkleTree::new\<close>: the levels from the leaves up.\<close>

function merkle_tree_new :: "(bytes \<Rightarrow> hash32) \<Rightarrow> hash32 list \<Rightarrow> hash32 list list option" where
  "merkle_tree_new sha xs =
     (if length xs > 1 then
        (case next_level sha xs of
           None \<Rightarrow> None
         | Some ys \<Rightarrow> (case merkle_tree_new sha ys of None \<Rightarrow> None | Some rest \<Rightarrow> Some (xs # rest)))
      else Some [xs])"
  by pat_completeness auto
termination
  by (relation "measure (\<lambda>(sha, xs). length xs)") (auto dest: length_next_level)

declare merkle_tree_new.simps [simp del]

definition merkle_root :: "hash32 list list \<Rightarrow> hash32 option" where
  "merkle_root nodes = do {
     l \<leftarrow> index nodes (length nodes - 1);
     index l 0
   }"

text \<open>The siblings on the way from a leaf to the root, one per level below the root.\<close>

fun idx_path :: "hash32 list list \<Rightarrow> u32 \<Rightarrow> hash32 list option" where
  "idx_path [] i = Some []"
| "idx_path [l] i = Some []"
| "idx_path (l # l' # ls) i = do {
     s \<leftarrow> (if i mod 2 = 1 then index l (unat i - 1)
          else if of_nat (length l - 1) = i then index l (unat i)
          else index l (unat (i + 1)));
     p \<leftarrow> idx_path (l' # ls) (i div 2);
     Some (s # p)
   }"

definition get_idx_path :: "hash32 list list \<Rightarrow> u32 \<Rightarrow> hash32 list option" where
  "get_idx_path nodes i = do {
     l \<leftarrow> index nodes 0;
     assert_that (i < of_nat (length l));
     idx_path nodes i
   }"

fun fold_proof :: "(bytes \<Rightarrow> hash32) \<Rightarrow> hash32 \<Rightarrow> u32 \<Rightarrow> hash32 list \<Rightarrow> hash32 option" where
  "fold_proof sha h i [] = (if i = 0 then Some h else None)"
| "fold_proof sha h i (s # p) =
     (if i mod 2 = 0 then fold_proof sha (calculate_double_sha256 sha (h @ s)) (i div 2) p
      else if s = h then None
      else fold_proof sha (calculate_double_sha256 sha (s @ h)) (i div 2) p)"

text \<open>The level counter of the loop is a \<^verbatim>\<open>u32\<close> compared with the length cast to \<^verbatim>\<open>u32\<close>.\<close>

definition calculate_root_with_merkle_proof ::
  "(bytes \<Rightarrow> hash32) \<Rightarrow> hash32 \<Rightarrow> u32 \<Rightarrow> hash32 list \<Rightarrow> hash32 option" where
  "calculate_root_with_merkle_proof sha txid idx proof' =
     fold_proof sha txid idx (take (unat (of_nat (length proof') :: u32)) proof')"

definition merkle_root_of :: "(bytes \<Rightarrow> hash32) \<Rightarrow> hash32 list \<Rightarrow> hash32 option" where
  "merkle_root_of sha xs = do { nodes \<leftarrow> merkle_tree_new sha xs; merkle_root nodes }"

subsection \<open>Shape of the tree\<close>

definition pair :: "hash32 list \<Rightarrow> nat \<Rightarrow> bytes" where
  "pair xs j = xs ! (2 * j) @ (if 2 * j + 1 < length xs then xs ! (2 * j + 1) else xs ! (2 * j))"

definition parent :: "(bytes \<Rightarrow> hash32) \<Rightarrow> hash32 list \<Rightarrow> nat \<Rightarrow> hash32" where
  "parent sha xs j = calculate_double_sha256 sha (pair xs j)"

lemma next_level_nth:
  "next_level sha xs = Some ys \<Longrightarrow> j < length ys \<Longrightarrow>
   ys ! j = parent sha xs j \<and> (2 * j + 1 < length xs \<longrightarrow> xs ! (2 * j) \<noteq> xs ! (2 * j + 1))"
proof (induction sha xs arbitrary: ys j rule: next_level.induct)
  case (3 sha l r xs)
  then show ?case
    by (cases j) (auto simp: parent_def pair_def split: if_splits option.splits)
qed (auto simp: parent_def pair_def)

lemma next_level_eq_map:
  assumes "next_level sha xs = Some ys"
  shows "ys = map (parent sha xs) [0..<(length xs + 1) div 2]"
  using next_level_nth [OF assms] length_next_level [OF assms] by (intro nth_equalityI) auto

lemma merkle_root_of_step:
  "1 < length xs \<Longrightarrow> merkle_root_of sha xs = Option.bind (next_level sha xs) (merkle_root_of sha)"
proof -
  assume len: "1 < length xs"
  have last: "merkle_root (xs # rest) = merkle_root rest" if "merkle_tree_new sha ys = Some rest" for ys rest
  proof -
    from that have "rest \<noteq> []"
      by (auto simp: merkle_tree_new.simps [of sha ys] split: if_splits option.splits)
    then show ?thesis by (simp add: merkle_root_def index_def)
  qed
  show ?thesis
    using len by (subst merkle_root_of_def, subst merkle_tree_new.simps)
      (auto simp: merkle_root_of_def last split: option.split bind_split)
qed

lemma merkle_root_of_leaf: "length xs \<le> 1 \<Longrightarrow> merkle_root_of sha xs = index xs 0"
  by (simp add: merkle_root_of_def merkle_tree_new.simps merkle_root_def index_def)

text \<open>Induction over the levels of a tree that has a root.\<close>

lemma merkle_induct [consumes 1, case_names leaf step]:
  assumes "merkle_root_of sha xs = Some r"
    and "\<And>x. x = r \<Longrightarrow> P [x]"
    and "\<And>xs ys. 1 < length xs \<Longrightarrow> next_level sha xs = Some ys \<Longrightarrow> merkle_root_of sha ys = Some r \<Longrightarrow> P ys \<Longrightarrow> P xs"
  shows "P xs"
  using assms(1)
proof (induction "length xs" arbitrary: xs rule: less_induct)
  case less
  show ?case
  proof (cases "1 < length xs")
    case True
    with less.prems obtain ys where ys: "next_level sha xs = Some ys" "merkle_root_of sha ys = Some r"
      by (auto simp: merkle_root_of_step panic_simps)
    with True less.hyps [of ys] length_next_level [OF ys(1)] show ?thesis
      by (intro assms(3) [OF True ys]) auto
  next
    case False
    with less.prems show ?thesis
      by (cases xs) (auto simp: merkle_root_of_leaf index_def intro: assms(2))
  qed
qed

subsection \<open>Binding\<close>

text \<open>
  The inputs that are hashed when a tree is built, and when a proof is checked. Binding holds as
  soon as the double hash is injective on those, which are finitely many and known.
\<close>

definition level_preimages :: "hash32 list \<Rightarrow> bytes list" where
  "level_preimages xs = map (pair xs) [0..<(length xs + 1) div 2]"

function tree_preimages :: "(bytes \<Rightarrow> hash32) \<Rightarrow> hash32 list \<Rightarrow> bytes list" where
  "tree_preimages sha xs =
     (if length xs > 1 then level_preimages xs @ (case next_level sha xs of
        None \<Rightarrow> [] | Some ys \<Rightarrow> tree_preimages sha ys) else [])"
  by pat_completeness auto
termination
  by (relation "measure (\<lambda>(sha, xs). length xs)") (auto dest: length_next_level)

declare tree_preimages.simps [simp del]

fun proof_preimages :: "(bytes \<Rightarrow> hash32) \<Rightarrow> hash32 \<Rightarrow> u32 \<Rightarrow> hash32 list \<Rightarrow> bytes list" where
  "proof_preimages sha h i [] = []"
| "proof_preimages sha h i (s # p) = (let m = (if i mod 2 = 0 then h @ s else s @ h)
     in m # proof_preimages sha (calculate_double_sha256 sha m) (i div 2) p)"

lemma tree_preimages_step:
  assumes "1 < length xs" "next_level sha xs = Some ys"
  shows "set (tree_preimages sha xs) = set (level_preimages xs) \<union> set (tree_preimages sha ys)"
  using assms by (subst tree_preimages.simps) simp

lemma pair_inj:
  assumes "pair xs j = pair ys j" "length xs = length ys" "2 * j < length xs"
    and "\<forall>x \<in> set xs. length x = 32" "\<forall>y \<in> set ys. length y = 32"
  shows "xs ! (2 * j) = ys ! (2 * j) \<and> (2 * j + 1 < length xs \<longrightarrow> xs ! (2 * j + 1) = ys ! (2 * j + 1))"
proof -
  have "length (xs ! (2 * j)) = length (ys ! (2 * j))"
    using assms(2-5) by simp
  then show ?thesis
    using assms(1,2) by (auto simp: pair_def split: if_splits)
qed

lemma next_level_inj:
  assumes "inj_on (calculate_double_sha256 sha) P" "set (level_preimages xs) \<subseteq> P" "set (level_preimages ys) \<subseteq> P"
    and "next_level sha xs = Some zs" "next_level sha ys = Some zs" "length xs = length ys"
    and "\<forall>x \<in> set xs. length x = 32" "\<forall>y \<in> set ys. length y = 32"
  shows "xs = ys"
proof (rule nth_equalityI [OF assms(6)])
  fix i assume i: "i < length xs"
  define j where "j = i div 2"
  have j: "2 * j < length xs" "j < length zs" "j < (length xs + 1) div 2" "i = 2 * j \<or> i = 2 * j + 1"
    using i length_next_level [OF assms(4)] by (auto simp: j_def)
  have "pair xs j \<in> P" "pair ys j \<in> P"
    using assms(2,3,6) j(3) by (auto simp: level_preimages_def)
  moreover have "calculate_double_sha256 sha (pair xs j) = calculate_double_sha256 sha (pair ys j)"
    using next_level_nth [OF assms(4) j(2)] next_level_nth [OF assms(5) j(2)] by (simp add: parent_def)
  ultimately have "pair xs j = pair ys j"
    using assms(1) by (auto dest: inj_onD)
  from pair_inj [OF this assms(6) j(1) assms(7,8)] j(4) i show "xs ! i = ys ! i"
    by auto
qed

lemma next_level_lengths:
  assumes "\<And>x. length (sha x) = 32" "next_level sha xs = Some ys"
  shows "\<forall>y \<in> set ys. length y = 32"
  using assms by (auto simp: next_level_eq_map [OF assms(2)] parent_def calculate_double_sha256_def)

lemma merkle_root_binding:
  assumes "merkle_root_of sha xs = Some r" "merkle_root_of sha ys = Some r" "length xs = length ys"
    and "\<And>x. length (sha x) = 32" "inj_on (calculate_double_sha256 sha) P"
    and "set (tree_preimages sha xs) \<subseteq> P" "set (tree_preimages sha ys) \<subseteq> P"
    and "\<forall>x \<in> set xs. length x = 32" "\<forall>y \<in> set ys. length y = 32"
  shows "xs = ys"
  using assms(1-3,6-9)
proof (induction arbitrary: ys rule: merkle_induct)
  case (leaf x)
  then show ?case
    by (cases ys) (auto simp: merkle_root_of_leaf index_def)
next
  case (step xs xs')
  then obtain ys' where ys': "next_level sha ys = Some ys'" "merkle_root_of sha ys' = Some r"
    by (auto simp: merkle_root_of_step panic_simps)
  have len: "1 < length ys" "length xs' = length ys'"
    using length_next_level step.hyps(1,2) ys'(1) step.prems(2) by metis+
  have P: "set (level_preimages xs) \<subseteq> P" "set (tree_preimages sha xs') \<subseteq> P"
    "set (level_preimages ys) \<subseteq> P" "set (tree_preimages sha ys') \<subseteq> P"
    using step.prems(3,4) tree_preimages_step [OF step.hyps(1,2)] tree_preimages_step [OF len(1) ys'(1)] by auto
  have "xs' = ys'"
    using step.IH [OF ys'(2) len(2) P(2,4)] next_level_lengths [of sha, OF assms(4)] step.hyps(2) ys'(1) by blast
  with next_level_inj [OF assms(5) P(1,3) step.hyps(2)] ys'(1) step.prems show ?case
    by blast
qed

subsection \<open>Paths\<close>

lemma u32_halves:
  assumes "i < 2 ^ 32"
  shows "(of_nat i :: u32) div 2 = of_nat (i div 2)" "(of_nat i :: u32) mod 2 = of_nat (i mod 2)"
    "unat (of_nat i :: u32) = i"
proof -
  show i: "unat (of_nat i :: u32) = i"
    using assms by (simp add: unat_of_nat take_bit_nat_eq_self)
  show "(of_nat i :: u32) div 2 = of_nat (i div 2)" "(of_nat i :: u32) mod 2 = of_nat (i mod 2)"
    using i assms
    by (auto simp: word_eq_unat unat_div unat_mod unat_of_nat take_bit_nat_eq_self)
qed

lemma u32_parity:
  assumes "i < 2 ^ 32"
  shows "(of_nat i :: u32) mod 2 = 0 \<longleftrightarrow> even i" "(of_nat i :: u32) mod 2 = 1 \<longleftrightarrow> odd i"
proof -
  have m: "unat ((of_nat i :: u32) mod 2) = i mod 2"
    by (simp only: unat_mod u32_halves(3) [OF assms]) simp
  show "(of_nat i :: u32) mod 2 = 0 \<longleftrightarrow> even i" "(of_nat i :: u32) mod 2 = 1 \<longleftrightarrow> odd i"
    unfolding word_eq_unat m by (simp_all only: unsigned_0 unsigned_1) presburger+
qed

text \<open>The sibling the path takes at a level, and the parent it leads to.\<close>

definition sibling :: "hash32 list \<Rightarrow> nat \<Rightarrow> hash32" where
  "sibling xs i = (if odd i then xs ! (i - 1) else if i = length xs - 1 then xs ! i else xs ! (i + 1))"

lemma idx_path_step:
  assumes "i < length l" "length l < 2 ^ 32"
  shows "idx_path (l # l' # ls) (of_nat i) =
    map_option (\<lambda>p. sibling l i # p) (idx_path (l' # ls) (of_nat (i div 2)))"
proof -
  have i: "i < 2 ^ 32" using assms by simp
  have next_i: "unat ((of_nat i :: u32) + 1) = i + 1"
    using assms u32_halves(3) [of "i + 1"] by (simp add: add.commute)
  have last: "(of_nat (length l - 1) :: u32) = of_nat i \<longleftrightarrow> i = length l - 1"
    using assms u32_halves(3) [of "length l - 1"] u32_halves(3) [OF i] by (auto simp: word_eq_unat)
  have "idx_path (l # l' # ls) (of_nat i) =
      Option.bind (Some (sibling l i)) (\<lambda>s. Option.bind (idx_path (l' # ls) (of_nat (i div 2))) (\<lambda>p. Some (s # p)))"
    unfolding idx_path.simps u32_parity [OF i] u32_halves(1,3) [OF i] last next_i
    using assms(1) by (auto simp: index_def sibling_def)
  then show ?thesis
    by (cases "idx_path (l' # ls) (of_nat (i div 2))") auto
qed

lemma fold_proof_step:
  assumes "i < length xs" "length xs < 2 ^ 32" "next_level sha xs = Some ys"
  shows "fold_proof sha (xs ! i) (of_nat i) (sibling xs i # p) = fold_proof sha (ys ! (i div 2)) (of_nat (i div 2)) p"
proof -
  define j where "j = i div 2"
  have j: "j < length ys" "i = 2 * j \<or> i = 2 * j + 1"
    using assms(1) length_next_level [OF assms(3)] by (auto simp: j_def)
  have i: "i < 2 ^ 32" using assms by simp
  from j(2) show ?thesis
  proof
    assume "i = 2 * j"
    with next_level_nth [OF assms(3) j(1)] assms(1) u32_parity [OF i] u32_halves(1) [OF i] show ?thesis
      by (auto simp: sibling_def parent_def pair_def)
  next
    assume odd: "i = 2 * j + 1"
    then have "odd i" "i div 2 = j" "i - 1 = 2 * j" by auto
    with odd next_level_nth [OF assms(3) j(1)] assms(1) u32_parity [OF i] u32_halves(1) [OF i] show ?thesis
      by (simp add: sibling_def parent_def pair_def)
  qed
qed

lemma merkle_path_exists:
  assumes "merkle_root_of sha xs = Some r" "i < length xs" "length xs < 2 ^ 32"
  shows "\<exists>nodes p. merkle_tree_new sha xs = Some nodes \<and> hd nodes = xs \<and> nodes \<noteq> [] \<and>
    idx_path nodes (of_nat i) = Some p \<and> fold_proof sha (xs ! i) (of_nat i) p = Some r \<and> length p < length xs"
  using assms
proof (induction arbitrary: i rule: merkle_induct)
  case (leaf x)
  then show ?case by (simp add: merkle_tree_new.simps)
next
  case (step xs ys)
  have len: "length ys = (length xs + 1) div 2" by (rule length_next_level [OF step.hyps(2)])
  then have "i div 2 < length ys" "length ys < 2 ^ 32" "length ys < length xs"
    using step.prems step.hyps(1) by auto
  from step.IH [OF this(1,2)] obtain nodes p where IH: "merkle_tree_new sha ys = Some nodes" "hd nodes = ys"
      "nodes \<noteq> []" "idx_path nodes (of_nat (i div 2)) = Some p"
      "fold_proof sha (ys ! (i div 2)) (of_nat (i div 2)) p = Some r" "length p < length ys"
    by blast
  obtain ls where nodes: "nodes = ys # ls"
    using IH(2,3) by (cases nodes) auto
  have "merkle_tree_new sha xs = Some (xs # nodes)"
    using step.hyps(1,2) IH(1) by (subst merkle_tree_new.simps) simp
  moreover have "idx_path (xs # nodes) (of_nat i) = Some (sibling xs i # p)"
    using idx_path_step [OF step.prems, of ys ls] IH(4) nodes by simp
  ultimately show ?case
    using fold_proof_step [OF step.prems step.hyps(2), of p] IH(5,6) \<open>length ys < length xs\<close> by auto
qed

lemma merkle_proof_take: "length p < 2 ^ 32 \<Longrightarrow> calculate_root_with_merkle_proof sha h i p = fold_proof sha h i p"
  by (simp add: calculate_root_with_merkle_proof_def u32_halves(3))

text \<open>
  A proof whose length is the depth of the tree determines the leaf. \<open>tree_depth\<close> is the number of
  levels above the leaves of a tree with that many leaves.
\<close>

function tree_depth :: "nat \<Rightarrow> nat" where
  "tree_depth n = (if n \<le> 1 then 0 else Suc (tree_depth ((n + 1) div 2)))"
  by auto
termination
  by (relation "measure id") auto

declare tree_depth.simps [simp del]

lemma fold_proof_leaf:
  assumes "merkle_root_of sha xs = Some r" "i < length xs" "length xs < 2 ^ 32" "length p = tree_depth (length xs)"
    and "fold_proof sha h (of_nat i) p = Some r"
    and "\<And>x. length (sha x) = 32" "inj_on (calculate_double_sha256 sha) P"
    and "set (tree_preimages sha xs) \<subseteq> P" "set (proof_preimages sha h (of_nat i) p) \<subseteq> P"
    and "\<forall>x \<in> set xs. length x = 32" "length h = 32" "\<forall>s \<in> set p. length s = 32"
  shows "h = xs ! i"
  using assms(1-5,8-12)
proof (induction arbitrary: i p h rule: merkle_induct)
  case (leaf x)
  then show ?case by (cases p) (auto simp: tree_depth.simps split: if_splits)
next
  case (step xs ys)
  have len: "length ys = (length xs + 1) div 2" by (rule length_next_level [OF step.hyps(2)])
  obtain s q where p: "p = s # q" "length q = tree_depth (length ys)"
    using step.prems(3) step.hyps(1) len by (cases p) (auto simp: tree_depth.simps [of "length xs"])
  define j where "j = i div 2"
  have j: "j < length ys" "length ys < 2 ^ 32" "2 * j < length xs" "i = 2 * j \<or> i = 2 * j + 1"
    using step.prems(1,2) len by (auto simp: j_def)
  have i: "i < 2 ^ 32" using step.prems by simp
  define m where "m = (if even i then h @ s else s @ h)"
  have m: "fold_proof sha (calculate_double_sha256 sha m) (of_nat j) q = Some r"
    using step.prems(4) u32_parity [OF i] u32_halves(1) [OF i] unfolding p m_def j_def by (auto split: if_splits)
  have P: "m \<in> P" "set (proof_preimages sha (calculate_double_sha256 sha m) (of_nat j) q) \<subseteq> P"
    using step.prems(6) u32_parity(1) [OF i] u32_halves(1) [OF i] unfolding p m_def j_def by (auto simp: Let_def)
  have tree: "pair xs j \<in> P" "set (tree_preimages sha ys) \<subseteq> P"
    using step.prems(5) tree_preimages_step [OF step.hyps(1,2)] j(1) len by (auto simp: level_preimages_def)
  have "calculate_double_sha256 sha m = ys ! j"
    using step.IH [OF j(1,2) p(2) m tree(2) P(2)] next_level_lengths [of sha, OF assms(6) step.hyps(2)] step.prems(9)
      p(1) assms(6)
    by (simp add: calculate_double_sha256_def)
  then have "m = pair xs j"
    using next_level_nth [OF step.hyps(2) j(1)] inj_onD [OF assms(7) _ P(1) tree(1)] by (simp add: parent_def)
  moreover have "length (xs ! (2 * j)) = 32" "length s = 32"
    using j(3) step.prems(7,9) p(1) by auto
  ultimately show ?case
    using j(4) step.prems(1,8) by (auto simp: m_def pair_def split: if_splits)
qed

lemma merkle_root_exists:
  assumes "merkle_tree_new sha xs = Some nodes" "xs \<noteq> []"
  obtains r where "merkle_root nodes = Some r"
proof -
  have "nodes \<noteq> [] \<and> last nodes \<noteq> []"
    using assms
  proof (induction sha xs arbitrary: nodes rule: merkle_tree_new.induct)
    case (1 sha xs)
    show ?case
    proof (cases "1 < length xs")
      case True
      with 1(2) obtain ys rest where
        ys: "next_level sha xs = Some ys" "merkle_tree_new sha ys = Some rest" and nodes: "nodes = xs # rest"
        by (subst (asm) merkle_tree_new.simps) (auto simp: panic_simps)
      have "ys \<noteq> []"
        using length_next_level [OF ys(1)] True by auto
      from 1(1) [OF True ys(1,2) this] show ?thesis
        by (simp add: nodes)
    next
      case False
      with 1(2,3) show ?thesis by (subst (asm) merkle_tree_new.simps) auto
    qed
  qed
  then show ?thesis
    by (auto simp: merkle_root_def index_def last_conv_nth intro: that)
qed

subsection \<open>Properties\<close>

text \<open>
  C16: for every leaf of a tree the path the node extracts is accepted by the verifier: recomputing the
  root from the leaf, its index and the path returns, and returns the root of the tree.
\<close>

theorem merkle_path_roundtrip:
  assumes "merkle_tree_new sha xs = Some nodes" "i < length xs" "length xs < 2 ^ 32"
  shows "\<exists>p r. get_idx_path nodes (of_nat i) = Some p \<and> merkle_root nodes = Some r \<and>
    calculate_root_with_merkle_proof sha (xs ! i) (of_nat i) p = Some r"
proof -
  obtain r where r: "merkle_root nodes = Some r"
    by (rule merkle_root_exists [OF assms(1)]) (use assms(2) in auto)
  then have "merkle_root_of sha xs = Some r"
    using assms(1) by (simp add: merkle_root_of_def)
  from merkle_path_exists [OF this assms(2,3)] assms(1) obtain p where
    p: "hd nodes = xs" "nodes \<noteq> []" "idx_path nodes (of_nat i) = Some p"
      "fold_proof sha (xs ! i) (of_nat i) p = Some r" "length p < length xs"
    by auto
  have "(of_nat i :: u32) < of_nat (length xs)"
    using assms(2,3) u32_halves(3) by (simp add: word_less_nat_alt)
  with p(1-3) have "get_idx_path nodes (of_nat i) = Some p"
    by (cases nodes) (auto simp: get_idx_path_def index_def)
  with p(4,5) r assms(3) show ?thesis
    by (simp add: merkle_proof_take)
qed

theorem merkle_path_roundtrip_witness:
  "\<exists>nodes p r. merkle_tree_new (\<lambda>x. [of_nat (length x)] @ take 3 x) [[1], [2], [3]] = Some nodes \<and>
     get_idx_path nodes (of_nat 2) = Some p \<and>
     calculate_root_with_merkle_proof (\<lambda>x. [of_nat (length x)] @ take 3 x) ([[1], [2], [3]] ! 2) (of_nat 2) p = Some r"
proof -
  have "\<exists>nodes. merkle_tree_new (\<lambda>x. [of_nat (length x)] @ take 3 x) [[1], [2], [3]] = Some nodes"
    by (simp add: merkle_tree_new.simps calculate_double_sha256_def)
  then obtain nodes where "merkle_tree_new (\<lambda>x. [of_nat (length x)] @ take 3 x) [[1], [2], [3]] = Some nodes"
    by blast
  from merkle_path_roundtrip [OF this, of 2] this show ?thesis
    by fastforce
qed

text \<open>
  C15: a root binds the leaves below it. If the double hash does not collide on the inputs that the two
  computations hash, then a list of equally many 32-byte leaves with the same root is the same list,
  and a proof of the depth of the tree that leads from a hash at an index to the root starts from the
  leaf at that index.
\<close>

theorem merkle_root_binds_leaves:
  assumes "merkle_root_of sha xs = Some r" "\<And>x. length (sha x) = 32" "\<forall>x \<in> set xs. length x = 32"
  shows "(\<forall>ys. inj_on (calculate_double_sha256 sha) (set (tree_preimages sha xs) \<union> set (tree_preimages sha ys)) \<and>
      length ys = length xs \<and> (\<forall>y \<in> set ys. length y = 32) \<and> merkle_root_of sha ys = Some r \<longrightarrow> ys = xs) \<and>
    (\<forall>i p h. inj_on (calculate_double_sha256 sha)
        (set (tree_preimages sha xs) \<union> set (proof_preimages sha h (of_nat i) p)) \<and>
      i < length xs \<and> length xs < 2 ^ 32 \<and> length p = tree_depth (length xs) \<and> length h = 32 \<and>
      (\<forall>s \<in> set p. length s = 32) \<and> calculate_root_with_merkle_proof sha h (of_nat i) p = Some r \<longrightarrow> h = xs ! i)"
proof (intro conjI allI impI)
  fix ys
  assume "inj_on (calculate_double_sha256 sha) (set (tree_preimages sha xs) \<union> set (tree_preimages sha ys)) \<and>
      length ys = length xs \<and> (\<forall>y \<in> set ys. length y = 32) \<and> merkle_root_of sha ys = Some r"
  then show "ys = xs"
    using merkle_root_binding [OF assms(1) _ _ assms(2) _ Un_upper1 Un_upper2 assms(3), of ys] by auto
next
  fix i p h
  assume *: "inj_on (calculate_double_sha256 sha) (set (tree_preimages sha xs) \<union> set (proof_preimages sha h (of_nat i) p)) \<and>
      i < length xs \<and> length xs < 2 ^ 32 \<and> length p = tree_depth (length xs) \<and> length h = 32 \<and>
      (\<forall>s \<in> set p. length s = 32) \<and> calculate_root_with_merkle_proof sha h (of_nat i) p = Some r"
  have "tree_depth n \<le> n" for n
    by (induction n rule: tree_depth.induct) (subst tree_depth.simps, auto)
  with * have "length p < 2 ^ 32"
    by (metis le_less_trans)
  with * have "fold_proof sha h (of_nat i) p = Some r"
    by (simp only: merkle_proof_take)
  with * show "h = xs ! i"
    using fold_proof_leaf [OF assms(1) _ _ _ _ assms(2) _ Un_upper1 Un_upper2 assms(3), of i p h] by blast
qed

text \<open>A function with 32-byte outputs, for the concrete inputs below.\<close>

definition pad32 :: "bytes \<Rightarrow> hash32" where
  "pad32 x = take 32 (drop 16 x @ replicate 32 0)"

lemma length_pad32 [simp]: "length (pad32 x) = 32"
  by (simp add: pad32_def)

theorem merkle_root_binds_leaves_witness:
  "merkle_root_of pad32 [zeros 32, replicate 32 1] = Some (replicate 16 1 @ replicate 16 0) \<and>
   merkle_root_of pad32 [zeros 32, replicate 32 2] \<noteq> Some (replicate 16 1 @ replicate 16 0)"
proof -
  let ?xs = "[zeros 32, replicate 32 1]" and ?ys = "[zeros 32, replicate 32 2]"
  have root: "merkle_root_of pad32 ?xs = Some (replicate 16 1 @ replicate 16 0)"
    by (simp add: merkle_root_of_step merkle_root_of_leaf index_def calculate_double_sha256_def pad32_def zeros_def
        eval_nat_numeral)
  have pre: "tree_preimages pad32 ?xs = [zeros 32 @ replicate 32 1]" "tree_preimages pad32 ?ys = [zeros 32 @ replicate 32 2]"
    by (simp_all add: tree_preimages.simps level_preimages_def pair_def zeros_def split: option.splits)
  have "calculate_double_sha256 pad32 (zeros 32 @ replicate 32 1) \<noteq> calculate_double_sha256 pad32 (zeros 32 @ replicate 32 2)"
    by (simp add: calculate_double_sha256_def pad32_def zeros_def eval_nat_numeral)
  then have "inj_on (calculate_double_sha256 pad32) (set (tree_preimages pad32 ?xs) \<union> set (tree_preimages pad32 ?ys))"
    unfolding pre by (auto simp: inj_on_def)
  moreover have "?ys \<noteq> ?xs" by simp
  ultimately have "merkle_root_of pad32 ?ys \<noteq> Some (replicate 16 1 @ replicate 16 0)"
    using merkle_root_binds_leaves [OF root, THEN conjunct1, THEN spec, of ?ys] by auto
  with root show ?thesis by blast
qed

end
