(* ===== verification/Bitcoin_Env.thy ===== *)
theory Bitcoin_Env
  imports Merkle_Tree
begin

section \<open>Headers, transactions and the functions of other crates\<close>

text \<open>
  The data of \<^verbatim>\<open>bitcoin-da/src/spec/header.rs\<close>, the fields of \<^verbatim>\<open>bitcoin::Transaction\<close> the code reads, and
  the record \<^verbatim>\<open>btc_env\<close> of third-party functions: SHA-256, the consensus encodings of the \<^verbatim>\<open>bitcoin\<close> crate
  and the secp256k1 checks. \<^verbatim>\<open>U256\<close> of \<^verbatim>\<open>crypto_bigint\<close> is \<^typ>\<open>u256\<close>: its wrapping operations and its
  shifts (zero from 256 on) are those of words.
\<close>

record btc_header =
  h_version :: u32
  h_prev_blockhash :: hash32
  h_merkle_root :: hash32
  h_time :: u32
  h_bits :: u32
  h_nonce :: u32

record header_wrapper =
  hw_header :: btc_header
  hw_tx_count :: u32
  hw_height :: u64
  hw_txs_commitment :: hash32
  hw_precomputed_hash :: hash32

text \<open>
  \<^verbatim>\<open>bitcoin::Transaction\<close>: the inputs with the output they spend, their signature script, sequence number and
  witness stack, and the outputs with their value in satoshis and their script.
\<close>

record out_point =
  op_txid :: hash32
  op_vout :: u32

record tx_in =
  ti_previous_output :: out_point
  ti_script_sig :: bytes
  ti_sequence :: u32
  ti_witness :: "bytes list"

record tx_out =
  to_amount :: u64
  to_script_pubkey :: bytes

record btc_tx =
  btx_version :: u32
  btx_lock_time :: u32
  btx_input :: "tx_in list"
  btx_output :: "tx_out list"

text \<open>
  The functions of other crates: SHA-256, and the consensus encodings of a header, of the parts of a transaction
  without its witnesses and of a whole transaction.
\<close>

record btc_env =
  env_sha256 :: "bytes \<Rightarrow> hash32"
  encode_header :: "btc_header \<Rightarrow> bytes"
  encode_version :: "u32 \<Rightarrow> bytes"
  encode_inputs :: "tx_in list \<Rightarrow> bytes"
  encode_outputs :: "tx_out list \<Rightarrow> bytes"
  encode_lock_time :: "u32 \<Rightarrow> bytes"
  encode_tx :: "btc_tx \<Rightarrow> bytes"

definition dsha :: "btc_env \<Rightarrow> bytes \<Rightarrow> hash32" where
  "dsha E x = calculate_double_sha256 (env_sha256 E) x"

definition hw_prev_hash :: "header_wrapper \<Rightarrow> hash32" where
  "hw_prev_hash h = h_prev_blockhash (hw_header h)"

definition hw_hash :: "header_wrapper \<Rightarrow> hash32" where
  "hw_hash h = hw_precomputed_hash h"

definition hw_block_hash :: "btc_env \<Rightarrow> header_wrapper \<Rightarrow> hash32" where
  "hw_block_hash E h = dsha E (encode_header E (hw_header h))"

definition hw_verify_hash :: "btc_env \<Rightarrow> header_wrapper \<Rightarrow> bool" where
  "hw_verify_hash E h \<longleftrightarrow> hw_hash h = hw_block_hash E h"

definition hw_merkle_root :: "header_wrapper \<Rightarrow> hash32" where
  "hw_merkle_root h = h_merkle_root (hw_header h)"

definition hw_time :: "header_wrapper \<Rightarrow> u32" where
  "hw_time h = h_time (hw_header h)"

definition hw_bits :: "header_wrapper \<Rightarrow> u32" where
  "hw_bits h = h_bits (hw_header h)"

definition HeaderWrapper_new :: "btc_env \<Rightarrow> btc_header \<Rightarrow> u32 \<Rightarrow> u64 \<Rightarrow> hash32 \<Rightarrow> header_wrapper" where
  "HeaderWrapper_new E h tx_count height txs_commitment =
     \<lparr> hw_header = h, hw_tx_count = tx_count, hw_height = height, hw_txs_commitment = txs_commitment,
       hw_precomputed_hash = dsha E (encode_header E h) \<rparr>"

definition calculate_txid :: "btc_env \<Rightarrow> btc_tx \<Rightarrow> hash32" where
  "calculate_txid E tx = dsha E (encode_version E (btx_version tx) @ encode_inputs E (btx_input tx) @
     encode_outputs E (btx_output tx) @ encode_lock_time E (btx_lock_time tx))"

definition calculate_wtxid :: "btc_env \<Rightarrow> btc_tx \<Rightarrow> hash32" where
  "calculate_wtxid E tx = dsha E (encode_tx E tx)"

end
