(* ===== verification/Header_Chain.thy ===== *)
theory Header_Chain
  imports Bitcoin_Env Forks
begin

section \<open>The Bitcoin header chain\<close>

text \<open>
  Models the header chain rules of \<^verbatim>\<open>bitcoin-da/src/verifier.rs\<close>, the constants of
  \<^verbatim>\<open>bitcoin-da/src/network_constants.rs\<close> and \<^verbatim>\<open>LatestDaState\<close> of
  \<^verbatim>\<open>rollup-interface/src/state_machine/da.rs\<close>. Targets travel as 32 big-endian bytes, as in the code,
  and are read as numbers in the lemmas. \<^const>\<open>None\<close> is a panic (an index out of range in
  \<^verbatim>\<open>target_to_bits\<close>, the assertion of the regtest rules).
\<close>

record latest_da_state =
  block_hash :: hash32
  block_height :: u64
  total_work :: hash32
  current_target_bits :: u32
  epoch_start_time :: u32
  prev_11_timestamps :: "u32 list"

datatype validation_error =
    InvalidBlock | InvalidSegWitCommitment | RelevantTxNotInProof | IncorrectTxidCommitment
  | IncorrectWitnessCommitment | InvalidBlockHash | NonConsecutiveBlockHeight
  | InvalidWitnessCommitmentStructure | InvalidPrevBlockHash | InvalidBlockBits | InvalidTargetHash
  | InvalidTimestamp | HeaderInclusionTxCountMismatch | FailedToDeserializeCompleteChunks
  | FailedToDeserializeBatchProofMethodIdBody

record network_constants =
  max_bits :: u32
  max_target :: u256
  finality_depth :: u64

definition MAINNET_CONSTANTS :: network_constants where
  "MAINNET_CONSTANTS = \<lparr> max_bits = 0x1D00FFFF,
     max_target = 0x00000000FFFF0000000000000000000000000000000000000000000000000000, finality_depth = 6 \<rparr>"

definition TESTNET4_CONSTANTS :: network_constants where
  "TESTNET4_CONSTANTS = \<lparr> max_bits = 0x1D00FFFF,
     max_target = 0x00000000FFFF0000000000000000000000000000000000000000000000000000, finality_depth = 100 \<rparr>"

definition SIGNET_CONSTANTS :: network_constants where
  "SIGNET_CONSTANTS = \<lparr> max_bits = 0x1E0377AE,
     max_target = 0x00000377AE000000000000000000000000000000000000000000000000000000, finality_depth = 5 \<rparr>"

definition REGTEST_CONSTANTS :: network_constants where
  "REGTEST_CONSTANTS = \<lparr> max_bits = 0x207FFFFF,
     max_target = 0x7FFFFF0000000000000000000000000000000000000000000000000000000000, finality_depth = 5 \<rparr>"

definition INITIAL_MAINNET_STATE :: latest_da_state where
  "INITIAL_MAINNET_STATE = \<lparr> block_hash = zeros 32, block_height = 0, total_work = zeros 32,
     current_target_bits = 0, epoch_start_time = 0, prev_11_timestamps = replicate 11 0 \<rparr>"

definition INITIAL_TESTNET4_STATE :: latest_da_state where
  "INITIAL_TESTNET4_STATE =
     \<lparr> block_hash = [177, 30, 245, 240, 148, 228, 201, 10, 169, 117, 171, 23, 153, 213, 126, 0, 82, 34, 206,
         105, 206, 59, 65, 158, 204, 24, 203, 208, 0, 0, 0, 0],
       block_height = 74246,
       total_work = [0, 0, 0, 0, 0, 0, 0, 0, 0, 0, 0, 0, 0, 0, 0, 0, 0, 0, 0, 0, 0, 0, 1, 242, 121, 228, 216,
         103, 138, 95, 229, 162],
       current_target_bits = 0x190461c8,
       epoch_start_time = 1741056039,
       prev_11_timestamps = [1742436071, 1742437272, 1742438473, 1742439674, 1742440875, 1742442076, 1742441609,
         1742442810, 1742432468, 1742433669, 1742434870] \<rparr>"

definition INITIAL_SIGNET_STATE :: latest_da_state where
  "INITIAL_SIGNET_STATE =
     \<lparr> block_hash = [245, 79, 209, 136, 168, 232, 39, 32, 63, 156, 16, 98, 53, 39, 221, 58, 154, 156, 163, 63,
         207, 76, 63, 27, 100, 126, 53, 190, 9, 3, 0, 0],
       block_height = 12,
       total_work = [0, 0, 0, 0, 0, 0, 0, 0, 0, 0, 0, 0, 0, 0, 0, 0, 0, 0, 0, 0, 0, 0, 0, 0, 0, 0, 0, 0, 3, 191,
         197, 4],
       current_target_bits = 0x1e0377ae,
       epoch_start_time = 1598918400,
       prev_11_timestamps = [1732838717, 1732838728, 1732838622, 1732838632, 1732838643, 1732838653, 1732838665,
         1732838675, 1732838686, 1732838696, 1732838707] \<rparr>"

definition EXPECTED_EPOCH_TIMESPAN :: u32 where
  "EXPECTED_EPOCH_TIMESPAN = 60 * 60 * 24 * 14"

definition EXPECTED_EPOCH_TIMESPAN_SIGNET :: u32 where
  "EXPECTED_EPOCH_TIMESPAN_SIGNET = EXPECTED_EPOCH_TIMESPAN div 60"

definition BLOCKS_PER_EPOCH :: u64 where
  "BLOCKS_PER_EPOCH = 2016"

subsection \<open>Targets, work and timestamps\<close>

definition u256_to_be_bytes :: "u256 \<Rightarrow> bytes" where
  "u256_to_be_bytes w = be_bytes 32 w"

definition u256_from_be_bytes :: "bytes \<Rightarrow> u256" where
  "u256_from_be_bytes bs = of_nat (be_nat bs)"

text \<open>\<^verbatim>\<open>Uint::bits\<close>: the number of bits up to the highest one that is set.\<close>

fun bit_length :: "nat \<Rightarrow> nat" where
  "bit_length n = (if n = 0 then 0 else Suc (bit_length (n div 2)))"

declare bit_length.simps [simp del]

definition verify_timestamp :: "u32 \<Rightarrow> u32 list \<Rightarrow> bool" where
  "verify_timestamp block_time prev = (sort prev ! 5 < block_time)"

text \<open>The loop compares the hash, read from its last byte, with the target, read from its first.\<close>

fun compare_bytes :: "bytes \<Rightarrow> bytes \<Rightarrow> bool" where
  "compare_bytes (h # hs) (t # ts) = (if h < t then True else if h > t then False else compare_bytes hs ts)"
| "compare_bytes _ _ = True"

definition verify_target_hash :: "hash32 \<Rightarrow> bytes \<Rightarrow> bool" where
  "verify_target_hash hash target = compare_bytes (rev hash) target"

definition bits_to_target :: "u32 \<Rightarrow> bytes" where
  "bits_to_target bits =
     (let sz = unat (drop_bit 24 bits); mantissa = and bits 0x00ffffff in
      if mantissa > 0x7FFFFF then zeros 32
      else u256_to_be_bytes
        (if sz \<le> 3 then ucast (drop_bit (8 * (3 - sz)) mantissa)
         else push_bit (8 * (sz - 3)) (ucast mantissa)))"

definition target_to_bits :: "bytes \<Rightarrow> u32 option" where
  "target_to_bits target =
     (let sz = (263 - bit_length (be_nat target)) div 8 in
      if sz = 0 then None
      else do {
        a \<leftarrow> index target (sz - 1);
        b \<leftarrow> index target sz;
        c \<leftarrow> index target (sz + 1);
        Some (of_nat (be_nat [33 - of_nat sz, a, b, c]))
      })"

definition target_to_work :: "bytes \<Rightarrow> u256" where
  "target_to_work t =
     (let target = u256_from_be_bytes t in
      if target = 0 then - 1
      else if target = 1 then - 1
      else if target = - 1 then 1
      else not target div (target + 1) + 1)"

definition calculate_new_difficulty :: "u32 \<Rightarrow> u32 \<Rightarrow> u32 \<Rightarrow> u256 \<Rightarrow> u32 \<Rightarrow> bytes" where
  "calculate_new_difficulty epoch_start last_timestamp target_bits mx expected =
     (let actual = last_timestamp - epoch_start;
          timespan = (if actual < expected div 4 then expected div 4
                      else if actual > expected * 4 then expected * 4 else actual);
          new_target = u256_from_be_bytes (bits_to_target target_bits) * ucast timespan div ucast expected
      in u256_to_be_bytes (if new_target > mx then mx else new_target))"

definition saturating_add_u256 :: "u256 \<Rightarrow> u256 \<Rightarrow> u256" where
  "saturating_add_u256 a b = (if unat a + unat b < 2 ^ 256 then a + b else - 1)"

definition add_work :: "hash32 \<Rightarrow> u256 \<Rightarrow> hash32" where
  "add_work acc w = u256_to_be_bytes (saturating_add_u256 (u256_from_be_bytes acc) w)"

subsection \<open>The rules of the networks\<close>

definition verify_header_chain_common ::
  "btc_env \<Rightarrow> header_wrapper \<Rightarrow> latest_da_state \<Rightarrow> bytes \<Rightarrow> u32 \<Rightarrow> validation_error + unit" where
  "verify_header_chain_common E h s target expected_bits =
     (if \<not> hw_verify_hash E h then Err InvalidBlockHash
      else if hw_height h - 1 \<noteq> block_height s then Err NonConsecutiveBlockHeight
      else if hw_prev_hash h \<noteq> block_hash s then Err InvalidPrevBlockHash
      else if hw_bits h \<noteq> expected_bits then Err InvalidBlockBits
      else if \<not> verify_target_hash (hw_hash h) target then Err InvalidTargetHash
      else if \<not> verify_timestamp (hw_time h) (prev_11_timestamps s) then Err InvalidTimestamp
      else Ok ())"

definition push_timestamp :: "header_wrapper \<Rightarrow> u32 list \<Rightarrow> u32 list" where
  "push_timestamp h ts = ts[unat (hw_height h) mod 11 := hw_time h]"

definition next_epoch_start :: "header_wrapper \<Rightarrow> latest_da_state \<Rightarrow> u32" where
  "next_epoch_start h s = (if hw_height h mod BLOCKS_PER_EPOCH = 0 then hw_time h else epoch_start_time s)"

definition retarget :: "header_wrapper \<Rightarrow> u32 \<Rightarrow> u32 \<Rightarrow> u256 \<Rightarrow> u32 \<Rightarrow> u32 option" where
  "retarget h epoch_start bits mx timespan =
     (if hw_height h mod BLOCKS_PER_EPOCH = BLOCKS_PER_EPOCH - 1
      then target_to_bits (calculate_new_difficulty epoch_start (hw_time h) bits mx timespan)
      else Some bits)"

text \<open>The mainnet and signet rules differ in the constants and the length of an epoch.\<close>

definition verify_header_chain_pow ::
  "btc_env \<Rightarrow> network_constants \<Rightarrow> u32 \<Rightarrow> latest_da_state \<Rightarrow> header_wrapper \<Rightarrow> (validation_error + latest_da_state) option" where
  "verify_header_chain_pow E constants timespan s h =
     (let target = bits_to_target (current_target_bits s); work_add = target_to_work target in
      case verify_header_chain_common E h s target (current_target_bits s) of
        Inl e \<Rightarrow> Some (Err e)
      | Inr _ \<Rightarrow> do {
          bits \<leftarrow> retarget h (next_epoch_start h s) (hw_bits h) (max_target constants) timespan;
          Some (Ok \<lparr> block_hash = hw_hash h, block_height = hw_height h,
            total_work = add_work (total_work s) work_add, current_target_bits = bits,
            epoch_start_time = next_epoch_start h s,
            prev_11_timestamps = push_timestamp h (prev_11_timestamps s) \<rparr>)
        })"

definition verify_header_chain_mainnet ::
  "btc_env \<Rightarrow> latest_da_state \<Rightarrow> header_wrapper \<Rightarrow> (validation_error + latest_da_state) option" where
  "verify_header_chain_mainnet E = verify_header_chain_pow E MAINNET_CONSTANTS EXPECTED_EPOCH_TIMESPAN"

definition verify_header_chain_signet ::
  "btc_env \<Rightarrow> latest_da_state \<Rightarrow> header_wrapper \<Rightarrow> (validation_error + latest_da_state) option" where
  "verify_header_chain_signet E = verify_header_chain_pow E SIGNET_CONSTANTS EXPECTED_EPOCH_TIMESPAN_SIGNET"

definition verify_header_chain_testnet4 ::
  "btc_env \<Rightarrow> latest_da_state \<Rightarrow> header_wrapper \<Rightarrow> (validation_error + latest_da_state) option" where
  "verify_header_chain_testnet4 E s h = do {
     latest_block_time \<leftarrow> index (prev_11_timestamps s) (unat (block_height s) mod 11);
     let (target, expected_bits) =
       (if hw_height h mod BLOCKS_PER_EPOCH \<noteq> 0 \<and> hw_time h > latest_block_time + 1200
        then (u256_to_be_bytes (max_target TESTNET4_CONSTANTS), max_bits TESTNET4_CONSTANTS)
        else (bits_to_target (current_target_bits s), current_target_bits s));
     (case verify_header_chain_common E h s target expected_bits of
        Inl e \<Rightarrow> Some (Err e)
      | Inr _ \<Rightarrow> do {
          bits \<leftarrow> retarget h (next_epoch_start h s) (current_target_bits s) (max_target TESTNET4_CONSTANTS)
                   EXPECTED_EPOCH_TIMESPAN;
          Some (Ok \<lparr> block_hash = hw_hash h, block_height = hw_height h,
            total_work = add_work (total_work s) (target_to_work target), current_target_bits = bits,
            epoch_start_time = next_epoch_start h s,
            prev_11_timestamps = push_timestamp h (prev_11_timestamps s) \<rparr>)
        })
   }"

definition verify_header_chain_regtest ::
  "btc_env \<Rightarrow> latest_da_state \<Rightarrow> header_wrapper \<Rightarrow> (validation_error + latest_da_state) option" where
  "verify_header_chain_regtest E s h = do {
     assert_that (hw_height h \<noteq> 0);
     (case verify_header_chain_common E h s (u256_to_be_bytes (max_target REGTEST_CONSTANTS)) (max_bits REGTEST_CONSTANTS) of
        Inl e \<Rightarrow> Some (Err e)
      | Inr _ \<Rightarrow> Some (Ok \<lparr> block_hash = hw_hash h, block_height = hw_height h, total_work = zeros 32,
            current_target_bits = hw_bits h, epoch_start_time = 0,
            prev_11_timestamps = push_timestamp h (prev_11_timestamps s) \<rparr>))
   }"

text \<open>On regtest the first block is accepted after any parent.\<close>

definition regtest_parent :: "header_wrapper \<Rightarrow> latest_da_state" where
  "regtest_parent h = \<lparr> block_hash = hw_prev_hash h, block_height = hw_height h - 1, total_work = zeros 32,
     current_target_bits = max_bits REGTEST_CONSTANTS, epoch_start_time = 0, prev_11_timestamps = replicate 11 0 \<rparr>"

definition or_else :: "'a option \<Rightarrow> 'a \<Rightarrow> 'a" where
  "or_else x d = (case x of Some a \<Rightarrow> a | None \<Rightarrow> d)"

fun verify_header_chain ::
  "btc_env \<Rightarrow> latest_da_state option \<Rightarrow> header_wrapper \<Rightarrow> network \<Rightarrow> (validation_error + latest_da_state) option" where
  "verify_header_chain E s h Mainnet = verify_header_chain_mainnet E (or_else s INITIAL_MAINNET_STATE) h"
| "verify_header_chain E s h Testnet = verify_header_chain_testnet4 E (or_else s INITIAL_TESTNET4_STATE) h"
| "verify_header_chain E s h Devnet = verify_header_chain_signet E (or_else s INITIAL_SIGNET_STATE) h"
| "verify_header_chain E s h Nightly = verify_header_chain_regtest E (or_else s (regtest_parent h)) h"
| "verify_header_chain E s h TestNetworkWithForks = verify_header_chain_regtest E (or_else s (regtest_parent h)) h"

subsection \<open>Bytes and numbers\<close>

lemma le_nat_append: "le_nat (xs @ ys) = le_nat xs + 256 ^ length xs * le_nat ys"
  by (induction xs) (simp_all add: algebra_simps)

lemma le_nat_bound: "le_nat bs < 256 ^ length bs"
proof (induction bs)
  case (Cons b bs)
  have "unat b < 256" using unsigned_less [of b, where ?'a = nat] by simp
  with Cons show ?case by simp
qed simp

lemma be_nat_Cons: "be_nat (b # bs) = unat b * 256 ^ length bs + be_nat bs"
  by (simp add: be_nat_def le_nat_append)

lemma be_nat_bound: "be_nat bs < 256 ^ length bs"
  using le_nat_bound [of "rev bs"] by (simp add: be_nat_def)

lemma length_u256_to_be_bytes [simp]: "length (u256_to_be_bytes w) = 32"
  by (simp add: u256_to_be_bytes_def)

lemma be_nat_u256 [simp]: "be_nat (u256_to_be_bytes w) = unat w"
  using unsigned_less [of w, where ?'a = nat]
  by (simp add: be_nat_def u256_to_be_bytes_def rev_le_bytes [symmetric] le_nat_le_bytes)

lemma u256_roundtrip [simp]: "u256_from_be_bytes (u256_to_be_bytes w) = w"
  by (simp add: u256_from_be_bytes_def)

lemma be_nat_zeros [simp]: "be_nat (zeros n) = 0"
proof -
  have "le_nat (replicate n 0) = 0" by (induction n) auto
  then show ?thesis by (simp add: be_nat_def zeros_def)
qed

lemma unat_u256_from_be_bytes: "length bs = 32 \<Longrightarrow> unat (u256_from_be_bytes bs) = be_nat bs"
  using be_nat_bound [of bs] by (simp add: u256_from_be_bytes_def unat_of_nat take_bit_nat_eq_self)

subsection \<open>Proof of work, work and the median time\<close>

lemma compare_bytes_be:
  "length hs = length ts \<Longrightarrow> compare_bytes hs ts \<longleftrightarrow> be_nat hs \<le> be_nat ts"
proof (induction hs ts rule: compare_bytes.induct)
  case (1 h hs t ts)
  have bounds: "be_nat hs < 256 ^ length ts" "be_nat ts < 256 ^ length ts"
    using be_nat_bound [of hs] be_nat_bound [of ts] 1(2) by simp_all
  have key: "unat a * 256 ^ length ts + x < unat b * 256 ^ length ts + y"
    if "a < b" "x < 256 ^ length ts" for a b :: u8 and x y :: nat
  proof -
    have "(unat a + 1) * 256 ^ length ts \<le> unat b * 256 ^ length ts"
      using that(1) by (intro mult_le_mono1) (simp add: word_less_nat_alt)
    with that(2) show ?thesis by (simp add: algebra_simps)
  qed
  show ?case
  proof (cases h t rule: linorder_cases)
    case less
    then show ?thesis
      using key [of h t "be_nat hs" "be_nat ts"] bounds 1(2)
      by (simp add: be_nat_Cons)
  next
    case equal
    then show ?thesis using 1 by (simp add: be_nat_Cons)
  next
    case greater
    then show ?thesis
      using key [of t h "be_nat ts" "be_nat hs"] bounds 1(2)
      by (simp add: be_nat_Cons)
  qed
qed (auto simp: be_nat_def)

lemma verify_target_hash_iff:
  "length hash = 32 \<Longrightarrow> length target = 32 \<Longrightarrow> verify_target_hash hash target \<longleftrightarrow> le_nat hash \<le> be_nat target"
  by (simp add: verify_target_hash_def compare_bytes_be) (simp add: be_nat_def)

text \<open>The identity of the comment: \<open>2 ^ 256 div (t + 1) = (2 ^ 256 - 1 - t) div (t + 1) + 1\<close>.\<close>

lemma div_succ_identity: "(t :: nat) < n \<Longrightarrow> n div (t + 1) = (n - 1 - t) div (t + 1) + 1"
proof -
  assume "t < n"
  then have "n = (n - 1 - t) + 1 * (t + 1)" by simp
  then have "n div (t + 1) = ((n - 1 - t) + 1 * (t + 1)) div (t + 1)" by simp
  also have "\<dots> = 1 + (n - 1 - t) div (t + 1)" by (rule div_mult_self1) simp
  finally show ?thesis by simp
qed

lemma unat_not_u256: "unat (not w) = 2 ^ 256 - 1 - unat w" for w :: u256
proof -
  have "not w = - 1 - w" by (simp add: not_eq_complement)
  moreover have "w \<le> - 1" by simp
  ultimately have "unat (not w) = unat (- 1 :: u256) - unat w"
    by (simp add: unat_sub)
  then show ?thesis by (simp add: unat_max_word)
qed

lemma target_to_work_value:
  assumes "length t = 32" "be_nat t \<notin> {0, 1}"
  shows "unat (target_to_work t) = 2 ^ 256 div (be_nat t + 1)"
proof -
  define w where "w = u256_from_be_bytes t"
  have w: "unat w = be_nat t" "unat w \<noteq> 0" "unat w \<noteq> 1"
    using assms by (simp_all add: w_def unat_u256_from_be_bytes)
  have bound: "unat w < 2 ^ 256" using unsigned_less [of w, where ?'a = nat] by simp
  show ?thesis
  proof (cases "w = - 1")
    case True
    then have "unat w = 2 ^ 256 - 1" by (simp add: unat_max_word)
    with True w show ?thesis by (simp add: target_to_work_def Let_def w_def [symmetric])
  next
    case False
    then have inc: "unat (w + 1) = unat w + 1" by (simp add: unat_inc)
    have "unat (not w div (w + 1)) = (2 ^ 256 - 1 - unat w) div (unat w + 1)"
      by (simp add: unat_div inc unat_not_u256)
    moreover have "(2 ^ 256 - 1 - unat w) div (unat w + 1) < 2 ^ 256 - 1"
    proof (rule le_less_trans [OF div_le_dividend])
      show "2 ^ 256 - 1 - unat w < (2 :: nat) ^ 256 - 1"
        using w(2) by (intro diff_less) simp_all
    qed
    ultimately have "not w div (w + 1) \<noteq> - 1" "unat (not w div (w + 1)) = (2 ^ 256 - 1 - unat w) div (unat w + 1)"
      by (simp_all add: word_eq_unat unat_max_word)
    then have "unat (not w div (w + 1) + 1) = (2 ^ 256 - 1 - unat w) div (unat w + 1) + 1"
      using unat_inc [of "not w div (w + 1)"] by simp
    moreover have "w \<noteq> 0" "w \<noteq> 1" using w by (auto simp: word_eq_unat)
    ultimately show ?thesis
      using False div_succ_identity [OF bound] w(1) by (simp add: target_to_work_def Let_def w_def [symmetric])
  qed
qed

lemma nth_less_iff_count:
  fixes t :: "'a::linorder"
  assumes "sorted xs" "k < length xs"
  shows "xs ! k < t \<longleftrightarrow> k < length (filter (\<lambda>x. x < t) xs)"
  using assms
proof (induction xs arbitrary: k)
  case (Cons x xs)
  show ?case
  proof (cases "x < t")
    case True
    then show ?thesis using Cons by (cases k) auto
  next
    case False
    then have "filter (\<lambda>x. x < t) (x # xs) = []" "\<not> (x # xs) ! k < t"
      using Cons.prems nth_mem [of k "x # xs"] by (auto simp: filter_empty_conv dest: order.strict_trans2)
    then show ?thesis by simp
  qed
qed simp

lemma length_filter_sort [simp]: "length (filter P (sort xs)) = length (filter P xs)"
  by (simp add: filter_sort)

lemma verify_timestamp_median:
  "length prev = 11 \<Longrightarrow> verify_timestamp t prev \<longleftrightarrow> 6 \<le> length (filter (\<lambda>x. x < t) prev)"
  using nth_less_iff_count [of "sort prev" 5 t] by (simp add: verify_timestamp_def) linarith

text \<open>The compact encoding of a target: a mantissa of 24 bits and an exponent in bytes.\<close>

definition compact_value :: "u32 \<Rightarrow> nat" where
  "compact_value bits =
     (let sz = unat bits div 2 ^ 24; mantissa = unat bits mod 2 ^ 24 in
      if mantissa > 0x7FFFFF then 0
      else if sz \<le> 3 then mantissa div 256 ^ (3 - sz)
      else mantissa * 256 ^ (sz - 3) mod 2 ^ 256)"

lemma unat_mantissa: "unat (and bits 0x00ffffff) = unat bits mod 2 ^ 24" for bits :: u32
proof -
  have "(0x00ffffff :: u32) = mask 24" by (simp add: mask_eq_exp_minus_1)
  then have "and bits 0x00ffffff = take_bit 24 bits" by (simp add: take_bit_eq_mask)
  then show ?thesis by (simp only: unsigned_take_bit_eq) (simp add: take_bit_eq_mod)
qed

lemma unat_push_bit_u256: "unat (push_bit n w) = unat w * 2 ^ n mod 2 ^ 256" for w :: u256
  by (simp only: unsigned_push_bit_eq) (simp add: push_bit_eq_mult take_bit_eq_mod)

lemma unat_ucast_u32_u256 [simp]: "unat (ucast w :: u256) = unat w" for w :: u32
proof -
  have "unat w < 2 ^ 256" using unsigned_less [of w, where ?'a = nat] by (rule order.strict_trans) simp
  then show ?thesis by (simp only: unsigned_ucast_eq) (simp add: take_bit_nat_eq_self)
qed

lemma length_bits_to_target [simp]: "length (bits_to_target bits) = 32"
  by (simp add: bits_to_target_def Let_def zeros_def)

lemma bits_to_target_value: "be_nat (bits_to_target bits) = compact_value bits"
proof -
  define m where "m = and bits 0x00ffffff"
  have sz: "unat (drop_bit 24 bits) = unat bits div 2 ^ 24" by (simp add: unat_drop_bit_div)
  have m: "unat m = unat bits mod 2 ^ 24" unfolding m_def by (rule unat_mantissa)
  then have le: "m > 0x7FFFFF \<longleftrightarrow> unat bits mod 2 ^ 24 > 0x7FFFFF"
    by (simp add: word_less_nat_alt)
  have pow: "2 ^ (8 * k) = (256 :: nat) ^ k" for k by (simp add: power_mult)
  show ?thesis
    unfolding bits_to_target_def compact_value_def Let_def sz m_def [symmetric] le
    by (simp add: unat_drop_bit_div unat_push_bit_u256 m pow)
qed

lemma bit_length_eq: "2 ^ k \<le> n \<Longrightarrow> n < 2 ^ Suc k \<Longrightarrow> bit_length n = Suc k"
proof (induction k arbitrary: n)
  case 0
  then have "n = 1" by simp
  then show ?case by (simp add: bit_length.simps)
next
  case (Suc k)
  then have "2 ^ k \<le> n div 2" "n div 2 < 2 ^ Suc k" by simp_all
  with Suc.IH [of "n div 2"] Suc.prems show ?case by (simp add: bit_length.simps [of n]) 
qed

lemma bit_length_bounds: "0 < n \<Longrightarrow> 2 ^ (bit_length n - 1) \<le> n \<and> n < 2 ^ bit_length n"
proof (induction n rule: bit_length.induct)
  case (1 n)
  show ?case
  proof (cases "n div 2 = 0")
    case True
    with 1(2) have "n = 1" by simp
    then show ?thesis by (simp add: bit_length.simps)
  next
    case False
    with 1 have ih: "2 ^ (bit_length (n div 2) - 1) \<le> n div 2" "n div 2 < 2 ^ bit_length (n div 2)" by simp_all
    moreover have "bit_length (n div 2) \<noteq> 0" using False by (simp add: bit_length.simps [of "n div 2"])
    then obtain j where "bit_length (n div 2) = Suc j" by (cases "bit_length (n div 2)") auto
    ultimately show ?thesis using 1(2) by (simp add: bit_length.simps [of n]) linarith
  qed
qed

lemma be_nat_append: "be_nat (xs @ ys) = be_nat xs * 256 ^ length ys + be_nat ys"
  by (simp add: be_nat_def le_nat_append)

lemma unat_of_nat_u32: "n < 2 ^ 32 \<Longrightarrow> unat (of_nat n :: u32) = n"
  by (simp add: unat_of_nat take_bit_nat_eq_self)

lemma split_at_three:
  assumes "k < n" "0 < k" "length xs = Suc n"
  obtains pre post where "xs = pre @ [xs ! (k - 1), xs ! k, xs ! (k + 1)] @ post" "length post = n - Suc k"
proof
  have "drop (k - 1) xs = xs ! (k - 1) # xs ! k # xs ! (k + 1) # drop (k + 2) xs"
    using assms Cons_nth_drop_Suc [of "k - 1" xs] Cons_nth_drop_Suc [of k xs] Cons_nth_drop_Suc [of "Suc k" xs] by simp
  then show "xs = take (k - 1) xs @ [xs ! (k - 1), xs ! k, xs ! (k + 1)] @ drop (k + 2) xs"
    using append_take_drop_id [of "k - 1" xs] by simp
  show "length (drop (k + 2) xs) = n - Suc k" using assms by simp
qed

text \<open>On a target between \<open>2 ^ 15\<close> and \<open>2 ^ 255\<close> the encoding keeps the bytes from its highest one: the exponent is
  \<open>33 - sz\<close> and the mantissa the target without its last \<open>30 - sz\<close> bytes.\<close>

lemma target_to_bits_value:
  assumes len: "length t = 32" and v: "2 ^ 15 \<le> be_nat t" "be_nat t < 2 ^ 255"
  defines "sz \<equiv> (263 - bit_length (be_nat t)) div 8"
  obtains b where "target_to_bits t = Some b" "unat b = (33 - sz) * 2 ^ 24 + be_nat t div 256 ^ (30 - sz)"
    "be_nat t div 256 ^ (30 - sz) < 2 ^ 23" "0 < sz" "sz \<le> 30"
proof -
  let ?v = "be_nat t" and ?n = "bit_length (be_nat t)"
  have n: "2 ^ (?n - 1) \<le> ?v" "?v < 2 ^ ?n" using bit_length_bounds [of ?v] v(1) by simp_all
  have "(2 :: nat) ^ 15 < 2 ^ ?n" using v(1) n(2) by (rule le_less_trans)
  then have n_lo: "16 \<le> ?n" by (subst (asm) power_strict_increasing_iff) simp_all
  have "(2 :: nat) ^ (?n - 1) < 2 ^ 255" using n(1) v(2) by (rule le_less_trans)
  then have n_hi: "?n \<le> 255" by (subst (asm) power_strict_increasing_iff) simp_all
  have sz: "0 < sz" "sz \<le> 30" "?n \<le> 8 * (30 - sz) + 23" using n_lo n_hi by (simp_all add: sz_def)
  obtain pre post where t: "t = pre @ [t ! (sz - 1), t ! sz, t ! (sz + 1)] @ post" "length post = 30 - sz"
    using split_at_three [of sz 31 t] sz len by auto
  let ?m = "?v div 256 ^ (30 - sz)" and ?mid = "[t ! (sz - 1), t ! sz, t ! (sz + 1)]"
  have "?v < 2 ^ (8 * (30 - sz) + 23)"
    using n(2) power_increasing [OF sz(3), of "2 :: nat"] by (rule order.strict_trans2) simp
  also have "\<dots> = 2 ^ 23 * 256 ^ (30 - sz)" by (simp add: power_add power_mult)
  finally have m: "?m < 2 ^ 23" by (simp add: less_mult_imp_div_less)
  have "?v = be_nat (pre @ ?mid) * 256 ^ (30 - sz) + be_nat post"
    by (subst t(1)) (simp only: append_assoc [symmetric] be_nat_append t(2))
  then have mid: "?m = be_nat (pre @ ?mid)" using be_nat_bound [of post] t(2) by simp
  have "be_nat (pre @ ?mid) = be_nat pre * 2 ^ 24 + be_nat ?mid" by (simp add: be_nat_append)
  with m mid have mid: "?m = be_nat ?mid" by (cases "be_nat pre") simp_all
  have e: "unat (33 - of_nat sz :: u8) = 33 - sz"
  proof -
    have "(of_nat sz :: u8) \<le> 33" "unat (of_nat sz :: u8) = sz"
      using sz(2) by (simp_all add: word_le_nat_alt unat_of_nat take_bit_nat_eq_self)
    then show ?thesis by (simp add: unat_sub)
  qed
  have "be_nat ((33 - of_nat sz) # ?mid) = (33 - sz) * 2 ^ 24 + ?m" (is "?b = _")
    by (simp only: be_nat_Cons [of "33 - of_nat sz"] e mid) simp
  moreover from this have "?b < 2 ^ 32" using m sz by simp
  ultimately have "unat (of_nat ?b :: u32) = (33 - sz) * 2 ^ 24 + ?m"
    by (simp only: unat_of_nat_u32)
  moreover have "target_to_bits t = Some (of_nat ?b)"
    using sz len by (simp add: target_to_bits_def Let_def sz_def [symmetric] index_def)
  ultimately show thesis using that m sz by blast
qed

definition canonical_bits :: "u32 \<Rightarrow> bool" where
  "canonical_bits bits \<longleftrightarrow> unat bits div 2 ^ 24 \<in> {3..32} \<and> unat bits mod 2 ^ 24 \<in> {2 ^ 15..<2 ^ 23}"

lemma bit_length_mult: "0 < m \<Longrightarrow> bit_length (m * 2 ^ k) = bit_length m + k"
proof -
  assume "0 < m"
  from bit_length_bounds [OF this] obtain j where j: "bit_length m = Suc j"
    using \<open>0 < m\<close> by (cases "bit_length m") auto
  with bit_length_bounds [OF \<open>0 < m\<close>] have "2 ^ (j + k) \<le> m * 2 ^ k" "m * 2 ^ k < 2 ^ Suc (j + k)"
    by (simp_all add: power_add)
  then show ?thesis using j bit_length_eq by simp
qed

lemma bit_length_mantissa: "2 ^ 15 \<le> m \<Longrightarrow> m < 2 ^ 23 \<Longrightarrow> bit_length m \<in> {16..23}"
proof -
  assume m: "2 ^ 15 \<le> m" "m < 2 ^ 23"
  then have b: "2 ^ (bit_length m - 1) \<le> m" "m < 2 ^ bit_length m" using bit_length_bounds [of m] by simp_all
  have "(2 :: nat) ^ 15 < 2 ^ bit_length m" using m(1) b(2) by (rule le_less_trans)
  moreover have "(2 :: nat) ^ (bit_length m - 1) < 2 ^ 23" using b(1) m(2) by (rule le_less_trans)
  ultimately show ?thesis
    by (simp only: power_strict_increasing_iff) simp
qed

lemma compact_value_canonical:
  assumes "canonical_bits bits"
  shows "compact_value bits = (unat bits mod 2 ^ 24) * 256 ^ (unat bits div 2 ^ 24 - 3)"
    and "2 ^ 15 \<le> compact_value bits" and "compact_value bits < 2 ^ 255"
proof -
  let ?m = "unat bits mod 2 ^ 24" and ?e = "unat bits div 2 ^ 24"
  have m: "2 ^ 15 \<le> ?m" "?m < 2 ^ 23" "3 \<le> ?e" "?e \<le> 32" using assms by (simp_all add: canonical_bits_def)
  have p: "(256 :: nat) ^ (?e - 3) \<le> 256 ^ 29" using m by (intro power_increasing) simp_all
  have "?m * 256 ^ (?e - 3) < 2 ^ 23 * 256 ^ 29"
    using m(2) p by (rule mult_less_le_imp_less) simp_all
  then have hi: "?m * 256 ^ (?e - 3) < 2 ^ 255" by simp
  then have "?m * 256 ^ (?e - 3) < 2 ^ 256" by (rule order.strict_trans) simp
  then show v: "compact_value bits = ?m * 256 ^ (?e - 3)"
    using m by (cases "?e = 3") (simp_all add: compact_value_def Let_def)
  have "1 \<le> (256 :: nat) ^ (?e - 3)" by simp
  with m(1) have "2 ^ 15 * 1 \<le> ?m * 256 ^ (?e - 3)" by (rule mult_le_mono)
  then show "2 ^ 15 \<le> compact_value bits" by (simp only: v)
  show "compact_value bits < 2 ^ 255" using hi by (simp only: v)
qed

lemma bits_size: "16 \<le> l \<Longrightarrow> l \<le> 23 \<Longrightarrow> 3 \<le> e \<Longrightarrow> e \<le> 32 \<Longrightarrow> (263 - (l + 8 * (e - 3))) div 8 = 33 - e"
  for l e :: nat
proof -
  assume a: "16 \<le> l" "l \<le> 23" "3 \<le> e" "e \<le> 32"
  then have "263 - (l + 8 * (e - 3)) = (23 - l) + 8 * (33 - e)" by simp
  also have "\<dots> div 8 = (23 - l) div 8 + (33 - e)" by simp
  finally show ?thesis using a by simp
qed

text \<open>C18: The compact difficulty encoding loses nothing on canonical bits: expanding them to a target of 32 bytes
  and encoding it again gives the same bits, without a panic.\<close>

theorem difficulty_bits_roundtrip:
  assumes "canonical_bits bits"
  shows "target_to_bits (bits_to_target bits) = Some bits"
proof -
  let ?m = "unat bits mod 2 ^ 24" and ?e = "unat bits div 2 ^ 24" and ?t = "bits_to_target bits"
  have m: "2 ^ 15 \<le> ?m" "?m < 2 ^ 23" "3 \<le> ?e" "?e \<le> 32" using assms by (simp_all add: canonical_bits_def)
  have v: "be_nat ?t = ?m * 256 ^ (?e - 3)"
    by (simp only: bits_to_target_value compact_value_canonical [OF assms])
  also have "\<dots> = ?m * 2 ^ (8 * (?e - 3))" by (simp add: power_mult)
  finally have "be_nat ?t = ?m * 2 ^ (8 * (?e - 3))" .
  moreover have "0 < ?m" using m(1) by (rule order.strict_trans2 [rotated]) simp
  ultimately have "bit_length (be_nat ?t) = bit_length ?m + 8 * (?e - 3)" by (simp only: bit_length_mult)
  then have sz: "(263 - bit_length (be_nat ?t)) div 8 = 33 - ?e"
    using bits_size [OF _ _ m(3,4)] bit_length_mantissa [OF m(1,2)] by simp
  have range: "length ?t = 32" "2 ^ 15 \<le> be_nat ?t" "be_nat ?t < 2 ^ 255"
    unfolding bits_to_target_value by (rule length_bits_to_target compact_value_canonical [OF assms])+
  from target_to_bits_value [OF this, unfolded sz] obtain b where b: "target_to_bits ?t = Some b"
    "unat b = (33 - (33 - ?e)) * 2 ^ 24 + be_nat ?t div 256 ^ (30 - (33 - ?e))" by metis
  have "33 - (33 - ?e) = ?e" "30 - (33 - ?e) = ?e - 3" using m by auto
  with b(2) have "unat b = ?e * 2 ^ 24 + ?m" by (simp only: v) simp
  then have "b = bits" by (simp add: word_eq_unat)
  with b show ?thesis by simp
qed

theorem difficulty_bits_roundtrip_witness:
  "target_to_bits (bits_to_target 0x190461c8) = Some 0x190461c8"
  using difficulty_bits_roundtrip [of "0x190461c8"] by (simp add: canonical_bits_def)

subsection \<open>Retargeting\<close>

lemma clamped_timespan:
  fixes actual expected :: u32
  assumes "unat expected * 4 < 2 ^ 32"
  shows "unat (if actual < expected div 4 then expected div 4
               else if actual > expected * 4 then expected * 4 else actual)
         = max (unat expected div 4) (min (unat expected * 4) (unat actual))"
proof -
  have four: "unat (expected * 4) = unat expected * 4" "unat (expected div 4) = unat expected div 4"
    using assms unat_mult_lem [of expected 4] by (simp_all add: unat_div)
  then show ?thesis by (auto simp: word_less_nat_alt)
qed

lemma new_difficulty_clamped:
  assumes "unat expected * 4 < 2 ^ 32" "0 < expected"
    and "compact_value bits * (unat expected * 4) < 2 ^ 256"
  shows "be_nat (calculate_new_difficulty epoch_start last_timestamp bits mx expected) =
    min (unat mx) (compact_value bits * max (unat expected div 4) (min (unat expected * 4) (unat (last_timestamp - epoch_start)))
      div unat expected)"
proof -
  let ?t = "u256_from_be_bytes (bits_to_target bits)"
  define span where "span = (if last_timestamp - epoch_start < expected div 4 then expected div 4
               else if last_timestamp - epoch_start > expected * 4 then expected * 4 else last_timestamp - epoch_start)"
  have sp: "unat span = max (unat expected div 4) (min (unat expected * 4) (unat (last_timestamp - epoch_start)))"
    unfolding span_def by (rule clamped_timespan [OF assms(1)])
  have t: "unat ?t = compact_value bits" by (simp add: unat_u256_from_be_bytes bits_to_target_value)
  have "unat span \<le> unat expected * 4" using sp by auto
  then have "compact_value bits * unat span < 2 ^ 256" using assms(3) by (meson le_less_trans mult_le_mono2)
  then have "unat (?t * ucast span) = compact_value bits * unat span"
    using unat_mult_lem [of ?t "ucast span"] t by simp
  then have "unat (?t * ucast span div ucast expected) = compact_value bits * unat span div unat expected"
    by (simp add: unat_div)
  then show ?thesis
    unfolding calculate_new_difficulty_def Let_def span_def [symmetric] sp [symmetric]
    by (simp add: word_less_nat_alt min_def)
qed

text \<open>C17: The retargeting rule. When the last block of the epoch is not older than its first, the new target is the old one
  scaled by the time the epoch took, kept between a quarter and four times the expected time, and never
  above the network's maximum. When the last block is older than the first, the difference wraps around and counts as a very
  slow epoch: the target is scaled by four.\<close>

theorem new_difficulty_value:
  assumes "unat expected * 4 < 2 ^ 32" "0 < expected"
    and "compact_value bits * (unat expected * 4) < 2 ^ 256"
  shows "(epoch_start \<le> last_timestamp \<longrightarrow>
      be_nat (calculate_new_difficulty epoch_start last_timestamp bits mx expected) =
      min (unat mx) (compact_value bits
        * max (unat expected div 4) (min (unat expected * 4) (unat last_timestamp - unat epoch_start)) div unat expected))
    \<and> (last_timestamp < epoch_start \<and> unat epoch_start - unat last_timestamp < 2 ^ 32 - unat expected * 4 \<longrightarrow>
      be_nat (calculate_new_difficulty epoch_start last_timestamp bits mx expected) =
      min (unat mx) (compact_value bits * 4))"
proof (intro conjI impI)
  assume "epoch_start \<le> last_timestamp"
  then show "be_nat (calculate_new_difficulty epoch_start last_timestamp bits mx expected) =
      min (unat mx) (compact_value bits
        * max (unat expected div 4) (min (unat expected * 4) (unat last_timestamp - unat epoch_start)) div unat expected)"
    using new_difficulty_clamped [OF assms] by (simp only: unat_sub)
next
  assume older: "last_timestamp < epoch_start \<and> unat epoch_start - unat last_timestamp < 2 ^ 32 - unat expected * 4"
  then have "unat last_timestamp < unat epoch_start" by (simp add: word_less_nat_alt)
  then have "unat (last_timestamp - epoch_start) = unat last_timestamp + 2 ^ 32 - unat epoch_start"
    by (simp add: unat_sub_if')
  with older have "unat expected * 4 \<le> unat (last_timestamp - epoch_start)" by simp arith
  then have "max (unat expected div 4) (min (unat expected * 4) (unat (last_timestamp - epoch_start))) = unat expected * 4"
    by (simp add: min_absorb1) 
  moreover have "compact_value bits * (unat expected * 4) div unat expected = compact_value bits * 4"
    using assms(2) by (simp add: word_less_nat_alt mult.left_commute)
  ultimately show "be_nat (calculate_new_difficulty epoch_start last_timestamp bits mx expected) =
      min (unat mx) (compact_value bits * 4)"
    using new_difficulty_clamped [OF assms, of epoch_start last_timestamp mx] by simp
qed

theorem new_difficulty_value_witness:
  "be_nat (calculate_new_difficulty 1000 999 0x190461c8 (max_target MAINNET_CONSTANTS) EXPECTED_EPOCH_TIMESPAN) =
     min (unat (max_target MAINNET_CONSTANTS)) (compact_value 0x190461c8 * 4)
   \<and> be_nat (calculate_new_difficulty 1000 2000 0x190461c8 (max_target MAINNET_CONSTANTS) EXPECTED_EPOCH_TIMESPAN) =
     min (unat (max_target MAINNET_CONSTANTS)) (compact_value 0x190461c8 * 302400 div 1209600)"
  using new_difficulty_value [of EXPECTED_EPOCH_TIMESPAN "0x190461c8" 1000 999 "max_target MAINNET_CONSTANTS"]
    new_difficulty_value [of EXPECTED_EPOCH_TIMESPAN "0x190461c8" 1000 2000 "max_target MAINNET_CONSTANTS"]
  by (simp add: EXPECTED_EPOCH_TIMESPAN_def compact_value_def)

subsection \<open>Accepted headers\<close>

text \<open>What every network requires of a header after a state, and what it makes of the state.\<close>

definition header_follows :: "btc_env \<Rightarrow> latest_da_state \<Rightarrow> header_wrapper \<Rightarrow> bool" where
  "header_follows E s h \<longleftrightarrow>
     hw_hash h = hw_block_hash E h \<and> hw_height h = block_height s + 1 \<and> hw_prev_hash h = block_hash s
     \<and> le_nat (hw_hash h) \<le> compact_value (hw_bits h)
     \<and> 6 \<le> length (filter (\<lambda>t. t < hw_time h) (prev_11_timestamps s))"

definition header_recorded :: "latest_da_state \<Rightarrow> header_wrapper \<Rightarrow> latest_da_state \<Rightarrow> bool" where
  "header_recorded s h s' \<longleftrightarrow>
     block_hash s' = hw_hash h \<and> block_height s' = hw_height h
     \<and> prev_11_timestamps s' = push_timestamp h (prev_11_timestamps s)"

definition sha_32 :: "btc_env \<Rightarrow> bool" where
  "sha_32 E \<longleftrightarrow> (\<forall>x. length (env_sha256 E x) = 32)"

lemma length_hw_block_hash: "sha_32 E \<Longrightarrow> length (hw_block_hash E h) = 32"
  by (simp add: sha_32_def hw_block_hash_def dsha_def calculate_double_sha256_def)

lemma common_follows:
  assumes "verify_header_chain_common E h s target bits = Ok u" "length (prev_11_timestamps s) = 11" "sha_32 E"
    and "length target = 32" "be_nat target = compact_value bits"
  shows "header_follows E s h" "hw_bits h = bits"
  using assms length_hw_block_hash [OF assms(3), of h]
  by (auto simp: verify_header_chain_common_def header_follows_def hw_verify_hash_def verify_target_hash_iff
      verify_timestamp_median diff_eq_eq split: if_splits)

lemma max_target_REGTEST: "be_nat (u256_to_be_bytes (max_target REGTEST_CONSTANTS)) = compact_value (max_bits REGTEST_CONSTANTS)"
  by (simp add: REGTEST_CONSTANTS_def compact_value_def)

definition is_regtest :: "network \<Rightarrow> bool" where
  "is_regtest net \<longleftrightarrow> net \<in> {Nightly, TestNetworkWithForks}"

lemma be_nat_add_work:
  "length acc = 32 \<Longrightarrow> be_nat (add_work acc w) = min (2 ^ 256 - 1) (be_nat acc + unat w)"
  using unat_add_lem [of "u256_from_be_bytes acc" w]
  by (auto simp: add_work_def saturating_add_u256_def unat_u256_from_be_bytes unat_max_word min_def)

definition header_work :: "header_wrapper \<Rightarrow> nat" where
  "header_work h = unat (target_to_work (bits_to_target (hw_bits h)))"

lemma pow_accepts:
  assumes "verify_header_chain_pow E constants timespan s h = Some (Ok s')"
    and "length (prev_11_timestamps s) = 11" "sha_32 E"
  shows "header_follows E s h \<and> header_recorded s h s' \<and> hw_bits h = current_target_bits s
    \<and> total_work s' = add_work (total_work s) (target_to_work (bits_to_target (hw_bits h)))"
  using assms common_follows [OF _ assms(2,3) length_bits_to_target bits_to_target_value]
  by (auto simp: verify_header_chain_pow_def Let_def header_recorded_def panic_simps)

lemma testnet4_accepts:
  assumes "verify_header_chain_testnet4 E s h = Some (Ok s')"
    and "length (prev_11_timestamps s) = 11" "sha_32 E"
  shows "header_follows E s h \<and> header_recorded s h s'
    \<and> total_work s' = add_work (total_work s) (target_to_work (bits_to_target (hw_bits h)))"
proof -
  have easiest: "u256_to_be_bytes (max_target TESTNET4_CONSTANTS) = bits_to_target (max_bits TESTNET4_CONSTANTS)"
    by (simp add: bits_to_target_def TESTNET4_CONSTANTS_def Let_def)
  then show ?thesis
    using assms common_follows [OF _ assms(2,3) length_bits_to_target bits_to_target_value]
    by (auto simp: verify_header_chain_testnet4_def Let_def header_recorded_def panic_simps easiest split: if_splits)
qed

lemma regtest_accepts:
  assumes "verify_header_chain_regtest E s h = Some (Ok s')"
    and "length (prev_11_timestamps s) = 11" "sha_32 E"
  shows "header_follows E s h \<and> header_recorded s h s' \<and> total_work s' = zeros 32"
  using assms common_follows [OF _ assms(2,3) length_u256_to_be_bytes max_target_REGTEST]
  by (auto simp: verify_header_chain_regtest_def header_recorded_def panic_simps)

lemma header_accepted:
  assumes "verify_header_chain E (Some s) h net = Some (Ok s')"
    and "length (prev_11_timestamps s) = 11" "sha_32 E"
  shows "header_follows E s h \<and> header_recorded s h s'
    \<and> total_work s' = (if is_regtest net then zeros 32
        else add_work (total_work s) (target_to_work (bits_to_target (hw_bits h))))"
  using assms
  by (cases net) (auto simp: or_else_def is_regtest_def verify_header_chain_mainnet_def verify_header_chain_signet_def
      dest: pow_accepts testnet4_accepts regtest_accepts)

text \<open>A run of the rules over a list of headers.\<close>

inductive header_run :: "btc_env \<Rightarrow> network \<Rightarrow> latest_da_state \<Rightarrow> header_wrapper list \<Rightarrow> latest_da_state \<Rightarrow> bool"
  for E net s where
  start: "header_run E net s [] s"
| extend: "header_run E net s hs t \<Longrightarrow> verify_header_chain E (Some t) h net = Some (Ok u) \<Longrightarrow> header_run E net s (hs @ [h]) u"

inductive_cases header_run_snocE: "header_run E net s (hs @ [h]) u"

lemma header_run_timestamps: 
  "header_run E net s hs t \<Longrightarrow> sha_32 E \<Longrightarrow> length (prev_11_timestamps s) = 11 \<Longrightarrow> length (prev_11_timestamps t) = 11"
  by (induction rule: header_run.induct) (auto dest!: header_accepted simp: header_recorded_def push_timestamp_def)

text \<open>The headers of a run, linked from the state it starts at.\<close>

fun linked :: "btc_env \<Rightarrow> hash32 \<Rightarrow> u64 \<Rightarrow> header_wrapper list \<Rightarrow> bool" where
  "linked E prev height [] \<longleftrightarrow> True"
| "linked E prev height (h # hs) \<longleftrightarrow>
     hw_prev_hash h = prev \<and> hw_height h = height + 1 \<and> le_nat (hw_block_hash E h) \<le> compact_value (hw_bits h)
     \<and> linked E (hw_block_hash E h) (height + 1) hs"

definition tip_hash :: "btc_env \<Rightarrow> hash32 \<Rightarrow> header_wrapper list \<Rightarrow> hash32" where
  "tip_hash E prev hs = (if hs = [] then prev else hw_block_hash E (last hs))"

lemma linked_snoc:
  "linked E prev height (hs @ [h]) \<longleftrightarrow> linked E prev height hs \<and> hw_prev_hash h = tip_hash E prev hs
     \<and> hw_height h = height + of_nat (length hs) + 1 \<and> le_nat (hw_block_hash E h) \<le> compact_value (hw_bits h)"
  by (induction hs arbitrary: prev height) (auto simp: tip_hash_def algebra_simps)

lemma tip_hash_snoc [simp]: "tip_hash E prev (hs @ [h]) = hw_block_hash E h"
  by (simp add: tip_hash_def)

lemma header_run_linked:
  assumes "header_run E net s hs t" "sha_32 E" "length (prev_11_timestamps s) = 11"
  shows "linked E (block_hash s) (block_height s) hs \<and> block_hash t = tip_hash E (block_hash s) hs
    \<and> block_height t = block_height s + of_nat (length hs)"
  using assms
proof (induction rule: header_run.induct)
  case (extend hs t h u)
  have "length (prev_11_timestamps t) = 11" using header_run_timestamps extend by blast
  from header_accepted [OF extend(2) this] extend show ?case
    by (auto simp: linked_snoc header_follows_def header_recorded_def algebra_simps)
qed (simp add: tip_hash_def)

lemma header_run_work:
  assumes "header_run E net s hs t" "sha_32 E" "length (prev_11_timestamps s) = 11" "\<not> is_regtest net"
    and "length (total_work s) = 32"
  shows "length (total_work t) = 32
    \<and> be_nat (total_work t) = min (2 ^ 256 - 1) (be_nat (total_work s) + sum_list (map header_work hs))"
  using assms
proof (induction rule: header_run.induct)
  case start
  then show ?case using be_nat_bound [of "total_work s"] by simp
next
  case (extend hs t h u)
  have "length (prev_11_timestamps t) = 11" using header_run_timestamps extend by blast
  from header_accepted [OF extend(2) this] extend show ?case
    by (simp add: be_nat_add_work header_work_def) (simp add: add_work_def)
qed

lemma header_run_recent:
  assumes "header_run E net s hs t" "sha_32 E" "length (prev_11_timestamps s) = 11"
    and "unat (block_height s) + length hs < 2 ^ 64" "i < length hs" "length hs \<le> i + 11"
  shows "prev_11_timestamps t ! ((unat (block_height s) + i + 1) mod 11) = hw_time (hs ! i)"
  using assms
proof (induction rule: header_run.induct)
  case (extend hs t h u)
  let ?n = "unat (block_height s)"
  have len: "length (prev_11_timestamps t) = 11" using header_run_timestamps extend by blast
  have "linked E (block_hash s) (block_height s) (hs @ [h])"
    using header_run_linked [OF header_run.extend [OF extend(1,2)]] extend by blast
  then have "hw_height h = of_nat (?n + length hs + 1)" by (simp add: linked_snoc)
  then have height: "unat (hw_height h) = ?n + length hs + 1"
    using extend.prems by (simp only: unat_of_nat) (simp add: take_bit_nat_eq_self)
  have ts: "prev_11_timestamps u = (prev_11_timestamps t)[(?n + length hs + 1) mod 11 := hw_time h]"
    using header_accepted [OF extend(2) len] extend.prems
    by (simp add: header_recorded_def push_timestamp_def height)
  show ?case
  proof (cases "i = length hs")
    case True
    then show ?thesis using ts len by simp
  next
    case False
    then have i: "i < length hs" "length hs \<le> i + 11" "length hs - i < 11" using extend.prems by auto
    have "(?n + i + 1) mod 11 \<noteq> (?n + length hs + 1) mod 11"
    proof
      assume "(?n + i + 1) mod 11 = (?n + length hs + 1) mod 11"
      then have "11 dvd (?n + length hs + 1) - (?n + i + 1)" using i by (subst mod_eq_dvd_iff_nat [symmetric]) simp_all
      then have "11 dvd length hs - i" by simp
      with i show False by (auto dest: dvd_imp_le)
    qed
    then show ?thesis
      using extend.IH extend.prems i ts by (simp add: nth_append)
  qed
qed simp

lemma linked_binding:
  assumes "length hs = length hs'" "linked E p n hs" "linked E p' n' hs'" "tip_hash E p hs = tip_hash E p' hs'"
    and "inj_on (\<lambda>x. dsha E (encode_header E x)) (hw_header ` (set hs \<union> set hs'))"
  shows "map hw_header hs = map hw_header hs' \<and> p = p'"
  using assms
proof (induction hs hs' rule: rev_induct2)
  case (4 h hs h' hs')
  have "hw_header h = hw_header h'"
    using 4 by (auto simp: hw_block_hash_def dest!: inj_onD [OF 4(6)])
  moreover from this have "hw_prev_hash h = hw_prev_hash h'" by (simp add: hw_prev_hash_def)
  moreover have "inj_on (\<lambda>x. dsha E (encode_header E x)) (hw_header ` (set hs \<union> set hs'))"
    using 4(6) by (rule inj_on_subset) auto
  ultimately show ?case using 4 by (simp add: linked_snoc)
qed (simp_all add: tip_hash_def)

text \<open>A concrete chain: a hash that pads its input, and headers that are told apart by their nonce.\<close>

definition pad_env :: btc_env where
  "pad_env = \<lparr> env_sha256 = (\<lambda>x. take 32 (x @ zeros 32)), encode_header = (\<lambda>h. be_bytes 4 (h_nonce h)),
     encode_version = be_bytes 4, encode_inputs = (\<lambda>_. []), encode_outputs = (\<lambda>_. []),
     encode_lock_time = be_bytes 4, encode_tx = (\<lambda>tx. be_bytes 4 (btx_lock_time tx)) \<rparr>"

definition pad_header :: "hash32 \<Rightarrow> u32 \<Rightarrow> u64 \<Rightarrow> header_wrapper" where
  "pad_header prev nonce height = HeaderWrapper_new pad_env
     \<lparr> h_version = 2, h_prev_blockhash = prev, h_merkle_root = zeros 32, h_time = 50 + nonce, h_bits = 0x1D00FFFF, h_nonce = nonce \<rparr>
     1 height (zeros 32)"

definition pad_state :: "hash32 \<Rightarrow> u64 \<Rightarrow> hash32 \<Rightarrow> u32 list \<Rightarrow> latest_da_state" where
  "pad_state hash height work ts = \<lparr> block_hash = hash, block_height = height, total_work = work,
     current_target_bits = 0x1D00FFFF, epoch_start_time = 0, prev_11_timestamps = ts \<rparr>"

lemma sha_32_pad: "sha_32 pad_env"
  by (simp add: sha_32_def pad_env_def zeros_def min_def)

lemma le_nat_zeros [simp]: "le_nat (zeros n) = 0"
  using be_nat_zeros [of n] by (simp add: be_nat_def zeros_def)

lemma pad_hash: "dsha pad_env (be_bytes 4 n) = be_bytes 4 n @ zeros 28"
  by (simp add: dsha_def calculate_double_sha256_def pad_env_def zeros_def min_def)

lemma pad_header_sel [simp]:
  "hw_hash (pad_header p n k) = be_bytes 4 n @ zeros 28" "hw_block_hash pad_env (pad_header p n k) = be_bytes 4 n @ zeros 28"
  "hw_height (pad_header p n k) = k" "hw_prev_hash (pad_header p n k) = p" "hw_bits (pad_header p n k) = 0x1D00FFFF"
  "hw_time (pad_header p n k) = 50 + n"
proof -
  have enc: "encode_header pad_env = (\<lambda>h. be_bytes 4 (h_nonce h))" by (simp add: pad_env_def)
  show "hw_hash (pad_header p n k) = be_bytes 4 n @ zeros 28" "hw_block_hash pad_env (pad_header p n k) = be_bytes 4 n @ zeros 28"
  "hw_height (pad_header p n k) = k" "hw_prev_hash (pad_header p n k) = p" "hw_bits (pad_header p n k) = 0x1D00FFFF"
  "hw_time (pad_header p n k) = 50 + n"
    by (simp_all add: pad_header_def HeaderWrapper_new_def hw_hash_def hw_block_hash_def hw_prev_hash_def hw_bits_def
        hw_time_def enc pad_hash)
qed

lemma pad_target: "verify_target_hash (be_bytes 4 n @ zeros 28) (bits_to_target 0x1D00FFFF)"
proof -
  have "le_nat (be_bytes 4 n) < 256 ^ 4" using le_nat_bound [of "be_bytes 4 n"] by simp
  moreover have "compact_value 0x1D00FFFF = 65535 * 256 ^ 26" by (simp add: compact_value_def)
  ultimately show ?thesis
    by (simp add: verify_target_hash_iff bits_to_target_value le_nat_append)
qed

lemma pad_step:
  assumes "k - 1 = n" "k mod 2016 \<notin> {0, 2015}" "length ts = 11" "6 \<le> length (filter (\<lambda>t. t < 50 + nonce) ts)"
  shows "verify_header_chain pad_env (Some (pad_state p n work ts)) (pad_header p nonce k) Mainnet =
     Some (Ok (pad_state (be_bytes 4 nonce @ zeros 28) k (add_work work (target_to_work (bits_to_target 0x1D00FFFF)))
       (ts[unat k mod 11 := 50 + nonce])))"
  using assms pad_target
  by (auto simp: verify_header_chain_mainnet_def verify_header_chain_pow_def verify_header_chain_common_def pad_state_def
      or_else_def hw_verify_hash_def verify_timestamp_median retarget_def next_epoch_start_def BLOCKS_PER_EPOCH_def
      push_timestamp_def Let_def)

definition pad_headers :: "u64 \<Rightarrow> header_wrapper list" where
  "pad_headers n = [pad_header (zeros 32) 1 (n + 1), pad_header (be_bytes 4 (1 :: u32) @ zeros 28) 2 (n + 2)]"

lemma pad_run:
  assumes "(n + 1) mod 2016 \<notin> {0, 2015}" "(n + 2) mod 2016 \<notin> {0, 2015}"
  shows "\<exists>t. header_run pad_env Mainnet (pad_state (zeros 32) n (zeros 32) (replicate 11 0)) (pad_headers n) t
     \<and> block_hash t = be_bytes 4 (2 :: u32) @ zeros 28"
proof -
  let ?work = "target_to_work (bits_to_target 0x1D00FFFF)" and ?h = "be_bytes 4 (1 :: u32) @ zeros 28"
  let ?ts = "(replicate 11 (0 :: u32))[unat (n + 1) mod 11 := 50 + 1]"
  have run: "header_run pad_env Mainnet (pad_state (zeros 32) n (zeros 32) (replicate 11 0)) ([] @ [pad_header (zeros 32) 1 (n + 1)])
      (pad_state ?h (n + 1) (add_work (zeros 32) ?work) ?ts)"
    using assms by (intro header_run.extend [OF header_run.start pad_step]) simp_all
  have "\<forall>t \<in> set ?ts. t < 50 + 2" using set_update_subset_insert [of "replicate 11 0" "unat (n + 1) mod 11" "50 + 1 :: u32"] by auto
  then have "filter (\<lambda>t. t < 50 + 2) ?ts = ?ts" by (simp add: filter_id_conv)
  then have "verify_header_chain pad_env (Some (pad_state ?h (n + 1) (add_work (zeros 32) ?work) ?ts)) (pad_header ?h 2 (n + 2)) Mainnet =
      Some (Ok (pad_state (be_bytes 4 (2 :: u32) @ zeros 28) (n + 2) (add_work (add_work (zeros 32) ?work) ?work)
        (?ts[unat (n + 2) mod 11 := 50 + 2])))"
    using assms by (intro pad_step) simp_all
  from header_run.extend [OF run this] show ?thesis by (auto simp: pad_headers_def pad_state_def)
qed

text \<open>C6: The header chain of a network. Headers that are accepted one after another on a state have consecutive heights, each
  names the hash of the one before it (the first the state's block hash), each hash is the double SHA-256 of
  its header and as a number at most the target its bits encode. The state at the end names the last header's hash and
  height, holds the times of the last eleven headers, and outside regtest its work is the sum of theirs.\<close>

theorem header_chain_verified:
  assumes "header_run E net s hs t" "sha_32 E" "length (prev_11_timestamps s) = 11" "length (total_work s) = 32"
    and "unat (block_height s) + length hs < 2 ^ 64"
  shows "linked E (block_hash s) (block_height s) hs
    \<and> block_hash t = tip_hash E (block_hash s) hs \<and> block_height t = block_height s + of_nat (length hs)
    \<and> (\<forall>i. i < length hs \<and> length hs \<le> i + 11 \<longrightarrow>
          prev_11_timestamps t ! ((unat (block_height s) + i + 1) mod 11) = hw_time (hs ! i))
    \<and> (\<not> is_regtest net \<longrightarrow>
          be_nat (total_work t) = min (2 ^ 256 - 1) (be_nat (total_work s) + sum_list (map header_work hs)))"
  using header_run_linked [OF assms(1-3)] header_run_recent [OF assms(1-3,5)] header_run_work [OF assms(1-3) _ assms(4)]
  by blast

theorem header_chain_verified_witness:
  "\<exists>t. header_run pad_env Mainnet (pad_state (zeros 32) 7 (zeros 32) (replicate 11 0)) (pad_headers 7) t
     \<and> linked pad_env (zeros 32) 7 (pad_headers 7) \<and> block_height t = 9
     \<and> prev_11_timestamps t ! 8 = 51 \<and> prev_11_timestamps t ! 9 = 52
     \<and> be_nat (total_work t) = min (2 ^ 256 - 1) (sum_list (map header_work (pad_headers 7)))"
proof -
  obtain t where run: "header_run pad_env Mainnet (pad_state (zeros 32) 7 (zeros 32) (replicate 11 0)) (pad_headers 7) t"
    using pad_run [of 7] by auto
  have len: "length (pad_headers 7) = 2" by (simp add: pad_headers_def)
  note p = header_chain_verified [OF run sha_32_pad]
  have ts: "prev_11_timestamps t ! ((7 + i + 1) mod 11) = hw_time (pad_headers 7 ! i)" if "i < 2" for i
    using p that len by (simp add: pad_state_def)
  have "prev_11_timestamps t ! 8 = 51" "prev_11_timestamps t ! 9 = 52"
    using ts [of 0] ts [of 1] by (simp_all add: pad_headers_def)
  with p run len show ?thesis by (auto simp: pad_state_def is_regtest_def)
qed

text \<open>C13: The hash of the last header binds the whole chain: two runs of the same length that end at the same block hash
  accepted the same headers and started at the same hash, provided the hash of a header has no collision among the headers
  of the two runs.\<close>

theorem header_chain_binding:
  assumes "header_run E net s hs t" "header_run E net' s' hs' t'" "sha_32 E"
    and "length (prev_11_timestamps s) = 11" "length (prev_11_timestamps s') = 11"
    and "length hs = length hs'" "block_hash t = block_hash t'"
    and "inj_on (\<lambda>x. dsha E (encode_header E x)) (hw_header ` (set hs \<union> set hs'))"
  shows "map hw_header hs = map hw_header hs' \<and> block_hash s = block_hash s'"
  using header_run_linked [OF assms(1,3,4)] header_run_linked [OF assms(2,3,5)] assms(6-8) linked_binding by metis

theorem header_chain_binding_witness:
  "\<exists>t t'. header_run pad_env Mainnet (pad_state (zeros 32) 7 (zeros 32) (replicate 11 0)) (pad_headers 7) t
     \<and> header_run pad_env Mainnet (pad_state (zeros 32) 20 (zeros 32) (replicate 11 0)) (pad_headers 20) t'
     \<and> map hw_header (pad_headers 7) = map hw_header (pad_headers 20)"
proof -
  obtain t t' where run: "header_run pad_env Mainnet (pad_state (zeros 32) 7 (zeros 32) (replicate 11 0)) (pad_headers 7) t"
      "header_run pad_env Mainnet (pad_state (zeros 32) 20 (zeros 32) (replicate 11 0)) (pad_headers 20) t'"
    and tip: "block_hash t = block_hash t'"
    using pad_run [of 7] pad_run [of 20] by auto
  have "inj_on (\<lambda>x. dsha pad_env (encode_header pad_env x)) (hw_header ` (set (pad_headers 7) \<union> set (pad_headers 20)))"
  proof -
    have "dsha pad_env (encode_header pad_env x) = be_bytes 4 (h_nonce x) @ zeros 28" for x
      using pad_hash [of "h_nonce x"] by (simp add: pad_env_def)
    moreover have "be_bytes 4 (1 :: u32) \<noteq> be_bytes 4 (2 :: u32)" using be_bytes_u32_inj by fastforce
    ultimately show ?thesis by (auto simp: inj_on_def pad_headers_def pad_header_def HeaderWrapper_new_def)
  qed
  moreover have "length (pad_headers 7) = length (pad_headers 20)"
    "length (prev_11_timestamps (pad_state (zeros 32) n (zeros 32) (replicate 11 0))) = 11" for n
    by (simp_all add: pad_headers_def pad_state_def)
  ultimately have "map hw_header (pad_headers 7) = map hw_header (pad_headers 20)"
    using header_chain_binding [OF run sha_32_pad] tip by blast
  with run show ?thesis by (intro exI [of _ t] exI [of _ t']) simp
qed

end
