(* ===== verification/Script_Parser.thy ===== *)
theory Script_Parser
  imports Bitcoin_Env
begin

section \<open>The parser of inscription scripts\<close>

text \<open>
  Models \<^verbatim>\<open>bitcoin-da/src/helpers/parsers.rs\<close> and the transaction kinds of \<^verbatim>\<open>bitcoin-da/src/helpers/mod.rs\<close>.
  The iterator over the instructions of a script is the list of what it still yields, and a parser returns its value
  with the rest of that list. The scripts and witnesses of the \<^verbatim>\<open>bitcoin\<close> crate and the \<^verbatim>\<open>k256\<close> signature check are the
  record \<^verbatim>\<open>script_env\<close>.
\<close>

datatype instruction = PushBytes bytes | Op u8

definition OP_FALSE :: u8 where "OP_FALSE = 0x00"
definition OP_IF :: u8 where "OP_IF = 0x63"
definition OP_ENDIF :: u8 where "OP_ENDIF = 0x68"
definition OP_NIP :: u8 where "OP_NIP = 0x77"
definition OP_CHECKSIGVERIFY :: u8 where "OP_CHECKSIGVERIFY = 0xad"

text \<open>
  Of other crates: \<^verbatim>\<open>Witness::tapscript\<close>, \<^verbatim>\<open>Script::instructions\<close> with its errors as strings, SHA-256, and of \<^verbatim>\<open>k256\<close>
  \<^verbatim>\<open>VerifyingKey::from_sec1_bytes\<close>, \<^verbatim>\<open>Signature::from_slice\<close> (whether they succeed) and \<^verbatim>\<open>verify_digest\<close>.
\<close>

record script_env =
  tapscript :: "bytes list \<Rightarrow> bytes option"
  script_instructions :: "bytes \<Rightarrow> (string + instruction) list"
  sc_sha256 :: "bytes \<Rightarrow> hash32"
  key_from_sec1 :: "bytes \<Rightarrow> bool"
  sig_from_slice :: "bytes \<Rightarrow> bool"
  verify_digest :: "bytes \<Rightarrow> hash32 \<Rightarrow> bytes \<Rightarrow> bool"

subsection \<open>Transaction kinds\<close>

datatype transaction_kind =
    KindComplete
  | KindAggregate
  | KindChunks
  | KindBatchProofMethodId
  | KindSequencerCommitment
  | KindUnknown u16

fun kind_to_bytes :: "transaction_kind \<Rightarrow> bytes" where
  "kind_to_bytes KindComplete = le_bytes 2 (0 :: u16)"
| "kind_to_bytes KindAggregate = le_bytes 2 (1 :: u16)"
| "kind_to_bytes KindChunks = le_bytes 2 (2 :: u16)"
| "kind_to_bytes KindBatchProofMethodId = le_bytes 2 (3 :: u16)"
| "kind_to_bytes KindSequencerCommitment = le_bytes 2 (4 :: u16)"
| "kind_to_bytes (KindUnknown n) = le_bytes 2 n"

definition kind_from_bytes :: "bytes \<Rightarrow> transaction_kind option" where
  "kind_from_bytes bs =
     (if length bs \<noteq> 2 then None
      else let n = of_nat (le_nat bs) :: u16 in
        if n = 0 then Some KindComplete
        else if n = 1 then Some KindAggregate
        else if n = 2 then Some KindChunks
        else if n = 3 then Some KindBatchProofMethodId
        else if n = 4 then Some KindSequencerCommitment
        else Some (KindUnknown n))"

subsection \<open>Parsed transactions\<close>

record parsed_signed =
  ps_body :: bytes
  ps_signature :: bytes
  ps_public_key :: bytes

datatype parsed_transaction =
    Complete parsed_signed
  | Aggregate parsed_signed
  | Chunk bytes
  | BatchProofMethodId bytes
  | SequencerCommitment parsed_signed

datatype parser_error =
    InvalidHeaderLength
  | InvalidHeaderType u16
  | NonTapscriptWitness
  | UnexpectedEndOfScript
  | UnexpectedOpcode
  | InvalidBody
  | ScriptError string

definition method_id_hash :: "script_env \<Rightarrow> bytes \<Rightarrow> hash32" where
  "method_id_hash S body = sc_sha256 S body"

definition get_sig_verified_hash :: "script_env \<Rightarrow> parsed_signed \<Rightarrow> hash32 option" where
  "get_sig_verified_hash S p =
     (if key_from_sec1 S (ps_public_key p)
      then let hash = sc_sha256 S (ps_body p) in
        if sig_from_slice S (ps_signature p) \<and> verify_digest S (ps_public_key p) hash (ps_signature p)
        then Some hash else None
      else None)"

subsection \<open>Reading instructions\<close>

type_synonym instr_stream = "(parser_error + instruction) list"

definition read_instr :: "instr_stream \<Rightarrow> parser_error + (instruction \<times> instr_stream)" where
  "read_instr s =
     (case s of [] \<Rightarrow> Err UnexpectedEndOfScript | r # rest \<Rightarrow> and_then r (\<lambda>i. Ok (i, rest)))"

definition read_push_bytes :: "instr_stream \<Rightarrow> parser_error + (bytes \<times> instr_stream)" where
  "read_push_bytes s = and_then (read_instr s) (\<lambda>(i, rest).
     case i of PushBytes b \<Rightarrow> Ok (b, rest) | Op _ \<Rightarrow> Err UnexpectedOpcode)"

definition read_opcode :: "instr_stream \<Rightarrow> parser_error + (u8 \<times> instr_stream)" where
  "read_opcode s = and_then (read_instr s) (\<lambda>(i, rest).
     case i of Op op \<Rightarrow> Ok (op, rest) | PushBytes _ \<Rightarrow> Err UnexpectedOpcode)"

text \<open>\<^verbatim>\<open>if OP_X != read_opcode(instructions)? { return Err(UnexpectedOpcode) }\<close>.\<close>

definition expect_opcode :: "u8 \<Rightarrow> instr_stream \<Rightarrow> parser_error + instr_stream" where
  "expect_opcode op s = and_then (read_opcode s) (\<lambda>(op', rest).
     if op \<noteq> op' then Err UnexpectedOpcode else Ok rest)"

text \<open>
  The parts the body parsers have in common: \<^verbatim>\<open>OP_FALSE OP_IF\<close> at the start, the loop over the pushes of the body up
  to \<^verbatim>\<open>OP_ENDIF\<close>, and the nonce, \<^verbatim>\<open>OP_NIP\<close> and the end of the script.
\<close>

definition open_envelope :: "instr_stream \<Rightarrow> parser_error + instr_stream" where
  "open_envelope s = and_then (read_push_bytes s) (\<lambda>(op_false, s1).
     if op_false \<noteq> [] then Err UnexpectedOpcode else expect_opcode OP_IF s1)"

fun read_chunks :: "bytes list \<Rightarrow> instr_stream \<Rightarrow> parser_error + (bytes list \<times> instr_stream)" where
  "read_chunks cs [] = Err UnexpectedEndOfScript"
| "read_chunks cs (Inl e # s) = Err e"
| "read_chunks cs (Inr (PushBytes c) # s) =
     (if c = [] then Err UnexpectedOpcode else read_chunks (cs @ [c]) s)"
| "read_chunks cs (Inr (Op op) # s) =
     (if op = OP_ENDIF then Ok (cs, s) else Err UnexpectedOpcode)"

definition close_envelope :: "instr_stream \<Rightarrow> parser_error + unit" where
  "close_envelope s = and_then (read_push_bytes s) (\<lambda>(nonce, s1).
     and_then (expect_opcode OP_NIP s1) (\<lambda>s2. if s2 \<noteq> [] then Err UnexpectedOpcode else Ok ()))"

subsection \<open>The body parsers\<close>

definition parse_type_0_body :: "instr_stream \<Rightarrow> parser_error + parsed_signed" where
  "parse_type_0_body s0 =
     and_then (open_envelope s0) (\<lambda>s1.
     and_then (read_push_bytes s1) (\<lambda>(sig, s2).
     and_then (read_push_bytes s2) (\<lambda>(pk, s3).
     and_then (read_chunks [] s3) (\<lambda>(cs, s4).
     and_then (close_envelope s4) (\<lambda>_.
     Ok \<lparr> ps_body = concat cs, ps_signature = sig, ps_public_key = pk \<rparr>)))))"

definition parse_type_1_body :: "instr_stream \<Rightarrow> parser_error + parsed_signed" where
  "parse_type_1_body s0 =
     and_then (open_envelope s0) (\<lambda>s1.
     and_then (read_push_bytes s1) (\<lambda>(sig, s2).
     and_then (read_push_bytes s2) (\<lambda>(pk, s3).
     and_then (read_chunks [] s3) (\<lambda>(cs, s4).
     and_then (close_envelope s4) (\<lambda>_.
     Ok \<lparr> ps_body = concat cs, ps_signature = sig, ps_public_key = pk \<rparr>)))))"

definition parse_type_2_body :: "instr_stream \<Rightarrow> parser_error + bytes" where
  "parse_type_2_body s0 =
     and_then (open_envelope s0) (\<lambda>s1.
     and_then (read_chunks [] s1) (\<lambda>(cs, s2).
     and_then (close_envelope s2) (\<lambda>_. Ok (concat cs))))"

definition parse_type_3_body :: "instr_stream \<Rightarrow> parser_error + bytes" where
  "parse_type_3_body s0 =
     and_then (open_envelope s0) (\<lambda>s1.
     and_then (read_push_bytes s1) (\<lambda>(body, s2).
     and_then (expect_opcode OP_ENDIF s2) (\<lambda>s3.
     and_then (close_envelope s3) (\<lambda>_. Ok body))))"

definition parse_type_4_body :: "instr_stream \<Rightarrow> parser_error + parsed_signed" where
  "parse_type_4_body s0 =
     and_then (open_envelope s0) (\<lambda>s1.
     and_then (read_push_bytes s1) (\<lambda>(sig, s2).
     and_then (read_push_bytes s2) (\<lambda>(pk, s3).
     and_then (read_push_bytes s3) (\<lambda>(body, s4).
     and_then (expect_opcode OP_ENDIF s4) (\<lambda>s5.
     and_then (close_envelope s5) (\<lambda>_.
     Ok \<lparr> ps_body = body, ps_signature = sig, ps_public_key = pk \<rparr>))))))"

definition parse_transaction :: "instr_stream \<Rightarrow> parser_error + parsed_transaction" where
  "parse_transaction s0 =
     and_then (read_push_bytes s0) (\<lambda>(public_key, s1).
     and_then (expect_opcode OP_CHECKSIGVERIFY s1) (\<lambda>s2.
     and_then (read_push_bytes s2) (\<lambda>(kind_slice, s3).
     case kind_from_bytes kind_slice of
       None \<Rightarrow> Err InvalidHeaderLength
     | Some KindComplete \<Rightarrow> map_ok Complete (parse_type_0_body s3)
     | Some KindAggregate \<Rightarrow> map_ok Aggregate (parse_type_1_body s3)
     | Some KindChunks \<Rightarrow> map_ok Chunk (parse_type_2_body s3)
     | Some KindBatchProofMethodId \<Rightarrow> map_ok BatchProofMethodId (parse_type_3_body s3)
     | Some KindSequencerCommitment \<Rightarrow> map_ok SequencerCommitment (parse_type_4_body s3)
     | Some (KindUnknown n) \<Rightarrow> Err (InvalidHeaderType n))))"

text \<open>\<^verbatim>\<open>tx.input[0]\<close> panics for a transaction without inputs.\<close>

definition get_script :: "script_env \<Rightarrow> btc_tx \<Rightarrow> (parser_error + bytes) option" where
  "get_script S tx = do {
     i \<leftarrow> index (btx_input tx) 0;
     Some (case tapscript S (ti_witness i) of None \<Rightarrow> Err NonTapscriptWitness | Some s \<Rightarrow> Ok s)
   }"

definition script_stream :: "script_env \<Rightarrow> bytes \<Rightarrow> instr_stream" where
  "script_stream S script = map (map_sum ScriptError id) (script_instructions S script)"

definition parse_relevant_transaction :: "script_env \<Rightarrow> btc_tx \<Rightarrow> (parser_error + parsed_transaction) option" where
  "parse_relevant_transaction S tx = do {
     r \<leftarrow> get_script S tx;
     Some (and_then r (\<lambda>script. parse_transaction (script_stream S script)))
   }"

subsection \<open>What the readers accept\<close>

lemma le_bytes_2_inverse:
  assumes "length bs = 2"
  shows "le_bytes 2 (of_nat (le_nat bs) :: u16) = bs"
proof -
  obtain a b where bs: "bs = [a, b]"
    using assms by (auto simp: length_Suc_conv numeral_2_eq_2)
  have bounds: "unat a < 256" "unat b < 256"
    using unsigned_less [of a, where ?'a = nat] unsigned_less [of b, where ?'a = nat] by simp_all
  have "unat (of_nat m :: u16) = m" if "m < 65536" for m
    using that by (simp add: unsigned_of_nat take_bit_nat_eq_self)
  from this [of "le_nat bs"] bounds have n: "unat (of_nat (le_nat bs) :: u16) = unat a + 256 * unat b"
    by (simp add: bs del: of_nat_add of_nat_mult)
  have "unat (ucast (of_nat (le_nat bs) :: u16) :: u8) = unat a"
    "unat (ucast (drop_bit 8 (of_nat (le_nat bs) :: u16)) :: u8) = unat b"
    using bounds by (simp_all only: unat_ucast_u8 unat_drop_bit_div n) simp_all
  then show ?thesis
    by (simp add: le_bytes_def bs upt_rec word_eq_unat)
qed

lemma of_nat_le_nat_le_bytes_2: "(of_nat (le_nat (le_bytes 2 n)) :: u16) = n"
proof -
  have "le_nat (le_bytes 2 n) = unat n"
    using unsigned_less [of n, where ?'a = nat] by (simp add: le_nat_le_bytes)
  then show ?thesis
    by simp
qed

lemma kind_from_bytes_Some:
  "kind_from_bytes bs = Some k \<longleftrightarrow>
     bs = kind_to_bytes k \<and> (\<forall>n. k = KindUnknown n \<longrightarrow> n \<notin> {0, 1, 2, 3, 4})"
proof
  assume l: "kind_from_bytes bs = Some k"
  then have "length bs = 2"
    by (simp add: kind_from_bytes_def split: if_splits)
  from le_bytes_2_inverse [OF this] l this show "bs = kind_to_bytes k \<and> (\<forall>n. k = KindUnknown n \<longrightarrow> n \<notin> {0, 1, 2, 3, 4})"
    unfolding kind_from_bytes_def Let_def by (auto split: if_splits)
next
  assume r: "bs = kind_to_bytes k \<and> (\<forall>n. k = KindUnknown n \<longrightarrow> n \<notin> {0, 1, 2, 3, 4})"
  then show "kind_from_bytes bs = Some k"
    by (cases k) (simp_all add: kind_from_bytes_def of_nat_le_nat_le_bytes_2)
qed

named_theorems reader_iff \<open>what an instruction reader accepts\<close>

lemma read_push_bytes_Ok [reader_iff]: "read_push_bytes s = Ok (b, r) \<longleftrightarrow> s = Ok (PushBytes b) # r"
  by (cases "([] :: bytes list, s)" rule: read_chunks.cases) (auto simp: read_push_bytes_def read_instr_def)

lemma expect_opcode_Ok [reader_iff]: "expect_opcode op s = Ok r \<longleftrightarrow> s = Ok (Op op) # r"
  by (cases "([] :: bytes list, s)" rule: read_chunks.cases) (auto simp: expect_opcode_def read_opcode_def read_instr_def)

lemma open_envelope_Ok [reader_iff]: "open_envelope s = Ok r \<longleftrightarrow> s = Ok (PushBytes []) # Ok (Op OP_IF) # r"
  by (auto simp: open_envelope_def panic_simps reader_iff)

lemma read_chunks_Ok [reader_iff]:
  "read_chunks cs s = Ok (ds, r) \<longleftrightarrow>
     (\<exists>es. ds = cs @ es \<and> [] \<notin> set es \<and> s = map (\<lambda>c. Ok (PushBytes c)) es @ Ok (Op OP_ENDIF) # r)"
proof (induction cs s rule: read_chunks.induct)
  case (3 cs c s)
  show ?case
  proof (cases "c = []")
    case True
    then show ?thesis
      by (auto simp: append_eq_Cons_conv Cons_eq_append_conv)
  next
    case False
    have "(\<exists>es. ds = (cs @ [c]) @ es \<and> [] \<notin> set es \<and> s = map (\<lambda>c. Ok (PushBytes c)) es @ Ok (Op OP_ENDIF) # r)
      \<longleftrightarrow> (\<exists>es. ds = cs @ es \<and> [] \<notin> set es \<and> Ok (PushBytes c) # s = map (\<lambda>c. Ok (PushBytes c)) es @ Ok (Op OP_ENDIF) # r)"
      (is "?l \<longleftrightarrow> ?r")
    proof
      assume ?l
      then obtain es where "ds = (cs @ [c]) @ es" "[] \<notin> set es"
        "s = map (\<lambda>c. Ok (PushBytes c)) es @ Ok (Op OP_ENDIF) # r"
        by blast
      then show ?r
        using False by (intro exI [of _ "c # es"]) auto
    next
      assume ?r
      then obtain es where es: "ds = cs @ es" "[] \<notin> set es"
        "Ok (PushBytes c) # s = map (\<lambda>c. Ok (PushBytes c)) es @ Ok (Op OP_ENDIF) # r"
        by blast
      then show ?l
        by (cases es) auto
    qed
    with 3 False show ?thesis
      by simp
  qed
qed (auto simp: Cons_eq_append_conv append_eq_Cons_conv)

lemma close_envelope_Ok [reader_iff]:
  "close_envelope s = Ok u \<longleftrightarrow> (\<exists>nonce. s = [Ok (PushBytes nonce), Ok (Op OP_NIP)])"
  by (auto simp: close_envelope_def panic_simps reader_iff)

subsection \<open>The grammar of inscriptions\<close>

text \<open>
  The scripts of the five kinds, as a specification: a key, \<^verbatim>\<open>OP_CHECKSIGVERIFY\<close> and the kind, an envelope
  \<^verbatim>\<open>OP_FALSE OP_IF ... OP_ENDIF\<close> that holds the content, a nonce and \<^verbatim>\<open>OP_NIP\<close>. Complete, aggregate and chunk bodies are
  the concatenation of any number of non-empty pushes; a method id or a sequencer commitment is one push.
\<close>

definition envelope :: "transaction_kind \<Rightarrow> bytes \<Rightarrow> bytes list \<Rightarrow> bytes \<Rightarrow> instruction list" where
  "envelope kind key pushes nonce =
     [PushBytes key, Op OP_CHECKSIGVERIFY, PushBytes (kind_to_bytes kind), PushBytes [], Op OP_IF]
     @ map PushBytes pushes @ [Op OP_ENDIF, PushBytes nonce, Op OP_NIP]"

fun carries :: "parsed_transaction \<Rightarrow> bytes list \<Rightarrow> bool" where
  "carries (Complete p) (sig # pk # cs) \<longleftrightarrow>
     p = \<lparr> ps_body = concat cs, ps_signature = sig, ps_public_key = pk \<rparr> \<and> [] \<notin> set cs"
| "carries (Aggregate p) (sig # pk # cs) \<longleftrightarrow>
     p = \<lparr> ps_body = concat cs, ps_signature = sig, ps_public_key = pk \<rparr> \<and> [] \<notin> set cs"
| "carries (Chunk b) cs \<longleftrightarrow> b = concat cs \<and> [] \<notin> set cs"
| "carries (BatchProofMethodId b) ps \<longleftrightarrow> ps = [b]"
| "carries (SequencerCommitment p) ps \<longleftrightarrow> ps = [ps_signature p, ps_public_key p, ps_body p]"
| "carries _ _ \<longleftrightarrow> False"

definition kind_of :: "parsed_transaction \<Rightarrow> transaction_kind" where
  "kind_of p = (case p of Complete _ \<Rightarrow> KindComplete | Aggregate _ \<Rightarrow> KindAggregate | Chunk _ \<Rightarrow> KindChunks
     | BatchProofMethodId _ \<Rightarrow> KindBatchProofMethodId | SequencerCommitment _ \<Rightarrow> KindSequencerCommitment)"

text \<open>The body parsers accept what follows the kind in those scripts.\<close>

definition envelope_body :: "bytes list \<Rightarrow> bytes \<Rightarrow> instr_stream" where
  "envelope_body pushes nonce = map Ok ([PushBytes [], Op OP_IF] @ map PushBytes pushes @ [Op OP_ENDIF, PushBytes nonce, Op OP_NIP])"

lemma map_Ok_envelope:
  "map Ok (envelope kind key pushes nonce) =
     Ok (PushBytes key) # Ok (Op OP_CHECKSIGVERIFY) # Ok (PushBytes (kind_to_bytes kind)) # envelope_body pushes nonce"
  by (simp add: envelope_def envelope_body_def)

lemma carries_signed:
  "carries (Complete p) ps \<longleftrightarrow>
     (\<exists>cs. ps = ps_signature p # ps_public_key p # cs \<and> ps_body p = concat cs \<and> [] \<notin> set cs)"
  "carries (Aggregate p) ps \<longleftrightarrow>
     (\<exists>cs. ps = ps_signature p # ps_public_key p # cs \<and> ps_body p = concat cs \<and> [] \<notin> set cs)"
  by (cases "(Complete p, ps)" rule: carries.cases; cases p; auto)
     (cases "(Aggregate p, ps)" rule: carries.cases; cases p; auto)

lemma parse_type_0_body_Ok:
  "parse_type_0_body s = Ok p \<longleftrightarrow> (\<exists>ps nonce. carries (Complete p) ps \<and> s = envelope_body ps nonce)"
  by (cases p) (force simp: parse_type_0_body_def panic_simps reader_iff envelope_body_def carries_signed o_def)

lemma parse_type_1_body_Ok:
  "parse_type_1_body s = Ok p \<longleftrightarrow> (\<exists>ps nonce. carries (Aggregate p) ps \<and> s = envelope_body ps nonce)"
  by (cases p) (force simp: parse_type_1_body_def panic_simps reader_iff envelope_body_def carries_signed o_def)

lemma parse_type_2_body_Ok:
  "parse_type_2_body s = Ok b \<longleftrightarrow> (\<exists>ps nonce. carries (Chunk b) ps \<and> s = envelope_body ps nonce)"
  by (force simp: parse_type_2_body_def panic_simps reader_iff envelope_body_def o_def)

lemma parse_type_3_body_Ok:
  "parse_type_3_body s = Ok b \<longleftrightarrow> (\<exists>ps nonce. carries (BatchProofMethodId b) ps \<and> s = envelope_body ps nonce)"
  by (force simp: parse_type_3_body_def panic_simps reader_iff envelope_body_def)

lemma parse_type_4_body_Ok:
  "parse_type_4_body s = Ok p \<longleftrightarrow> (\<exists>ps nonce. carries (SequencerCommitment p) ps \<and> s = envelope_body ps nonce)"
  by (cases p) (force simp: parse_type_4_body_def panic_simps reader_iff envelope_body_def)

lemmas body_parser_iff =
  parse_type_0_body_Ok parse_type_1_body_Ok parse_type_2_body_Ok parse_type_3_body_Ok parse_type_4_body_Ok

definition parse_body :: "transaction_kind \<Rightarrow> instr_stream \<Rightarrow> parser_error + parsed_transaction" where
  "parse_body k s = (case k of
       KindComplete \<Rightarrow> map_ok Complete (parse_type_0_body s)
     | KindAggregate \<Rightarrow> map_ok Aggregate (parse_type_1_body s)
     | KindChunks \<Rightarrow> map_ok Chunk (parse_type_2_body s)
     | KindBatchProofMethodId \<Rightarrow> map_ok BatchProofMethodId (parse_type_3_body s)
     | KindSequencerCommitment \<Rightarrow> map_ok SequencerCommitment (parse_type_4_body s)
     | KindUnknown n \<Rightarrow> Err (InvalidHeaderType n))"

lemma parse_transaction_eq:
  "parse_transaction s0 =
     and_then (read_push_bytes s0) (\<lambda>(public_key, s1).
     and_then (expect_opcode OP_CHECKSIGVERIFY s1) (\<lambda>s2.
     and_then (read_push_bytes s2) (\<lambda>(kind_slice, s3).
       case kind_from_bytes kind_slice of None \<Rightarrow> Err InvalidHeaderLength | Some k \<Rightarrow> parse_body k s3)))"
proof -
  have "(case k of None \<Rightarrow> Err InvalidHeaderLength
     | Some KindComplete \<Rightarrow> map_ok Complete (parse_type_0_body s3)
     | Some KindAggregate \<Rightarrow> map_ok Aggregate (parse_type_1_body s3)
     | Some KindChunks \<Rightarrow> map_ok Chunk (parse_type_2_body s3)
     | Some KindBatchProofMethodId \<Rightarrow> map_ok BatchProofMethodId (parse_type_3_body s3)
     | Some KindSequencerCommitment \<Rightarrow> map_ok SequencerCommitment (parse_type_4_body s3)
     | Some (KindUnknown n) \<Rightarrow> Err (InvalidHeaderType n)) =
     (case k of None \<Rightarrow> Err InvalidHeaderLength | Some k' \<Rightarrow> parse_body k' s3)" for k s3
    by (simp add: parse_body_def split: option.split transaction_kind.split)
  then show ?thesis
    by (simp add: parse_transaction_def)
qed

lemma parse_transaction_Ok:
  "parse_transaction s = Ok p \<longleftrightarrow>
     (\<exists>key k rest. s = Ok (PushBytes key) # Ok (Op OP_CHECKSIGVERIFY) # Ok (PushBytes (kind_to_bytes k)) # rest
        \<and> (\<forall>n. k = KindUnknown n \<longrightarrow> n \<notin> {0, 1, 2, 3, 4}) \<and> parse_body k rest = Ok p)"
proof -
  have "(case x of None \<Rightarrow> Err InvalidHeaderLength | Some k \<Rightarrow> parse_body k r) = Ok p \<longleftrightarrow>
      (\<exists>k. x = Some k \<and> parse_body k r = Ok p)" for x r
    by (cases x) auto
  then show ?thesis
    by (auto simp: parse_transaction_eq panic_simps reader_iff kind_from_bytes_Some)
qed

lemma parse_body_Ok:
  "parse_body k s = Ok p \<longleftrightarrow> k = kind_of p \<and> (\<exists>ps nonce. carries p ps \<and> s = envelope_body ps nonce)"
  by (cases p; cases k) (auto simp: parse_body_def kind_of_def body_parser_iff panic_simps simp del: carries.simps)

lemma kind_of_known: "kind_of p \<noteq> KindUnknown n"
  by (simp add: kind_of_def split: parsed_transaction.split)

lemma parse_transaction_iff:
  "parse_transaction s = Ok p \<longleftrightarrow>
     (\<exists>key pushes nonce. carries p pushes \<and> s = map Ok (envelope (kind_of p) key pushes nonce))"
  by (auto simp: parse_transaction_Ok parse_body_Ok map_Ok_envelope kind_of_known)

text \<open>
  C28: The parser of reveal scripts accepts exactly the inscriptions. It returns a parsed transaction for the scripts
  of that kind that carry its content in their envelope, with any key and any nonce, and an error for every other
  sequence of instructions, one with a script error in it included.
\<close>

theorem parser_accepts_inscriptions:
  "parse_transaction s = Ok p \<longleftrightarrow>
     (\<exists>key pushes nonce. carries p pushes \<and> s = map Ok (envelope (kind_of p) key pushes nonce))"
  by (rule parse_transaction_iff)

end
