(* ===== verification/Inscription.thy ===== *)
theory Inscription
  imports Script_Parser "HOL-Library.Multiset"
begin

section \<open>Building commit and reveal transactions\<close>

text \<open>
  Models \<^verbatim>\<open>bitcoin-da/src/helpers/builders/mod.rs\<close> and \<^verbatim>\<open>body_builders.rs\<close>: the choice of the outputs to spend, the commit
  transaction whose size is found by iteration, the reveal transaction with its taproot witness, and the search for a
  reveal whose witness transaction id starts with the prefix. Amounts are \<^verbatim>\<open>u64\<close> and wrap; those of the \<^verbatim>\<open>Amount\<close> type
  panic instead. The two loops that need not end (the size of the commit transaction, the nonce) are partial functions:
  \<^const>\<open>None\<close> is a panic or no return.
\<close>

record utxo =
  u_tx_id :: hash32
  u_vout :: u32
  u_address :: "bytes option"
  u_script_pubkey :: string
  u_amount :: u64
  u_confirmations :: u32
  u_spendable :: bool
  u_solvable :: bool

datatype script_op = PushSlice bytes | PushXOnlyKey bytes | PushOpcode u8

text \<open>
  The functions of the \<^verbatim>\<open>bitcoin\<close> and \<^verbatim>\<open>secp256k1\<close> crates for a key of type \<open>'k\<close>: the script builder, the taproot
  construction for a script and an internal key, addresses by their script, the virtual size, the signature hash of
  input 0 for the given previous outputs, the two signature schemes, the transaction ids, borsh of the list of chunk ids,
  and the iteration order of a \<^verbatim>\<open>HashSet\<close>.
\<close>

record 'k wallet_env =
  into_script :: "script_op list \<Rightarrow> bytes"
  x_only_key :: "'k \<Rightarrow> bytes"
  tap_control_block :: "bytes \<Rightarrow> bytes \<Rightarrow> bytes"
  tap_merkle_root :: "bytes \<Rightarrow> bytes \<Rightarrow> bytes option"
  tap_leaf_hash :: "bytes \<Rightarrow> hash32"
  p2tr :: "bytes \<Rightarrow> bytes option \<Rightarrow> bytes"
  p2tr_tweaked :: "bytes \<Rightarrow> bytes"
  tap_tweak :: "'k \<Rightarrow> bytes option \<Rightarrow> bytes"
  vsize :: "btc_tx \<Rightarrow> nat"
  script_spend_sighash :: "btc_tx \<Rightarrow> tx_out list \<Rightarrow> hash32 \<Rightarrow> bytes option"
  sign_schnorr :: "'k \<Rightarrow> bytes \<Rightarrow> bytes"
  compute_txid :: "btc_tx \<Rightarrow> hash32"
  compute_wtxid :: "btc_tx \<Rightarrow> hash32"
  w_sha256 :: "bytes \<Rightarrow> hash32"
  sign_ecdsa :: "'k \<Rightarrow> hash32 \<Rightarrow> bytes"
  ecdsa_public_key :: "'k \<Rightarrow> bytes"
  borsh_aggregate :: "hash32 list \<Rightarrow> hash32 list \<Rightarrow> bytes"
  script_hex :: "bytes \<Rightarrow> string"
  hash_set_order :: "utxo list \<Rightarrow> utxo list"

datatype builder_error = NotEnoughUtxos | InputUtxoNotBigEnough

definition REVEAL_OUTPUT_AMOUNT :: u64 where "REVEAL_OUTPUT_AMOUNT = 546"
definition REVEAL_OUTPUT_THRESHOLD :: u64 where "REVEAL_OUTPUT_THRESHOLD = 2000"
definition ENABLE_RBF_NO_LOCKTIME :: u32 where "ENABLE_RBF_NO_LOCKTIME = 0xFFFFFFFD"

subsection \<open>Choosing the outputs to spend\<close>

fun take_utxos :: "u64 \<Rightarrow> utxo list \<Rightarrow> utxo list \<Rightarrow> u64 \<Rightarrow> utxo list \<times> u64" where
  "take_utxos amount [] chosen acc = (chosen, acc)"
| "take_utxos amount (u # us) chosen acc =
     (let acc' = acc + u_amount u; chosen' = chosen @ [u]
      in if amount \<le> acc' then (chosen', acc') else take_utxos amount us chosen' acc')"

definition leftovers :: "'k wallet_env \<Rightarrow> utxo list \<Rightarrow> utxo list \<Rightarrow> utxo list" where
  "leftovers W utxos chosen = hash_set_order W (filter (\<lambda>u. u \<notin> set chosen) utxos)"

definition choose_utxos ::
  "'k wallet_env \<Rightarrow> utxo option \<Rightarrow> utxo list \<Rightarrow> u64 \<Rightarrow> builder_error + (utxo list \<times> u64 \<times> utxo list)" where
  "choose_utxos W required_utxo utxos amount =
     (let (chosen, acc) = (case required_utxo of Some r \<Rightarrow> ([r], u_amount r) | None \<Rightarrow> ([], 0))
      in if amount \<le> acc then Ok (chosen, acc, utxos)
      else let remaining = amount - acc;
               bigger = filter (\<lambda>u. remaining \<le> u_amount u) utxos
      in if bigger \<noteq> []
         then let u = hd (sort_key u_amount bigger); chosen' = chosen @ [u]
              in Ok (chosen', acc + u_amount u, leftovers W utxos chosen')
         else let smaller = sort_key (\<lambda>u. - int (unat (u_amount u))) (filter (\<lambda>u. u_amount u < remaining) utxos);
                  (chosen', acc') = take_utxos amount smaller chosen acc
              in if acc' < amount then Err NotEnoughUtxos else Ok (chosen', acc', leftovers W utxos chosen'))"

subsection \<open>The commit transaction\<close>

definition mk_tx :: "tx_in list \<Rightarrow> tx_out list \<Rightarrow> btc_tx" where
  "mk_tx ins outs = \<lparr> btx_version = 2, btx_lock_time = 0, btx_input = ins, btx_output = outs \<rparr>"

definition mk_input :: "hash32 \<Rightarrow> u32 \<Rightarrow> bytes list \<Rightarrow> tx_in" where
  "mk_input txid vout witness =
     \<lparr> ti_previous_output = \<lparr> op_txid = txid, op_vout = vout \<rparr>, ti_script_sig = [],
       ti_sequence = ENABLE_RBF_NO_LOCKTIME, ti_witness = witness \<rparr>"

definition mk_output :: "u64 \<Rightarrow> bytes \<Rightarrow> tx_out" where
  "mk_output v script = \<lparr> to_amount = v, to_script_pubkey = script \<rparr>"

definition get_size_commit :: "'k wallet_env \<Rightarrow> tx_in list \<Rightarrow> tx_out list \<Rightarrow> nat" where
  "get_size_commit W ins outs =
     vsize W (mk_tx (map (\<lambda>i. i\<lparr>ti_witness := ti_witness i @ [zeros 64]\<rparr>) ins) outs)"

definition get_size_reveal :: "'k wallet_env \<Rightarrow> bytes \<Rightarrow> u64 \<Rightarrow> bytes \<Rightarrow> bytes \<Rightarrow> nat" where
  "get_size_reveal W recipient output_amount script control_block =
     vsize W (mk_tx [mk_input (zeros 32) 0 [zeros 64, script, control_block]] [mk_output output_amount recipient])"

definition non_dust_change :: u64 where "non_dust_change = 546"

definition spend :: "utxo \<Rightarrow> tx_in" where
  "spend u = mk_input (u_tx_id u) (u_vout u) []"

definition commit_change :: "u64 \<Rightarrow> u64 \<Rightarrow> u64" where
  "commit_change acc input_total =
     (let has_change = REVEAL_OUTPUT_AMOUNT \<le> acc - input_total
      in if has_change then acc - input_total + non_dust_change else non_dust_change)"

text \<open>The body of the loop: the transaction with the fee for \<open>last_size\<close>, and its own size.\<close>

definition commit_at ::
  "'k wallet_env \<Rightarrow> utxo option \<Rightarrow> utxo list \<Rightarrow> bytes \<Rightarrow> bytes \<Rightarrow> u64 \<Rightarrow> u64 \<Rightarrow> nat
    \<Rightarrow> builder_error + (btc_tx \<times> utxo list \<times> nat)" where
  "commit_at W prev_utxo utxos recipient change_address output_value fee_rate last_size =
     (let fee = of_nat last_size * fee_rate; input_total = output_value + fee + non_dust_change
      in and_then (choose_utxos W prev_utxo utxos input_total) (\<lambda>(chosen, acc, leftover).
           let outputs = [mk_output output_value recipient, mk_output (commit_change acc input_total) change_address];
               inputs = map spend chosen
           in Ok (mk_tx inputs outputs, leftover, get_size_commit W inputs outputs)))"

partial_function (option) commit_loop ::
  "'k wallet_env \<Rightarrow> utxo option \<Rightarrow> utxo list \<Rightarrow> bytes \<Rightarrow> bytes \<Rightarrow> u64 \<Rightarrow> u64 \<Rightarrow> nat
    \<Rightarrow> (builder_error + (btc_tx \<times> utxo list)) option" where
  "commit_loop W prev_utxo utxos recipient change_address output_value fee_rate last_size =
     (case commit_at W prev_utxo utxos recipient change_address output_value fee_rate last_size of
        Inl e \<Rightarrow> Some (Err e)
      | Inr (tx, leftover, sz) \<Rightarrow>
          if sz = last_size then Some (Ok (tx, leftover))
          else commit_loop W prev_utxo utxos recipient change_address output_value fee_rate sz)"

definition build_commit_transaction ::
  "'k wallet_env \<Rightarrow> utxo option \<Rightarrow> utxo list \<Rightarrow> bytes \<Rightarrow> bytes \<Rightarrow> u64 \<Rightarrow> u64
    \<Rightarrow> (builder_error + (btc_tx \<times> utxo list)) option" where
  "build_commit_transaction W prev_utxo utxos recipient change_address output_value fee_rate =
     (let size = get_size_commit W [mk_input (zeros 32) 0 []]
                   [mk_output output_value recipient, mk_output non_dust_change change_address];
          utxos' = (case prev_utxo of None \<Rightarrow> utxos
                    | Some r \<Rightarrow> filter (\<lambda>u. \<not> (u_vout u = u_vout r \<and> u_tx_id u = u_tx_id r)) utxos)
      in commit_loop W prev_utxo utxos' recipient change_address output_value fee_rate size)"

subsection \<open>The reveal transaction and its witness\<close>

definition build_reveal_transaction ::
  "'k wallet_env \<Rightarrow> tx_out \<Rightarrow> hash32 \<Rightarrow> u32 \<Rightarrow> bytes \<Rightarrow> u64 \<Rightarrow> u64 \<Rightarrow> bytes \<Rightarrow> bytes \<Rightarrow> builder_error + btc_tx" where
  "build_reveal_transaction W input_utxo input_txid input_vout recipient output_value fee_rate reveal_script control_block =
     (let outputs = [mk_output output_value recipient];
          inputs = [mk_input input_txid input_vout []];
          size = get_size_reveal W recipient output_value reveal_script control_block;
          fee = of_nat size * fee_rate;
          input_total = output_value + fee
      in if to_amount input_utxo < REVEAL_OUTPUT_AMOUNT \<or> to_amount input_utxo < input_total
         then Err InputUtxoNotBigEnough
         else Ok (mk_tx inputs outputs))"

definition build_control_block :: "'k wallet_env \<Rightarrow> bytes \<Rightarrow> bytes \<Rightarrow> bytes \<times> bytes option \<times> hash32" where
  "build_control_block W script pk = (tap_control_block W script pk, tap_merkle_root W script pk, tap_leaf_hash W script)"

definition set_witness :: "btc_tx \<Rightarrow> bytes list \<Rightarrow> btc_tx option" where
  "set_witness tx wit = do {
     i \<leftarrow> index (btx_input tx) 0;
     Some (tx\<lparr>btx_input := (btx_input tx)[0 := i\<lparr>ti_witness := wit\<rparr>]\<rparr>)
   }"

definition sign_reveal :: "'k wallet_env \<Rightarrow> btc_tx \<Rightarrow> btc_tx \<Rightarrow> hash32 \<Rightarrow> 'k \<Rightarrow> bytes option" where
  "sign_reveal W commit_tx reveal_tx tapscript_hash key_pair = do {
     out \<leftarrow> index (btx_output commit_tx) 0;
     signature_hash \<leftarrow> script_spend_sighash W reveal_tx [out] tapscript_hash;
     Some (sign_schnorr W key_pair signature_hash)
   }"

definition build_witness :: "'k wallet_env \<Rightarrow> btc_tx \<Rightarrow> btc_tx \<Rightarrow> hash32 \<Rightarrow> bytes \<Rightarrow> bytes \<Rightarrow> 'k \<Rightarrow> btc_tx option" where
  "build_witness W commit_tx reveal_tx tapscript_hash reveal_script control_block key_pair = do {
     sig \<leftarrow> sign_reveal W commit_tx reveal_tx tapscript_hash key_pair;
     set_witness reveal_tx [sig, reveal_script, control_block]
   }"

definition update_witness :: "'k wallet_env \<Rightarrow> btc_tx \<Rightarrow> btc_tx \<Rightarrow> hash32 \<Rightarrow> 'k \<Rightarrow> btc_tx option" where
  "update_witness W commit_tx reveal_tx tapscript_hash key_pair = do {
     sig \<leftarrow> sign_reveal W commit_tx reveal_tx tapscript_hash key_pair;
     i \<leftarrow> index (btx_input reveal_tx) 0;
     reveal_script \<leftarrow> index (ti_witness i) 1;
     control_block \<leftarrow> index (ti_witness i) 2;
     set_witness reveal_tx [sig, reveal_script, control_block]
   }"

subsection \<open>Mining the prefix of the witness transaction id\<close>

text \<open>\<^verbatim>\<open>Amount\<close> arithmetic panics where \<^verbatim>\<open>u64\<close> would wrap.\<close>

definition sub_one_sat :: "u64 \<Rightarrow> u64 option" where
  "sub_one_sat v = (if v = 0 then None else Some (v - 1))"

definition add_one_sat :: "u64 \<Rightarrow> u64 option" where
  "add_one_sat v = (if v = - 1 then None else Some (v + 1))"

definition change_output :: "(u64 \<Rightarrow> u64 option) \<Rightarrow> nat \<Rightarrow> btc_tx \<Rightarrow> btc_tx option" where
  "change_output f i tx = do {
     out \<leftarrow> index (btx_output tx) i;
     v \<leftarrow> f (to_amount out);
     Some (tx\<lparr>btx_output := (btx_output tx)[i := out\<lparr>to_amount := v\<rparr>]\<rparr>)
   }"

definition set_prev_txid :: "hash32 \<Rightarrow> btc_tx \<Rightarrow> btc_tx option" where
  "set_prev_txid txid tx = do {
     i \<leftarrow> index (btx_input tx) 0;
     Some (tx\<lparr>btx_input := (btx_input tx)[0 := i\<lparr>ti_previous_output := (ti_previous_output i)\<lparr>op_txid := txid\<rparr>\<rparr>]\<rparr>)
   }"

text \<open>The \<^verbatim>\<open>else\<close> branch of the inner loop: one satoshi moves from the reveal to the change of the commit transaction.\<close>

definition mine_step :: "'k wallet_env \<Rightarrow> 'k \<Rightarrow> hash32 \<Rightarrow> btc_tx \<Rightarrow> btc_tx \<Rightarrow> (btc_tx \<times> btc_tx) option" where
  "mine_step W key_pair tapscript_hash commit_tx reveal_tx = do {
     commit_tx \<leftarrow> change_output sub_one_sat 0 commit_tx;
     commit_tx \<leftarrow> change_output add_one_sat 1 commit_tx;
     reveal_tx \<leftarrow> change_output sub_one_sat 0 reveal_tx;
     reveal_tx \<leftarrow> set_prev_txid (compute_txid W commit_tx) reveal_tx;
     reveal_tx \<leftarrow> update_witness W commit_tx reveal_tx tapscript_hash key_pair;
     Some (commit_tx, reveal_tx)
   }"

definition first_amount :: "btc_tx \<Rightarrow> u64 option" where
  "first_amount tx = map_option to_amount (index (btx_output tx) 0)"

lemma first_amount_change_output_0:
  "change_output f 0 tx = Some tx' \<Longrightarrow> \<exists>v v'. first_amount tx = Some v \<and> f v = Some v' \<and> first_amount tx' = Some v'"
  by (auto simp: change_output_def first_amount_def panic_simps index_def)

lemma first_amount_set_prev_txid: "set_prev_txid txid tx = Some tx' \<Longrightarrow> first_amount tx' = first_amount tx"
  by (auto simp: set_prev_txid_def first_amount_def panic_simps)

lemma first_amount_update_witness: "update_witness W c tx h k = Some tx' \<Longrightarrow> first_amount tx' = first_amount tx"
  by (auto simp: update_witness_def set_witness_def first_amount_def panic_simps)

lemma sub_one_sat_less: "sub_one_sat v = Some v' \<Longrightarrow> unat v = Suc (unat v')"
  by (auto simp: sub_one_sat_def panic_simps unat_gt_0 unat_minus_one)

lemma mine_step_decreases:
  assumes "mine_step W k h commit_tx reveal_tx = Some (commit', reveal')"
  shows "\<exists>r r'. first_amount reveal_tx = Some r \<and> first_amount reveal' = Some r' \<and> unat r = Suc (unat r')"
proof -
  from assms obtain c1 c2 r1 r2 where
    change: "change_output sub_one_sat 0 reveal_tx = Some r1" and
    rest: "set_prev_txid (compute_txid W c2) r1 = Some r2" "update_witness W c2 r2 h k = Some reveal'"
    by (auto simp: mine_step_def panic_simps)
  from first_amount_change_output_0 [OF change] obtain v v' where
    v: "first_amount reveal_tx = Some v" "sub_one_sat v = Some v'" "first_amount r1 = Some v'"
    by blast
  with rest have "first_amount reveal' = Some v'"
    by (simp add: first_amount_update_witness first_amount_set_prev_txid)
  with v show ?thesis
    by (simp add: sub_one_sat_less)
qed

text \<open>The inner loop: a pair whose reveal has the prefix, or none once an amount has reached its bound.\<close>

function mine ::
  "'k wallet_env \<Rightarrow> 'k \<Rightarrow> hash32 \<Rightarrow> bytes option \<Rightarrow> bytes \<Rightarrow> u64 \<Rightarrow> bytes \<Rightarrow> btc_tx \<Rightarrow> btc_tx
    \<Rightarrow> (btc_tx \<times> btc_tx) option option" where
  "mine W key_pair tapscript_hash tap_root commit_tx_address min_commit_value prefix commit_tx reveal_tx =
     (case (first_amount commit_tx, first_amount reveal_tx) of
        (Some c, Some r) \<Rightarrow>
          if min_commit_value \<le> c \<and> REVEAL_OUTPUT_AMOUNT < r
          then if starts_with (compute_wtxid W reveal_tx) prefix
               then if p2tr_tweaked W (tap_tweak W key_pair tap_root) = commit_tx_address
                    then Some (Some (commit_tx, reveal_tx)) else None
               else (case mine_step W key_pair tapscript_hash commit_tx reveal_tx of
                       None \<Rightarrow> None
                     | Some (commit', reveal') \<Rightarrow>
                         mine W key_pair tapscript_hash tap_root commit_tx_address min_commit_value prefix commit' reveal')
          else Some None
      | _ \<Rightarrow> None)"
  by pat_completeness auto
termination
  by (relation "measure (\<lambda>(W, k, h, root, addr, m, p, c, r). case first_amount r of None \<Rightarrow> 0 | Some v \<Rightarrow> unat v)")
     (auto dest!: mine_step_decreases)

declare mine.simps [simp del]

subsection \<open>The four inscriptions\<close>

datatype da_txs =
    TxsComplete btc_tx "hash32 \<times> btc_tx"
  | TxsChunked "btc_tx list" "btc_tx list" btc_tx "hash32 \<times> btc_tx"
  | TxsBatchProofMethodId btc_tx "hash32 \<times> btc_tx"
  | TxsSequencerCommitment btc_tx "hash32 \<times> btc_tx"

datatype raw_tx_data =
    RawComplete bytes
  | RawChunks "bytes list"
  | RawBatchProofMethodId bytes
  | RawSequencerCommitment bytes

text \<open>\<^verbatim>\<open>PushBytesBuf::try_from(v).expect(..)\<close> panics from \<open>2 ^ 32\<close> bytes on.\<close>

definition push_buf :: "bytes \<Rightarrow> script_op option" where
  "push_buf bs = (if length bs < 2 ^ 32 then Some (PushSlice bs) else None)"

definition sign_blob_with_private_key :: "'k wallet_env \<Rightarrow> bytes \<Rightarrow> 'k \<Rightarrow> bytes \<times> bytes" where
  "sign_blob_with_private_key W blob private_key =
     (sign_ecdsa W private_key (w_sha256 W blob), ecdsa_public_key W private_key)"

definition header_items :: "bytes \<Rightarrow> transaction_kind \<Rightarrow> script_op list" where
  "header_items public_key kind =
     [PushXOnlyKey public_key, PushOpcode OP_CHECKSIGVERIFY, PushSlice (kind_to_bytes kind),
      PushOpcode OP_FALSE, PushOpcode OP_IF]"

definition body_items :: "bytes \<Rightarrow> script_op list" where
  "body_items body = map PushSlice (chunks 520 body)"

text \<open>
  One turn of the nonce loop: finish the script with the nonce, build and fund both transactions, sign the reveal and run
  the inner loop. The result is an error, no luck with this nonce, or the pair with the outputs left over.
\<close>

definition attempt_nonce ::
  "'k wallet_env \<Rightarrow> 'k \<Rightarrow> utxo option \<Rightarrow> utxo list \<Rightarrow> bytes \<Rightarrow> u64 \<Rightarrow> u64 \<Rightarrow> bytes \<Rightarrow> script_op list \<Rightarrow> u64
    \<Rightarrow> (builder_error + (btc_tx \<times> btc_tx \<times> utxo list) option) option" where
  "attempt_nonce W key_pair prev_utxo utxos change_address commit_fee_rate reveal_fee_rate prefix items nonce =
     (let public_key = x_only_key W key_pair;
          reveal_script = into_script W (items @ [PushSlice (le_bytes 8 nonce), PushOpcode OP_NIP]);
          (control_block, tap_root, tapscript_hash) = build_control_block W reveal_script public_key;
          commit_tx_address = p2tr W public_key tap_root;
          reveal_value = REVEAL_OUTPUT_AMOUNT;
          fee = of_nat (get_size_reveal W change_address reveal_value reveal_script control_block) * reveal_fee_rate;
          reveal_input_value = fee + reveal_value + REVEAL_OUTPUT_THRESHOLD
      in do {
        commit \<leftarrow> build_commit_transaction W prev_utxo utxos commit_tx_address change_address reveal_input_value commit_fee_rate;
        case commit of
          Inl e \<Rightarrow> Some (Err e)
        | Inr (commit_tx, leftover_utxos) \<Rightarrow> do {
            out \<leftarrow> index (btx_output commit_tx) 0;
            case build_reveal_transaction W out (compute_txid W commit_tx) 0 change_address
                   (reveal_value + REVEAL_OUTPUT_THRESHOLD) reveal_fee_rate reveal_script control_block of
              Inl e \<Rightarrow> Some (Err e)
            | Inr reveal_tx \<Rightarrow> do {
                reveal_tx \<leftarrow> build_witness W commit_tx reveal_tx tapscript_hash reveal_script control_block key_pair;
                found \<leftarrow> mine W key_pair tapscript_hash tap_root commit_tx_address (fee + reveal_value) prefix commit_tx reveal_tx;
                Some (Ok (map_option (\<lambda>(c, r). (c, r, leftover_utxos)) found))
              }
          }
      })"

partial_function (option) nonce_loop ::
  "'k wallet_env \<Rightarrow> 'k \<Rightarrow> utxo option \<Rightarrow> utxo list \<Rightarrow> bytes \<Rightarrow> u64 \<Rightarrow> u64 \<Rightarrow> bytes \<Rightarrow> script_op list \<Rightarrow> u64
    \<Rightarrow> (builder_error + (btc_tx \<times> btc_tx \<times> utxo list)) option" where
  "nonce_loop W key_pair prev_utxo utxos change_address commit_fee_rate reveal_fee_rate prefix items nonce = do {
     r \<leftarrow> attempt_nonce W key_pair prev_utxo utxos change_address commit_fee_rate reveal_fee_rate prefix items nonce;
     case r of
       Inl e \<Rightarrow> Some (Err e)
     | Inr found \<Rightarrow> (case found of
           Some res \<Rightarrow> Some (Ok res)
         | None \<Rightarrow> nonce_loop W key_pair prev_utxo utxos change_address commit_fee_rate reveal_fee_rate prefix items (nonce + 1))
   }"

definition with_id :: "'k wallet_env \<Rightarrow> btc_tx \<Rightarrow> hash32 \<times> btc_tx" where
  "with_id W tx = (compute_txid W tx, tx)"

definition signed_items :: "'k wallet_env \<Rightarrow> 'k \<Rightarrow> transaction_kind \<Rightarrow> bytes \<Rightarrow> script_op list option" where
  "signed_items W da_private_key kind body = do {
     let (signature, signer_public_key) = sign_blob_with_private_key W body da_private_key;
     s \<leftarrow> push_buf signature;
     p \<leftarrow> push_buf signer_public_key;
     Some (header_items (x_only_key W da_private_key) kind @ [s, p] @ body_items body @ [PushOpcode OP_ENDIF])
   }"

definition create_inscription_type_0 ::
  "'k wallet_env \<Rightarrow> bytes \<Rightarrow> 'k \<Rightarrow> utxo option \<Rightarrow> utxo list \<Rightarrow> bytes \<Rightarrow> u64 \<Rightarrow> u64 \<Rightarrow> bytes \<Rightarrow> (builder_error + da_txs) option" where
  "create_inscription_type_0 W body da_private_key prev_utxo utxos change_address commit_fee_rate reveal_fee_rate prefix = do {
     items \<leftarrow> signed_items W da_private_key KindComplete body;
     r \<leftarrow> nonce_loop W da_private_key prev_utxo utxos change_address commit_fee_rate reveal_fee_rate prefix items 16;
     Some (map_ok (\<lambda>(commit, reveal, _). TxsComplete commit (with_id W reveal)) r)
   }"

text \<open>
  Type 1: the reveals of the chunks in a chain (each commit spends the previous reveal, and the change of one commit joins
  the spendable outputs), then the aggregate with the ids of the reveals.
\<close>

definition chunk_items :: "'k wallet_env \<Rightarrow> 'k \<Rightarrow> bytes \<Rightarrow> script_op list" where
  "chunk_items W da_private_key body =
     header_items (x_only_key W da_private_key) KindChunks @ body_items body @ [PushOpcode OP_ENDIF]"

definition output_utxo :: "'k wallet_env \<Rightarrow> btc_tx \<Rightarrow> u32 \<Rightarrow> tx_out \<Rightarrow> utxo" where
  "output_utxo W tx vout out =
     \<lparr> u_tx_id = compute_txid W tx, u_vout = vout, u_address = None, u_script_pubkey = script_hex W (to_script_pubkey out),
       u_amount = to_amount out, u_confirmations = 0, u_spendable = True, u_solvable = True \<rparr>"

fun create_chunks ::
  "'k wallet_env \<Rightarrow> 'k \<Rightarrow> bytes \<Rightarrow> u64 \<Rightarrow> u64 \<Rightarrow> bytes \<Rightarrow> bytes list \<Rightarrow> utxo option \<Rightarrow> utxo list \<Rightarrow> btc_tx list \<Rightarrow> btc_tx list
    \<Rightarrow> (builder_error + (utxo option \<times> utxo list \<times> btc_tx list \<times> btc_tx list)) option" where
  "create_chunks W da_private_key change_address commit_fee_rate reveal_fee_rate prefix [] prev_utxo utxos commits reveals =
     Some (Ok (prev_utxo, utxos, commits, reveals))"
| "create_chunks W da_private_key change_address commit_fee_rate reveal_fee_rate prefix (body # bodies) prev_utxo utxos commits reveals = do {
     r \<leftarrow> nonce_loop W da_private_key prev_utxo utxos change_address commit_fee_rate reveal_fee_rate prefix
            (chunk_items W da_private_key body) 16;
     case r of
       Inl e \<Rightarrow> Some (Err e)
     | Inr (commit, reveal, leftover_utxos) \<Rightarrow> do {
         out \<leftarrow> index (btx_output reveal) 0;
         let utxos' = leftover_utxos @ (if 1 < length (btx_output commit) then [output_utxo W commit 1 (btx_output commit ! 1)] else []);
         create_chunks W da_private_key change_address commit_fee_rate reveal_fee_rate prefix bodies
           (Some (output_utxo W reveal 0 out)) utxos' (commits @ [commit]) (reveals @ [reveal])
       }
   }"

definition create_inscription_type_1 ::
  "'k wallet_env \<Rightarrow> bytes list \<Rightarrow> 'k \<Rightarrow> utxo option \<Rightarrow> utxo list \<Rightarrow> bytes \<Rightarrow> u64 \<Rightarrow> u64 \<Rightarrow> bytes \<Rightarrow> (builder_error + da_txs) option" where
  "create_inscription_type_1 W bodies da_private_key prev_utxo utxos change_address commit_fee_rate reveal_fee_rate prefix = do {
     r \<leftarrow> create_chunks W da_private_key change_address commit_fee_rate reveal_fee_rate prefix bodies prev_utxo utxos [] [];
     case r of
       Inl e \<Rightarrow> Some (Err e)
     | Inr (prev_utxo', utxos', commits, reveals) \<Rightarrow> do {
         let body = borsh_aggregate W (map (compute_txid W) reveals) (map (compute_wtxid W) reveals);
         items \<leftarrow> signed_items W da_private_key KindAggregate body;
         r \<leftarrow> nonce_loop W da_private_key prev_utxo' utxos' change_address commit_fee_rate reveal_fee_rate prefix items 16;
         Some (map_ok (\<lambda>(commit, reveal, _). TxsChunked commits reveals commit (with_id W reveal)) r)
       }
   }"

definition create_inscription_type_3 ::
  "'k wallet_env \<Rightarrow> bytes \<Rightarrow> 'k \<Rightarrow> utxo option \<Rightarrow> utxo list \<Rightarrow> bytes \<Rightarrow> u64 \<Rightarrow> u64 \<Rightarrow> bytes \<Rightarrow> (builder_error + da_txs) option" where
  "create_inscription_type_3 W body da_private_key prev_utxo utxos change_address commit_fee_rate reveal_fee_rate prefix = do {
     r \<leftarrow> nonce_loop W da_private_key prev_utxo utxos change_address commit_fee_rate reveal_fee_rate prefix
            (header_items (x_only_key W da_private_key) KindBatchProofMethodId @ body_items body @ [PushOpcode OP_ENDIF]) 16;
     Some (map_ok (\<lambda>(commit, reveal, _). TxsBatchProofMethodId commit (with_id W reveal)) r)
   }"

definition create_inscription_type_4 ::
  "'k wallet_env \<Rightarrow> bytes \<Rightarrow> 'k \<Rightarrow> utxo option \<Rightarrow> utxo list \<Rightarrow> bytes \<Rightarrow> u64 \<Rightarrow> u64 \<Rightarrow> bytes \<Rightarrow> (builder_error + da_txs) option" where
  "create_inscription_type_4 W body da_private_key prev_utxo utxos change_address commit_fee_rate reveal_fee_rate prefix = do {
     let (signature, signer_public_key) = sign_blob_with_private_key W body da_private_key;
     s \<leftarrow> push_buf signature;
     p \<leftarrow> push_buf signer_public_key;
     b \<leftarrow> push_buf body;
     r \<leftarrow> nonce_loop W da_private_key prev_utxo utxos change_address commit_fee_rate reveal_fee_rate prefix
            (header_items (x_only_key W da_private_key) KindSequencerCommitment @ [s, p, b] @ [PushOpcode OP_ENDIF]) 16;
     Some (map_ok (\<lambda>(commit, reveal, _). TxsSequencerCommitment commit (with_id W reveal)) r)
   }"

fun create_inscription_transactions ::
  "'k wallet_env \<Rightarrow> raw_tx_data \<Rightarrow> 'k \<Rightarrow> utxo option \<Rightarrow> utxo list \<Rightarrow> bytes \<Rightarrow> u64 \<Rightarrow> u64 \<Rightarrow> bytes \<Rightarrow> (builder_error + da_txs) option" where
  "create_inscription_transactions W (RawComplete body) = create_inscription_type_0 W body"
| "create_inscription_transactions W (RawChunks body) = create_inscription_type_1 W body"
| "create_inscription_transactions W (RawBatchProofMethodId body) = create_inscription_type_3 W body"
| "create_inscription_transactions W (RawSequencerCommitment body) = create_inscription_type_4 W body"

subsection \<open>What the search keeps\<close>

text \<open>
  A commit transaction with the inputs \<open>ins\<close> and its reveal: the reveal spends output 0 of the commit with the given
  script, pays \<open>r\<close> and leaves \<open>d\<close> as its fee; the two outputs of the commit hold \<open>t\<close> together.
\<close>

definition reveal_pair ::
  "'k wallet_env \<Rightarrow> bytes \<Rightarrow> bytes \<Rightarrow> bytes \<Rightarrow> bytes \<Rightarrow> tx_in list \<Rightarrow> int \<Rightarrow> nat \<Rightarrow> btc_tx \<Rightarrow> btc_tx \<Rightarrow> bool" where
  "reveal_pair W script cb addr change ins d t commit reveal \<longleftrightarrow>
     (\<exists>c ch r sig. commit = mk_tx ins [mk_output c addr, mk_output ch change]
        \<and> reveal = mk_tx [mk_input (compute_txid W commit) 0 [sig, script, cb]] [mk_output r change]
        \<and> int (unat c) = int (unat r) + d \<and> unat c + unat ch = t)"

lemma add_one_sat_Some: "add_one_sat v = Some v' \<Longrightarrow> unat v' = Suc (unat v)"
  by (auto simp: add_one_sat_def panic_simps unat_inc)

lemma mine_step_pair:
  assumes pair: "reveal_pair W script cb addr change ins d t commit reveal"
    and step: "mine_step W k h commit reveal = Some (commit', reveal')"
  shows "reveal_pair W script cb addr change ins d t commit' reveal'"
proof -
  from pair obtain c ch r sig where
    commit: "commit = mk_tx ins [mk_output c addr, mk_output ch change]" and
    reveal: "reveal = mk_tx [mk_input (compute_txid W commit) 0 [sig, script, cb]] [mk_output r change]" and
    sums: "int (unat c) = int (unat r) + d" "unat c + unat ch = t"
    by (auto simp: reveal_pair_def)
  from step obtain c' ch' r' sig' where vals: "sub_one_sat c = Some c'" "add_one_sat ch = Some ch'" "sub_one_sat r = Some r'"
    and commit': "commit' = mk_tx ins [mk_output c' addr, mk_output ch' change]"
    and reveal': "reveal' = mk_tx [mk_input (compute_txid W commit') 0 [sig', script, cb]] [mk_output r' change]"
    by (auto simp: mine_step_def commit reveal change_output_def set_prev_txid_def update_witness_def set_witness_def
        mk_tx_def mk_output_def mk_input_def panic_simps)
  have "int (unat c') = int (unat r') + d" "unat c' + unat ch' = t"
    using sums sub_one_sat_less [OF vals(1)] sub_one_sat_less [OF vals(3)] add_one_sat_Some [OF vals(2)] by simp_all
  with commit' reveal' show ?thesis
    unfolding reveal_pair_def by blast
qed

lemma mine_found:
  assumes "mine W k h root addr' m prefix commit reveal = Some (Some (commit', reveal'))"
    and "reveal_pair W script cb addr change ins d t commit reveal"
  shows "reveal_pair W script cb addr change ins d t commit' reveal' \<and> starts_with (compute_wtxid W reveal') prefix
    \<and> (\<exists>r. first_amount reveal' = Some r \<and> REVEAL_OUTPUT_AMOUNT < r)"
  using assms
proof (induction W k h root addr' m prefix commit reveal rule: mine.induct)
  case (1 W k h root addr' m prefix commit reveal)
  from "1.prems"(1) obtain c r where cr: "first_amount commit = Some c" "first_amount reveal = Some r"
    by (subst (asm) mine.simps) (auto split: option.splits)
  show ?case
  proof (cases "starts_with (compute_wtxid W reveal) prefix")
    case True
    then show ?thesis
      using "1.prems" cr by (subst (asm) mine.simps) (auto split: if_splits)
  next
    case False
    from "1.prems"(1) cr False have guard: "m \<le> c \<and> REVEAL_OUTPUT_AMOUNT < r"
      and "\<exists>c' r'. mine_step W k h commit reveal = Some (c', r') \<and> mine W k h root addr' m prefix c' r' = Some (Some (commit', reveal'))"
      by (subst (asm) mine.simps, auto split: if_splits option.splits)+
    then obtain c' r' where step: "mine_step W k h commit reveal = Some (c', r')"
      and rest: "mine W k h root addr' m prefix c' r' = Some (Some (commit', reveal'))"
      by blast
    show ?thesis
      by (rule "1.IH" [OF _ cr guard False step _ rest]) (auto simp: cr mine_step_pair [OF "1.prems"(2) step])
  qed
qed

lemma commit_loop_result:
  fixes W :: "'k wallet_env"
  assumes "commit_loop W prev utxos recipient change_address output_value fee_rate last_size = Some (Ok (tx, left))"
  shows "\<exists>sz. commit_at W prev utxos recipient change_address output_value fee_rate sz = Ok (tx, left, sz)"
proof -
  define P where "P = (\<lambda>(W :: 'k wallet_env) prev utxos recipient change_address output_value fee_rate (last_size :: nat) (y :: builder_error + btc_tx \<times> utxo list).
    \<forall>tx left. y = Ok (tx, left) \<longrightarrow>
      (\<exists>sz. commit_at W prev utxos recipient change_address output_value fee_rate sz = Ok (tx, left, sz)))"
  have "P W prev utxos recipient change_address output_value fee_rate last_size (Ok (tx, left))"
    by (rule commit_loop.raw_induct [of P, OF _ assms]) (auto simp: P_def split: sum.splits if_splits)
  then show ?thesis
    by (simp add: P_def)
qed

lemma nonce_loop_found:
  fixes W :: "'k wallet_env"
  assumes "nonce_loop W key prev utxos change commit_rate reveal_rate prefix items nonce = Some (Ok res)"
  shows "\<exists>n. attempt_nonce W key prev utxos change commit_rate reveal_rate prefix items n = Some (Ok (Some res))"
proof -
  define P where "P = (\<lambda>(W :: 'k wallet_env) key prev utxos change commit_rate reveal_rate prefix items (nonce :: u64)
      (y :: builder_error + (btc_tx \<times> btc_tx \<times> utxo list)).
    \<forall>res. y = Ok res \<longrightarrow> (\<exists>n. attempt_nonce W key prev utxos change commit_rate reveal_rate prefix items n = Some (Ok (Some res))))"
  have "P W key prev utxos change commit_rate reveal_rate prefix items nonce (Ok res)"
  proof (rule nonce_loop.raw_induct [of P, OF _ assms], goal_cases)
    case (1 loop W key prev utxos change commit_rate reveal_rate prefix items nonce y)
    then obtain r where r: "attempt_nonce W key prev utxos change commit_rate reveal_rate prefix items nonce = Some r"
      and y: "(case r of Inl e \<Rightarrow> Some (Err e) | Inr found \<Rightarrow> (case found of Some res \<Rightarrow> Some (Ok res)
        | None \<Rightarrow> loop W key prev utxos change commit_rate reveal_rate prefix items (nonce + 1))) = Some y"
      by (auto simp: bind_is_Some)
    show ?case
    proof (cases r)
      case (Inl e)
      with y show ?thesis by (auto simp: P_def)
    next
      case (Inr found)
      then show ?thesis
        using y r 1(1) by (cases found) (auto simp: P_def)
    qed
  qed
  then show ?thesis
    by (cases res) (simp add: P_def)
qed

lemma reveal_value_sum: "unat (REVEAL_OUTPUT_AMOUNT + REVEAL_OUTPUT_THRESHOLD) = 2546"
  by (simp add: REVEAL_OUTPUT_AMOUNT_def REVEAL_OUTPUT_THRESHOLD_def)

text \<open>
  The pair an attempt starts its search with, and so the pair it finds: the commit transaction pays the address of the
  script, and the fee of the reveal is that of its size at the reveal rate.
\<close>

definition reveal_script_of :: "'k wallet_env \<Rightarrow> script_op list \<Rightarrow> u64 \<Rightarrow> bytes" where
  "reveal_script_of W items nonce = into_script W (items @ [PushSlice (le_bytes 8 nonce), PushOpcode OP_NIP])"

definition reveal_fee :: "'k wallet_env \<Rightarrow> 'k \<Rightarrow> bytes \<Rightarrow> u64 \<Rightarrow> bytes \<Rightarrow> u64" where
  "reveal_fee W key change rate script =
     of_nat (get_size_reveal W change REVEAL_OUTPUT_AMOUNT script (tap_control_block W script (x_only_key W key))) * rate"

lemma attempt_nonce_found:
  assumes "attempt_nonce W key prev utxos change commit_rate reveal_rate prefix items nonce = Some (Ok (Some (commit, reveal, left)))"
  defines "script \<equiv> reveal_script_of W items nonce"
  defines "pk \<equiv> x_only_key W key"
  defines "fee \<equiv> reveal_fee W key change reveal_rate script"
  defines "addr \<equiv> p2tr W pk (tap_merkle_root W script pk)"
  shows "\<exists>commit0 out reveal0. build_commit_transaction W prev utxos addr change (fee + REVEAL_OUTPUT_AMOUNT + REVEAL_OUTPUT_THRESHOLD)
        commit_rate = Some (Ok (commit0, left)) \<and> index (btx_output commit0) 0 = Some out
     \<and> build_reveal_transaction W out (compute_txid W commit0) 0 change (REVEAL_OUTPUT_AMOUNT + REVEAL_OUTPUT_THRESHOLD)
        reveal_rate script (tap_control_block W script pk) = Ok reveal0
     \<and> (\<exists>reveal1. build_witness W commit0 reveal0 (tap_leaf_hash W script) script (tap_control_block W script pk) key = Some reveal1
        \<and> mine W key (tap_leaf_hash W script) (tap_merkle_root W script pk) addr (fee + REVEAL_OUTPUT_AMOUNT) prefix commit0 reveal1
            = Some (Some (commit, reveal)))"
  using assms(1) unfolding assms(2-)
  by (auto simp: attempt_nonce_def Let_def build_control_block_def reveal_script_of_def reveal_fee_def panic_simps
      split: sum.splits)

lemma commit_at_form:
  assumes "commit_at W prev utxos recipient change output_value rate sz = Ok (tx, left, sz')"
  shows "\<exists>chosen acc. choose_utxos W prev utxos (output_value + of_nat sz * rate + non_dust_change) = Ok (chosen, acc, left)
    \<and> tx = mk_tx (map spend chosen) [mk_output output_value recipient,
        mk_output (commit_change acc (output_value + of_nat sz * rate + non_dust_change)) change]
    \<and> sz' = get_size_commit W (btx_input tx) (btx_output tx)"
  using assms by (auto simp: commit_at_def Let_def panic_simps mk_tx_def)

lemma build_commit_form:
  assumes "build_commit_transaction W prev utxos recipient change output_value rate = Some (Ok (tx, left))"
  shows "\<exists>ins ch. tx = mk_tx ins [mk_output output_value recipient, mk_output ch change]"
proof -
  obtain us sz where "commit_loop W prev us recipient change output_value rate sz = Some (Ok (tx, left))"
    using assms by (auto simp: build_commit_transaction_def Let_def)
  then show ?thesis
    using commit_loop_result commit_at_form by metis
qed

lemma build_reveal_form:
  "build_reveal_transaction W out txid vout recipient v rate script cb = Ok tx \<Longrightarrow>
     tx = mk_tx [mk_input txid vout []] [mk_output v recipient]"
  by (simp add: build_reveal_transaction_def Let_def split: if_splits)

lemma build_witness_form:
  "build_witness W commit (mk_tx [mk_input txid vout []] outs) h script cb key = Some tx \<Longrightarrow>
     \<exists>sig. tx = mk_tx [mk_input txid vout [sig, script, cb]] outs"
  by (auto simp: build_witness_def set_witness_def mk_tx_def mk_input_def panic_simps)

lemma attempt_nonce_pair:
  assumes "attempt_nonce W key prev utxos change commit_rate reveal_rate prefix items nonce = Some (Ok (Some (commit, reveal, left)))"
  defines "script \<equiv> reveal_script_of W items nonce"
  defines "pk \<equiv> x_only_key W key"
  defines "fee \<equiv> reveal_fee W key change reveal_rate script"
  shows "\<exists>ins ch. build_commit_transaction W prev utxos (p2tr W pk (tap_merkle_root W script pk)) change
        (fee + REVEAL_OUTPUT_AMOUNT + REVEAL_OUTPUT_THRESHOLD) commit_rate =
        Some (Ok (mk_tx ins [mk_output (fee + REVEAL_OUTPUT_AMOUNT + REVEAL_OUTPUT_THRESHOLD)
          (p2tr W pk (tap_merkle_root W script pk)), mk_output ch change], left))
     \<and> reveal_pair W script (tap_control_block W script pk) (p2tr W pk (tap_merkle_root W script pk)) change ins
        (int (unat (fee + REVEAL_OUTPUT_AMOUNT + REVEAL_OUTPUT_THRESHOLD)) - 2546)
        (unat (fee + REVEAL_OUTPUT_AMOUNT + REVEAL_OUTPUT_THRESHOLD) + unat ch) commit reveal
     \<and> starts_with (compute_wtxid W reveal) prefix \<and> (\<exists>r. first_amount reveal = Some r \<and> REVEAL_OUTPUT_AMOUNT < r)"
proof -
  let ?addr = "p2tr W pk (tap_merkle_root W script pk)" and ?cb = "tap_control_block W script pk"
  let ?v = "fee + REVEAL_OUTPUT_AMOUNT + REVEAL_OUTPUT_THRESHOLD"
  from attempt_nonce_found [OF assms(1), folded pk_def script_def, folded fee_def] obtain commit0 out reveal0 reveal1 where
    c: "build_commit_transaction W prev utxos ?addr change ?v commit_rate = Some (Ok (commit0, left))" and
    r: "build_reveal_transaction W out (compute_txid W commit0) 0 change (REVEAL_OUTPUT_AMOUNT + REVEAL_OUTPUT_THRESHOLD)
        reveal_rate script ?cb = Ok reveal0" and
    w: "build_witness W commit0 reveal0 (tap_leaf_hash W script) script ?cb key = Some reveal1" and
    m: "mine W key (tap_leaf_hash W script) (tap_merkle_root W script pk) ?addr (fee + REVEAL_OUTPUT_AMOUNT) prefix commit0 reveal1
        = Some (Some (commit, reveal))"
    by (elim exE conjE) (rule that)
  from build_commit_form [OF c] obtain ins ch where c0: "commit0 = mk_tx ins [mk_output ?v ?addr, mk_output ch change]"
    by blast
  from build_witness_form [OF w [unfolded build_reveal_form [OF r]]] obtain sig where r1: "reveal1 = mk_tx [mk_input (compute_txid W commit0) 0 [sig, script, ?cb]]
      [mk_output (REVEAL_OUTPUT_AMOUNT + REVEAL_OUTPUT_THRESHOLD) change]"
    by blast
  have "reveal_pair W script ?cb ?addr change ins (int (unat ?v) - 2546) (unat ?v + unat ch) commit0 reveal1"
    unfolding reveal_pair_def
    by (intro exI [of _ ?v] exI [of _ ch] exI [of _ "REVEAL_OUTPUT_AMOUNT + REVEAL_OUTPUT_THRESHOLD"] exI [of _ sig])
      (simp add: c0 r1 reveal_value_sum)
  from mine_found [OF m this] c c0 show ?thesis
    by blast
qed

subsection \<open>The parser reads what was built\<close>

text \<open>
  What is relied on of the \<^verbatim>\<open>bitcoin\<close> crate: iterating over a built script gives back the pushes and opcodes
  (\<^verbatim>\<open>OP_FALSE\<close> is the empty push), and the tapscript of a witness of a signature, a script and the script's control
  block is the script. Of the two signature crates: what one signs, the other verifies.
\<close>

fun instr_of :: "script_op \<Rightarrow> instruction" where
  "instr_of (PushSlice b) = PushBytes b"
| "instr_of (PushXOnlyKey k) = PushBytes k"
| "instr_of (PushOpcode c) = (if c = OP_FALSE then PushBytes [] else Op c)"

fun plain_op :: "script_op \<Rightarrow> bool" where
  "plain_op (PushSlice b) \<longleftrightarrow> length b < 2 ^ 32"
| "plain_op (PushXOnlyKey k) \<longleftrightarrow> True"
| "plain_op (PushOpcode c) \<longleftrightarrow> c \<in> {OP_FALSE, OP_IF, OP_ENDIF, OP_NIP, OP_CHECKSIGVERIFY}"

definition script_laws :: "script_env \<Rightarrow> 'k wallet_env \<Rightarrow> bool" where
  "script_laws S W \<longleftrightarrow>
     (\<forall>ops. list_all plain_op ops \<longrightarrow> script_instructions S (into_script W ops) = map (\<lambda>op. Ok (instr_of op)) ops)
   \<and> (\<forall>sig script pk. tapscript S [sig, script, tap_control_block W script pk] = Some script)"

definition signer_laws :: "script_env \<Rightarrow> 'k wallet_env \<Rightarrow> bool" where
  "signer_laws S W \<longleftrightarrow> sc_sha256 S = w_sha256 W
   \<and> (\<forall>k. key_from_sec1 S (ecdsa_public_key W k))
   \<and> (\<forall>k h. sig_from_slice S (sign_ecdsa W k h) \<and> verify_digest S (ecdsa_public_key W k) h (sign_ecdsa W k h))"

definition signed_blob :: "'k wallet_env \<Rightarrow> 'k \<Rightarrow> bytes \<Rightarrow> parsed_signed" where
  "signed_blob W key body =
     \<lparr> ps_body = body, ps_signature = sign_ecdsa W key (w_sha256 W body), ps_public_key = ecdsa_public_key W key \<rparr>"

lemma signed_verifies: "signer_laws S W \<Longrightarrow> get_sig_verified_hash S (signed_blob W key body) = Some (w_sha256 W body)"
  by (simp add: signer_laws_def get_sig_verified_hash_def signed_blob_def Let_def)

lemma opcodes_distinct:
  "OP_IF \<noteq> OP_FALSE" "OP_ENDIF \<noteq> OP_FALSE" "OP_NIP \<noteq> OP_FALSE" "OP_CHECKSIGVERIFY \<noteq> OP_FALSE"
  by (simp_all add: OP_IF_def OP_ENDIF_def OP_NIP_def OP_CHECKSIGVERIFY_def OP_FALSE_def)

definition inscription_items :: "bytes \<Rightarrow> transaction_kind \<Rightarrow> bytes list \<Rightarrow> script_op list" where
  "inscription_items pk kind pushes = header_items pk kind @ map PushSlice pushes @ [PushOpcode OP_ENDIF]"

lemma length_kind_to_bytes: "length (kind_to_bytes k) = 2"
  by (cases k) simp_all

lemma script_stream_built:
  assumes "script_laws S W" "\<forall>b \<in> set pushes. length b < 2 ^ 32"
  shows "script_stream S (reveal_script_of W (inscription_items pk kind pushes) nonce) =
    map Ok (envelope kind pk pushes (le_bytes 8 nonce))"
proof -
  let ?ops = "inscription_items pk kind pushes @ [PushSlice (le_bytes 8 nonce), PushOpcode OP_NIP]"
  have "list_all plain_op ?ops"
    using assms(2) by (simp add: inscription_items_def header_items_def list_all_iff length_kind_to_bytes)
  then have "script_instructions S (into_script W ?ops) = map (\<lambda>op. Ok (instr_of op)) ?ops"
    using assms(1) by (simp add: script_laws_def)
  then show ?thesis
    by (simp add: script_stream_def reveal_script_of_def inscription_items_def header_items_def envelope_def opcodes_distinct o_def)
qed

lemma parse_revealed:
  assumes "script_laws S W" "\<forall>b \<in> set pushes. length b < 2 ^ 32"
    and pair: "reveal_pair W script (tap_control_block W script pk') addr change ins d t commit reveal"
    and script: "script = reveal_script_of W (inscription_items pk kind pushes) nonce"
  shows "parse_relevant_transaction S reveal = Some (parse_transaction (map Ok (envelope kind pk pushes (le_bytes 8 nonce))))"
proof -
  from pair obtain sig where "btx_input reveal = [mk_input (compute_txid W commit) 0 [sig, script, tap_control_block W script pk']]"
    by (auto simp: reveal_pair_def mk_tx_def)
  then have "get_script S reveal = Some (Ok script)"
    using assms(1) by (simp add: get_script_def mk_input_def script_laws_def index_def)
  then show ?thesis
    using script_stream_built [OF assms(1,2)] by (simp add: parse_relevant_transaction_def script)
qed

lemma parse_envelope: "carries p pushes \<Longrightarrow> parse_transaction (map Ok (envelope (kind_of p) key pushes nonce)) = Ok p"
  using parse_transaction_iff by blast

definition inscribed :: "script_env \<Rightarrow> 'k wallet_env \<Rightarrow> bytes \<Rightarrow> btc_tx \<Rightarrow> parsed_transaction \<Rightarrow> bool" where
  "inscribed S W prefix reveal p \<longleftrightarrow>
     parse_relevant_transaction S reveal = Some (Ok p) \<and> starts_with (compute_wtxid W reveal) prefix"

lemma nonce_loop_parses:
  assumes "script_laws S W" "\<forall>b \<in> set pushes. length b < 2 ^ 32"
    and "nonce_loop W key prev utxos change crate rrate prefix (inscription_items (x_only_key W key) kind pushes) n0 =
      Some (Ok (commit, reveal, left))"
  shows "starts_with (compute_wtxid W reveal) prefix \<and> (\<exists>n. parse_relevant_transaction S reveal =
      Some (parse_transaction (map Ok (envelope kind (x_only_key W key) pushes (le_bytes 8 (n :: u64))))))"
proof -
  from nonce_loop_found [OF assms(3)] obtain n where
    "attempt_nonce W key prev utxos change crate rrate prefix (inscription_items (x_only_key W key) kind pushes) n =
      Some (Ok (Some (commit, reveal, left)))"
    by blast
  from attempt_nonce_pair [OF this] parse_revealed [OF assms(1,2) _ refl] show ?thesis
    by blast
qed

lemma nonce_loop_inscribes:
  assumes "script_laws S W" "\<forall>b \<in> set pushes. length b < 2 ^ 32" "carries p pushes"
    and "nonce_loop W key prev utxos change crate rrate prefix (inscription_items (x_only_key W key) (kind_of p) pushes) n0 =
      Some (Ok (commit, reveal, left))"
  shows "inscribed S W prefix reveal p"
  using nonce_loop_parses [OF assms(1,2,4)] parse_envelope [OF assms(3)] by (auto simp: inscribed_def)

lemma chunks_520_small: "b \<in> set (chunks 520 body) \<Longrightarrow> length b < 2 ^ 32"
  using chunks_nonempty by fastforce

lemma chunks_no_empty: "[] \<notin> set (chunks n xs)"
  using chunks_nonempty by blast

lemma carries_built:
  "carries (Complete (signed_blob W key body)) (ps_signature (signed_blob W key body) # ecdsa_public_key W key # chunks 520 body)"
  "carries (Aggregate (signed_blob W key body)) (ps_signature (signed_blob W key body) # ecdsa_public_key W key # chunks 520 body)"
  "carries (Chunk body) (chunks 520 body)"
  by (simp_all add: signed_blob_def concat_chunks chunks_no_empty)

lemma signed_items_Some:
  "signed_items W key kind body = Some items \<longleftrightarrow>
     length (ps_signature (signed_blob W key body)) < 2 ^ 32 \<and> length (ecdsa_public_key W key) < 2 ^ 32
     \<and> items = inscription_items (x_only_key W key) kind
         (ps_signature (signed_blob W key body) # ecdsa_public_key W key # chunks 520 body)"
  by (auto simp: signed_items_def sign_blob_with_private_key_def push_buf_def signed_blob_def inscription_items_def
      body_items_def panic_simps)

lemma chunk_items_eq: "chunk_items W key body = inscription_items (x_only_key W key) KindChunks (chunks 520 body)"
  by (simp add: chunk_items_def inscription_items_def body_items_def)

lemma create_chunks_inscribed:
  assumes "script_laws S W"
    and "create_chunks W key change crate rrate prefix bodies prev utxos commits reveals =
      Some (Ok (prev', utxos', commits', reveals'))"
  shows "\<exists>cs rs. commits' = commits @ cs \<and> reveals' = reveals @ rs \<and> length cs = length bodies
    \<and> list_all2 (inscribed S W prefix) rs (map Chunk bodies)"
  using assms(2)
proof (induction bodies arbitrary: prev utxos commits reveals)
  case (Cons body bodies)
  from Cons.prems obtain commit reveal left prev1 utxos1 where
    loop: "nonce_loop W key prev utxos change crate rrate prefix (chunk_items W key body) 16 = Some (Ok (commit, reveal, left))" and
    rest: "create_chunks W key change crate rrate prefix bodies prev1 utxos1 (commits @ [commit]) (reveals @ [reveal]) =
      Some (Ok (prev', utxos', commits', reveals'))"
    by (auto simp: panic_simps Let_def)
  have "nonce_loop W key prev utxos change crate rrate prefix
      (inscription_items (x_only_key W key) (kind_of (Chunk body)) (chunks 520 body)) 16 = Some (Ok (commit, reveal, left))"
    using loop by (simp add: chunk_items_eq kind_of_def)
  from nonce_loop_inscribes [OF assms(1) _ carries_built(3) this] have "inscribed S W prefix reveal (Chunk body)"
    using chunks_520_small by blast
  with Cons.IH [OF rest] show ?case
    by force
qed simp

text \<open>The reveal transactions of a result, in the order they are sent, and what they are to carry.\<close>

fun reveals_of :: "da_txs \<Rightarrow> btc_tx list" where
  "reveals_of (TxsComplete c (i, r)) = [r]"
| "reveals_of (TxsChunked cs rs c (i, r)) = rs @ [r]"
| "reveals_of (TxsBatchProofMethodId c (i, r)) = [r]"
| "reveals_of (TxsSequencerCommitment c (i, r)) = [r]"

fun commits_of :: "da_txs \<Rightarrow> btc_tx list" where
  "commits_of (TxsComplete c r) = [c]"
| "commits_of (TxsChunked cs rs c r) = cs @ [c]"
| "commits_of (TxsBatchProofMethodId c r) = [c]"
| "commits_of (TxsSequencerCommitment c r) = [c]"

fun contents_of :: "'k wallet_env \<Rightarrow> 'k \<Rightarrow> raw_tx_data \<Rightarrow> btc_tx list \<Rightarrow> parsed_transaction list" where
  "contents_of W key (RawComplete body) rs = [Complete (signed_blob W key body)]"
| "contents_of W key (RawChunks bodies) rs =
     map Chunk bodies @
     [Aggregate (signed_blob W key (borsh_aggregate W (map (compute_txid W) (butlast rs)) (map (compute_wtxid W) (butlast rs))))]"
| "contents_of W key (RawBatchProofMethodId body) rs = [BatchProofMethodId body]"
| "contents_of W key (RawSequencerCommitment body) rs = [SequencerCommitment (signed_blob W key body)]"

lemma type_0_inscribed:
  assumes "script_laws S W"
    and "create_inscription_type_0 W body key prev utxos change crate rrate prefix = Some (Ok txs)"
  shows "\<exists>c r. txs = TxsComplete c (with_id W r) \<and> inscribed S W prefix r (Complete (signed_blob W key body))"
proof -
  let ?ps = "ps_signature (signed_blob W key body) # ecdsa_public_key W key # chunks 520 body"
  from assms(2) obtain c r left where small: "length (ps_signature (signed_blob W key body)) < 2 ^ 32" "length (ecdsa_public_key W key) < 2 ^ 32"
    and loop: "nonce_loop W key prev utxos change crate rrate prefix
      (inscription_items (x_only_key W key) (kind_of (Complete (signed_blob W key body))) ?ps) 16 = Some (Ok (c, r, left))"
    and txs: "txs = TxsComplete c (with_id W r)"
    by (auto simp: create_inscription_type_0_def signed_items_Some kind_of_def panic_simps)
  have "\<forall>b \<in> set ?ps. length b < 2 ^ 32"
    using small chunks_520_small by auto
  from nonce_loop_inscribes [OF assms(1) this carries_built(1) loop] txs show ?thesis
    by blast
qed

lemma type_4_inscribed:
  assumes "script_laws S W"
    and "create_inscription_type_4 W body key prev utxos change crate rrate prefix = Some (Ok txs)"
  shows "\<exists>c r. txs = TxsSequencerCommitment c (with_id W r) \<and> inscribed S W prefix r (SequencerCommitment (signed_blob W key body))"
proof -
  let ?ps = "[ps_signature (signed_blob W key body), ecdsa_public_key W key, body]"
  from assms(2) obtain c r left where small: "\<forall>b \<in> set ?ps. length b < 2 ^ 32"
    and loop: "nonce_loop W key prev utxos change crate rrate prefix
      (inscription_items (x_only_key W key) (kind_of (SequencerCommitment (signed_blob W key body))) ?ps) 16 = Some (Ok (c, r, left))"
    and txs: "txs = TxsSequencerCommitment c (with_id W r)"
    by (auto simp: create_inscription_type_4_def push_buf_def sign_blob_with_private_key_def inscription_items_def
        signed_blob_def kind_of_def panic_simps)
  have "carries (SequencerCommitment (signed_blob W key body)) ?ps"
    by (simp add: signed_blob_def)
  from nonce_loop_inscribes [OF assms(1) small this loop] txs show ?thesis
    by blast
qed

lemma type_1_inscribed:
  assumes "script_laws S W"
    and "create_inscription_type_1 W bodies key prev utxos change crate rrate prefix = Some (Ok txs)"
  shows "\<exists>cs rs c r. txs = TxsChunked cs rs c (with_id W r) \<and> list_all2 (inscribed S W prefix) rs (map Chunk bodies)
    \<and> inscribed S W prefix r (Aggregate (signed_blob W key (borsh_aggregate W (map (compute_txid W) rs) (map (compute_wtxid W) rs))))"
proof -
  from assms(2) obtain prev' utxos' cs rs where chunks: "create_chunks W key change crate rrate prefix bodies prev utxos [] [] =
      Some (Ok (prev', utxos', cs, rs))"
    by (auto simp: create_inscription_type_1_def panic_simps)
  let ?body = "borsh_aggregate W (map (compute_txid W) rs) (map (compute_wtxid W) rs)"
  let ?ps = "ps_signature (signed_blob W key ?body) # ecdsa_public_key W key # chunks 520 ?body"
  from assms(2) chunks obtain c r left where small: "length (ps_signature (signed_blob W key ?body)) < 2 ^ 32" "length (ecdsa_public_key W key) < 2 ^ 32"
    and loop: "nonce_loop W key prev' utxos' change crate rrate prefix
      (inscription_items (x_only_key W key) (kind_of (Aggregate (signed_blob W key ?body))) ?ps) 16 = Some (Ok (c, r, left))"
    and txs: "txs = TxsChunked cs rs c (with_id W r)"
    by (auto simp: create_inscription_type_1_def signed_items_Some kind_of_def panic_simps Let_def)
  have "\<forall>b \<in> set ?ps. length b < 2 ^ 32"
    using small chunks_520_small by auto
  from nonce_loop_inscribes [OF assms(1) this carries_built(2) loop] create_chunks_inscribed [OF assms(1) chunks] txs
  show ?thesis
    by auto
qed

lemma type_3_inscribed:
  assumes "script_laws S W" "body \<noteq> []" "length body \<le> 520"
    and "create_inscription_type_3 W body key prev utxos change crate rrate prefix = Some (Ok txs)"
  shows "\<exists>c r. txs = TxsBatchProofMethodId c (with_id W r) \<and> inscribed S W prefix r (BatchProofMethodId body)"
proof -
  from assms obtain c r left where
    loop: "nonce_loop W key prev utxos change crate rrate prefix
      (inscription_items (x_only_key W key) (kind_of (BatchProofMethodId body)) [body]) 16 = Some (Ok (c, r, left))"
    and txs: "txs = TxsBatchProofMethodId c (with_id W r)"
    by (auto simp: create_inscription_type_3_def body_items_def inscription_items_def chunks_short kind_of_def panic_simps)
  from nonce_loop_inscribes [OF assms(1) _ _ loop] txs assms(3) show ?thesis
    by auto
qed

subsection \<open>The outputs chosen\<close>

definition required_list :: "utxo option \<Rightarrow> utxo list" where
  "required_list r = (case r of Some u \<Rightarrow> [u] | None \<Rightarrow> [])"

definition amounts :: "utxo list \<Rightarrow> nat" where
  "amounts us = sum_list (map (\<lambda>u. unat (u_amount u)) us)"

lemma take_utxos_prefix:
  "take_utxos amount us chosen acc = (chosen', acc') \<Longrightarrow>
     \<exists>n. chosen' = chosen @ take n us \<and> acc' = acc + sum_list (map u_amount (take n us))
       \<and> (us \<noteq> [] \<longrightarrow> 0 < n) \<and> (amount \<le> acc' \<or> n = length us)"
proof (induction us arbitrary: chosen acc)
  case (Cons u us)
  show ?case
  proof (cases "amount \<le> acc + u_amount u")
    case True
    with Cons.prems show ?thesis
      by (intro exI [of _ 1]) (auto simp: Let_def)
  next
    case False
    with Cons.prems have "take_utxos amount us (chosen @ [u]) (acc + u_amount u) = (chosen', acc')"
      by (simp add: Let_def)
    from Cons.IH [OF this] obtain n where "chosen' = (chosen @ [u]) @ take n us"
      "acc' = acc + u_amount u + sum_list (map u_amount (take n us))" "amount \<le> acc' \<or> n = length us"
      by blast
    then show ?thesis
      by (intro exI [of _ "Suc n"]) (auto simp: add.assoc)
  qed
qed simp

lemma take_utxos_mono:
  "amount \<le> amount' \<Longrightarrow>
     length (fst (take_utxos amount us chosen acc)) \<le> length (fst (take_utxos amount' us chosen acc))"
proof (induction us arbitrary: chosen acc)
  case (Cons u us)
  from take_utxos_prefix [of amount' us "chosen @ [u]" "acc + u_amount u"]
  have "length chosen + 1 \<le> length (fst (take_utxos amount' us (chosen @ [u]) (acc + u_amount u)))"
    by (cases "take_utxos amount' us (chosen @ [u]) (acc + u_amount u)") auto
  with Cons show ?case
    by (auto simp: Let_def)
qed simp

lemma choose_utxos_cases:
  assumes "choose_utxos W required utxos amount = Ok (chosen, acc, left)"
  obtains
    (enough) "chosen = required_list required" "acc = sum_list (map u_amount (required_list required))" "amount \<le> acc" "left = utxos"
  | (single) u where "\<not> amount \<le> sum_list (map u_amount (required_list required))"
      "u \<in> set utxos" "amount - sum_list (map u_amount (required_list required)) \<le> u_amount u"
      "chosen = required_list required @ [u]" "acc = sum_list (map u_amount (required_list required)) + u_amount u"
      "left = leftovers W utxos chosen"
  | (many) smaller where "\<not> amount \<le> sum_list (map u_amount (required_list required))"
      "filter (\<lambda>u. amount - sum_list (map u_amount (required_list required)) \<le> u_amount u) utxos = []"
      "smaller = sort_key (\<lambda>u. - int (unat (u_amount u))) utxos"
      "take_utxos amount smaller (required_list required) (sum_list (map u_amount (required_list required))) = (chosen, acc)"
      "amount \<le> acc" "left = leftovers W utxos chosen"
proof -
  define req where "req = required_list required"
  define s where "s = sum_list (map u_amount req)"
  have rs: "(case required of Some r \<Rightarrow> ([r], u_amount r) | None \<Rightarrow> ([], 0)) = (req, s)"
    by (cases required) (simp_all add: req_def s_def required_list_def)
  consider "amount \<le> s" | "\<not> amount \<le> s" "filter (\<lambda>u. amount - s \<le> u_amount u) utxos \<noteq> []"
    | "\<not> amount \<le> s" "filter (\<lambda>u. amount - s \<le> u_amount u) utxos = []"
    by blast
  then show thesis
  proof cases
    case 1
    with assms rs show thesis
      by (intro enough) (auto simp: choose_utxos_def Let_def s_def req_def)
  next
    case 2
    let ?b = "filter (\<lambda>u. amount - s \<le> u_amount u) utxos" and ?u = "hd (sort_key u_amount (filter (\<lambda>u. amount - s \<le> u_amount u) utxos))"
    have "?u \<in> set (sort_key u_amount ?b)"
      using 2(2) by (intro hd_in_set) (metis length_0_conv length_sort)
    then have "?u \<in> set utxos" "amount - s \<le> u_amount ?u"
      by simp_all
    moreover from assms rs 2 have "chosen = req @ [?u]" "acc = s + u_amount ?u" "left = leftovers W utxos chosen"
      by (auto simp: choose_utxos_def Let_def)
    ultimately show thesis
      using 2(1) by (intro single [of ?u]) (simp_all add: s_def req_def)
  next
    case 3
    have all: "filter (\<lambda>u. u_amount u < amount - s) utxos = utxos"
      using 3(2) by (auto simp: filter_empty_conv filter_id_conv not_le)
    obtain ch ac where t: "take_utxos amount (sort_key (\<lambda>u. - int (unat (u_amount u))) utxos) req s = (ch, ac)"
      by (cases "take_utxos amount (sort_key (\<lambda>u. - int (unat (u_amount u))) utxos) req s")
    from assms rs 3 t all have "ch = chosen" "ac = acc" "amount \<le> acc" "left = leftovers W utxos chosen"
      by (auto simp: choose_utxos_def Let_def not_less split: if_splits)
    with 3 t show thesis
      by (intro many [OF _ _ refl]) (simp_all add: s_def req_def)
  qed
qed

lemma choose_utxos_more:
  assumes "amount \<le> amount'" "choose_utxos W required utxos amount = Ok (chosen, acc, left)"
    and "choose_utxos W required utxos amount' = Ok (chosen', acc', left')"
  shows "length chosen \<le> length chosen'"
proof -
  let ?req = "required_list required" and ?s = "sum_list (map u_amount (required_list required))"
  have many_ne: "length ?req + 1 \<le> length ch"
    if "\<not> a \<le> ?s" "a \<le> ac" "take_utxos a us ?req ?s = (ch, ac)" for a us ch ac
    using take_utxos_prefix [OF that(3)] that by (cases us) auto
  have mono: "amount - ?s \<le> amount' - ?s" if "\<not> amount \<le> ?s"
    using that assms(1) by (simp add: word_le_nat_alt unat_sub)
  from assms(3) show ?thesis
  proof (cases rule: choose_utxos_cases)
    case enough
    with assms(1) have "amount \<le> ?s"
      by simp
    with assms(2) enough show ?thesis
      by (cases rule: choose_utxos_cases) auto
  next
    case (single u)
    from assms(2) show ?thesis
    proof (cases rule: choose_utxos_cases)
      case (many smaller)
      have "amount - ?s \<le> u_amount u"
        using mono [OF many(1)] single(3) by (rule order_trans)
      with many(2) single(2) show ?thesis
        by (simp add: filter_empty_conv)
    qed (use single in auto)
  next
    case (many smaller)
    have len: "length ?req + 1 \<le> length chosen'"
      by (rule many_ne [OF many(1,5,4)])
    from assms(2) show ?thesis
    proof (cases rule: choose_utxos_cases)
      case (many smaller')
      with \<open>take_utxos amount' smaller ?req ?s = (chosen', acc')\<close> \<open>smaller = _\<close>
        take_utxos_mono [OF assms(1), of smaller ?req ?s]
      show ?thesis
        by simp
    qed (use len in auto)
  qed
qed

lemma choose_utxos_length:
  assumes "choose_utxos W required utxos amount = Ok (chosen, acc, left)" "0 < amount"
  shows "1 \<le> length chosen \<and> length chosen \<le> Suc (length utxos)"
  using assms(1)
proof (cases rule: choose_utxos_cases)
  case enough
  with assms(2) show ?thesis
    by (cases required) (auto simp: required_list_def)
next
  case (single u)
  then show ?thesis
    by (cases required) (auto simp: required_list_def length_pos_if_in_set Suc_leI dest!: length_pos_if_in_set)
next
  case (many smaller)
  have len: "length smaller = length utxos"
    by (simp add: many(3))
  have "smaller \<noteq> []"
    using many(1,4,5) by auto
  with take_utxos_prefix [OF many(4)] len show ?thesis
    by (cases required; cases smaller) (auto simp: required_list_def)
qed

subsection \<open>The search for the commit size ends\<close>

text \<open>
  What is relied on of \<^verbatim>\<open>Transaction::vsize\<close>: for inputs that carry one 64-byte witness element and nothing else, it
  depends on the scripts of the outputs and the number of inputs only, and does not shrink with more inputs.
\<close>

definition key_spend :: "tx_in \<Rightarrow> bool" where
  "key_spend i \<longleftrightarrow> ti_script_sig i = [] \<and> ti_witness i = [zeros 64]"

definition vsize_law :: "'k wallet_env \<Rightarrow> bool" where
  "vsize_law W \<longleftrightarrow> (\<forall>ins ins' outs outs'. list_all key_spend ins \<and> list_all key_spend ins' \<and> length ins \<le> length ins'
     \<and> map to_script_pubkey outs = map to_script_pubkey outs' \<longrightarrow> vsize W (mk_tx ins outs) \<le> vsize W (mk_tx ins' outs'))"

definition commit_size :: "'k wallet_env \<Rightarrow> bytes \<Rightarrow> bytes \<Rightarrow> nat \<Rightarrow> nat" where
  "commit_size W recipient change n =
     get_size_commit W (replicate n (mk_input (zeros 32) 0 [])) [mk_output 0 recipient, mk_output 0 change]"

lemma get_size_commit_mono:
  assumes "vsize_law W" "\<forall>i \<in> set ins \<union> set ins'. ti_script_sig i = [] \<and> ti_witness i = []" "length ins \<le> length ins'"
    and "map to_script_pubkey outs = map to_script_pubkey outs'"
  shows "get_size_commit W ins outs \<le> get_size_commit W ins' outs'"
proof -
  let ?w = "map (\<lambda>i. i\<lparr>ti_witness := ti_witness i @ [zeros 64]\<rparr>)"
  have "list_all key_spend (?w ins)" "list_all key_spend (?w ins')"
    using assms(2) by (auto simp: list_all_iff key_spend_def)
  moreover from assms(1) have "list_all key_spend (?w ins) \<and> list_all key_spend (?w ins') \<and> length (?w ins) \<le> length (?w ins')
     \<and> map to_script_pubkey outs = map to_script_pubkey outs' \<longrightarrow> vsize W (mk_tx (?w ins) outs) \<le> vsize W (mk_tx (?w ins') outs')"
    unfolding vsize_law_def by (elim allE)
  ultimately show ?thesis
    using assms(3,4) by (simp add: get_size_commit_def)
qed

lemma get_size_commit_eq:
  assumes "vsize_law W" "\<forall>i \<in> set ins. ti_script_sig i = [] \<and> ti_witness i = []"
  shows "get_size_commit W ins [mk_output v recipient, mk_output v' change] = commit_size W recipient change (length ins)"
proof (rule antisym)
  show "get_size_commit W ins [mk_output v recipient, mk_output v' change] \<le> commit_size W recipient change (length ins)"
    unfolding commit_size_def using assms(2)
    by (intro get_size_commit_mono [OF assms(1)]) (auto simp: mk_output_def mk_input_def)
  show "commit_size W recipient change (length ins) \<le> get_size_commit W ins [mk_output v recipient, mk_output v' change]"
    unfolding commit_size_def using assms(2)
    by (intro get_size_commit_mono [OF assms(1)]) (auto simp: mk_output_def mk_input_def)
qed

lemma commit_size_mono: "vsize_law W \<Longrightarrow> m \<le> n \<Longrightarrow> commit_size W recipient change m \<le> commit_size W recipient change n"
  unfolding commit_size_def by (intro get_size_commit_mono) (auto simp: mk_input_def)

lemma commit_at_size:
  assumes "vsize_law W" "commit_at W prev utxos recipient change output_value rate prior = Ok (tx, left, sz)"
  shows "\<exists>chosen acc. choose_utxos W prev utxos (output_value + of_nat prior * rate + non_dust_change) = Ok (chosen, acc, left)
    \<and> sz = commit_size W recipient change (length chosen)"
proof -
  from commit_at_form [OF assms(2)] obtain chosen acc v where
    choose: "choose_utxos W prev utxos (output_value + of_nat prior * rate + non_dust_change) = Ok (chosen, acc, left)" and
    "sz = get_size_commit W (map spend chosen) [mk_output output_value recipient, mk_output v change]"
    by (auto simp: mk_tx_def)
  then have "sz = commit_size W recipient change (length chosen)"
    using get_size_commit_eq [OF assms(1), of "map spend chosen"] by (simp add: spend_def mk_input_def)
  with choose show ?thesis
    by blast
qed

lemma unat_input_total:
  assumes "unat (v :: u64) + n * unat (rate :: u64) + 546 < 2 ^ 64"
  shows "unat (v + of_nat n * rate + non_dust_change) = unat v + n * unat rate + 546"
proof (cases "rate = 0")
  case True
  with assms show ?thesis
    by (simp add: non_dust_change_def unat_word_ariths(1))
next
  case False
  then have "n \<le> n * unat rate"
    by (simp add: unat_gt_0 Suc_leI)
  with assms have n: "n < 2 ^ 64"
    by linarith
  then have "unat (of_nat n :: u64) = n"
    by (simp add: unsigned_of_nat take_bit_nat_eq_self)
  with assms have "unat (of_nat n * rate) = n * unat rate"
    by (simp add: unat_word_ariths(2))
  with assms show ?thesis
    by (simp add: non_dust_change_def unat_word_ariths(1))
qed

lemma commit_loop_returns:
  assumes law: "vsize_law W"
    and bound: "unat output_value + commit_size W recipient change (Suc (length utxos)) * unat rate + 546 < 2 ^ 64"
    and below: "prior \<le> commit_size W recipient change (Suc (length utxos))"
    and grows: "\<And>tx left sz. commit_at W prev utxos recipient change output_value rate prior = Ok (tx, left, sz) \<Longrightarrow> prior \<le> sz"
  shows "\<exists>r. commit_loop W prev utxos recipient change output_value rate prior = Some r"
  using below grows
proof (induction "commit_size W recipient change (Suc (length utxos)) - prior" arbitrary: prior rule: less_induct)
  case less
  let ?total = "\<lambda>n. output_value + of_nat n * rate + non_dust_change" and ?max = "commit_size W recipient change (Suc (length utxos))"
  have total: "unat (?total n) = unat output_value + n * unat rate + 546" if "n \<le> ?max" for n
    using bound mult_le_mono1 [OF that, of "unat rate"] by (intro unat_input_total) linarith
  show ?case
  proof (cases "commit_at W prev utxos recipient change output_value rate prior")
    case (Inl e)
    then show ?thesis
      by (subst commit_loop.simps) simp
  next
    case (Inr r)
    obtain tx left sz where r: "r = (tx, left, sz)"
      by (cases r)
    from commit_at_size [OF law Inr [unfolded r]] obtain chosen acc where
      choose: "choose_utxos W prev utxos (?total prior) = Ok (chosen, acc, left)" and
      sz: "sz = commit_size W recipient change (length chosen)"
      by blast
    have "0 < ?total prior"
      using total [OF less.prems(1)] by (simp add: word_less_nat_alt)
    then have sz_le: "sz \<le> ?max"
      using choose_utxos_length [OF choose] sz commit_size_mono [OF law] by simp
    have le: "prior \<le> sz"
      using less.prems(2) Inr r by simp
    show ?thesis
    proof (cases "sz = prior")
      case True
      with Inr r show ?thesis
        by (subst commit_loop.simps) simp
    next
      case False
      have "sz \<le> sz'" if "commit_at W prev utxos recipient change output_value rate sz = Ok (tx', left', sz')" for tx' left' sz'
      proof -
        from commit_at_size [OF law that] obtain chosen' acc' where
          choose': "choose_utxos W prev utxos (?total sz) = Ok (chosen', acc', left')" and
          sz': "sz' = commit_size W recipient change (length chosen')"
          by blast
        have "?total prior \<le> ?total sz"
          using total [OF less.prems(1)] total [OF sz_le] le by (simp add: word_le_nat_alt)
        from choose_utxos_more [OF this choose choose'] show ?thesis
          unfolding sz sz' by (rule commit_size_mono [OF law])
      qed
      then have "\<exists>r. commit_loop W prev utxos recipient change output_value rate sz = Some r"
        using False le sz_le less.prems(1) by (intro less.hyps) auto
      with Inr r False show ?thesis
        by (subst commit_loop.simps) simp
    qed
  qed
qed

subsection \<open>What is spent and what is paid\<close>

lemma amounts_simps [simp]: "amounts [] = 0" "amounts (u # us) = unat (u_amount u) + amounts us" "amounts (us @ vs) = amounts us + amounts vs"
  by (simp_all add: amounts_def)

lemma amounts_sort: "amounts (sort_key f us) = amounts us"
proof -
  have "sum_mset (image_mset (\<lambda>u. unat (u_amount u)) (mset (sort_key f us))) = sum_mset (image_mset (\<lambda>u. unat (u_amount u)) (mset us))"
    by simp
  then show ?thesis
    by (simp only: amounts_def sum_mset_sum_list [symmetric] mset_map)
qed

lemma amounts_take: "amounts (take n us) \<le> amounts us"
  by (metis append_take_drop_id amounts_simps(3) le_add1)

lemma amounts_member: "u \<in> set us \<Longrightarrow> unat (u_amount u) \<le> amounts us"
  unfolding amounts_def by (intro member_le_sum_list) auto

lemma unat_sum_amounts: "amounts us < 2 ^ 64 \<Longrightarrow> unat (sum_list (map u_amount us)) = amounts us"
  by (induction us) (simp_all add: unat_word_ariths(1))

lemma choose_utxos_pays:
  assumes choose: "choose_utxos W required utxos amount = Ok (chosen, acc, left)"
    and bound: "amounts (required_list required @ utxos) < 2 ^ 64"
  shows "\<exists>cs. chosen = required_list required @ cs \<and> set cs \<subseteq> set utxos
    \<and> (\<forall>f. distinct (map f utxos) \<longrightarrow> distinct (map f cs)) \<and> unat acc = amounts chosen \<and> amount \<le> acc"
  using choose
proof (cases rule: choose_utxos_cases)
  case enough
  with bound show ?thesis
    by (auto simp: unat_sum_amounts)
next
  case (single u)
  let ?s = "sum_list (map u_amount (required_list required))"
  have sum: "unat ?s + unat (u_amount u) < 2 ^ 64" "unat ?s = amounts (required_list required)"
    using amounts_member [OF single(2)] bound by (simp_all add: unat_sum_amounts)
  then have acc: "unat acc = amounts chosen"
    by (simp add: single(4,5) unat_word_ariths(1))
  have "unat amount \<le> unat ?s + unat (u_amount u)"
    using single(1,3) by (simp add: word_le_nat_alt unat_sub)
  with sum acc single(4) have "amount \<le> acc"
    by (simp add: word_le_nat_alt)
  with acc single show ?thesis
    by (intro exI [of _ "[u]"]) auto
next
  case (many smaller)
  from take_utxos_prefix [OF many(4)] obtain n where n: "chosen = required_list required @ take n smaller"
    "acc = sum_list (map u_amount (required_list required)) + sum_list (map u_amount (take n smaller))"
    by blast
  have "amounts (take n smaller) \<le> amounts utxos"
    using amounts_take [of n smaller] by (simp add: many(3) amounts_sort)
  then have "unat acc = amounts chosen"
    using bound unat_sum_amounts [of "required_list required @ take n smaller"] n by simp
  moreover have "set (take n smaller) \<subseteq> set utxos"
    using set_take_subset [of n smaller] by (simp add: many(3))
  moreover have "distinct (map f (take n smaller))" if "distinct (map f utxos)" for f :: "utxo \<Rightarrow> 'b"
  proof -
    have "mset (map f smaller) = mset (map f utxos)"
      by (simp add: many(3))
    then have "distinct (map f smaller)"
      using that by (metis mset_eq_imp_distinct_iff)
    then show ?thesis
      by (simp add: take_map [symmetric])
  qed
  ultimately show ?thesis
    using many(5) n(1) by blast
qed

definition outpoint :: "utxo \<Rightarrow> out_point" where
  "outpoint u = \<lparr> op_txid = u_tx_id u, op_vout = u_vout u \<rparr>"

definition not_required :: "utxo option \<Rightarrow> utxo list \<Rightarrow> utxo list" where
  "not_required prev utxos = filter (\<lambda>u. outpoint u \<notin> outpoint ` set (required_list prev)) utxos"

lemma build_commit_loop:
  "build_commit_transaction W prev utxos recipient change v rate =
     commit_loop W prev (not_required prev utxos) recipient change v rate
       (get_size_commit W [mk_input (zeros 32) 0 []] [mk_output v recipient, mk_output non_dust_change change])"
proof -
  have "(case prev of None \<Rightarrow> utxos | Some r \<Rightarrow> filter (\<lambda>u. \<not> (u_vout u = u_vout r \<and> u_tx_id u = u_tx_id r)) utxos) =
      not_required prev utxos"
    by (cases prev) (auto simp: not_required_def required_list_def outpoint_def intro!: filter_cong)
  then show ?thesis
    by (simp add: build_commit_transaction_def Let_def)
qed

lemma amounts_filter: "amounts (filter P us) \<le> amounts us"
  by (induction us) auto

lemma commit_change_bounds:
  assumes "need \<le> acc" "546 \<le> unat need"
  shows "546 \<le> unat (commit_change acc need)"
    "unat need - 546 + unat (commit_change acc need) \<le> unat acc"
    "unat acc < unat need - 546 + unat (commit_change acc need) + 546"
proof -
  have diff: "unat (acc - need) = unat acc - unat need"
    using assms(1) by (simp add: unat_sub)
  have le: "unat need \<le> unat acc"
    using assms(1) by (simp add: word_le_nat_alt)
  have "unat (acc - need + non_dust_change) = unat acc - unat need + 546"
    using unsigned_less [of acc, where ?'a = nat] assms(2) le
    by (simp add: unat_word_ariths(1) diff non_dust_change_def)
  then show "546 \<le> unat (commit_change acc need)"
    "unat need - 546 + unat (commit_change acc need) \<le> unat acc"
    "unat acc < unat need - 546 + unat (commit_change acc need) + 546"
    using assms(2) le diff
    by (auto simp: commit_change_def Let_def non_dust_change_def REVEAL_OUTPUT_AMOUNT_def word_le_nat_alt)
qed

text \<open>
  C26: A commit transaction never pays more than its inputs hold: it spends the required output first and otherwise only
  outputs it was given, none twice; it pays the requested value and a change that is never dust; and what is left is the
  fee for its own size at the requested rate, exceeded by less than the dust limit.
\<close>

theorem commit_transaction_pays:
  assumes build: "build_commit_transaction W prev utxos recipient change v rate = Some (Ok (tx, left))"
    and funds: "amounts (required_list prev @ utxos) < 2 ^ 64"
    and no_wrap: "unat v + get_size_commit W (btx_input tx) (btx_output tx) * unat rate + 546 < 2 ^ 64"
    and outpoints: "distinct (map outpoint utxos)"
  shows "\<exists>cs ch. tx = mk_tx (map spend (required_list prev @ cs)) [mk_output v recipient, mk_output ch change]
    \<and> set cs \<subseteq> set utxos \<and> distinct (map ti_previous_output (btx_input tx)) \<and> 546 \<le> unat ch
    \<and> unat v + unat ch + get_size_commit W (btx_input tx) (btx_output tx) * unat rate \<le> amounts (required_list prev @ cs)
    \<and> amounts (required_list prev @ cs) < unat v + unat ch + get_size_commit W (btx_input tx) (btx_output tx) * unat rate + 546"
proof -
  let ?us = "not_required prev utxos"
  from build obtain sz where at: "commit_at W prev ?us recipient change v rate sz = Ok (tx, left, sz)"
    unfolding build_commit_loop using commit_loop_result by blast
  let ?total = "v + of_nat sz * rate + non_dust_change"
  from commit_at_form [OF at] obtain chosen acc where
    choose: "choose_utxos W prev ?us ?total = Ok (chosen, acc, left)" and
    tx: "tx = mk_tx (map spend chosen) [mk_output v recipient, mk_output (commit_change acc ?total) change]" and
    sz: "sz = get_size_commit W (btx_input tx) (btx_output tx)"
    by (elim exE conjE) (rule that)
  have "amounts (required_list prev @ ?us) < 2 ^ 64"
    using funds amounts_filter [of "\<lambda>u. outpoint u \<notin> outpoint ` set (required_list prev)" utxos] by (simp add: not_required_def)
  from choose_utxos_pays [OF choose this] obtain cs where
    cs: "chosen = required_list prev @ cs" "set cs \<subseteq> set ?us" "distinct (map outpoint ?us) \<longrightarrow> distinct (map outpoint cs)" and
    acc: "unat acc = amounts chosen" "?total \<le> acc"
    by blast
  have total: "unat ?total = unat v + sz * unat rate + 546"
    by (rule unat_input_total [OF no_wrap [folded sz]])
  have "distinct (map outpoint cs)"
    using cs(3) outpoints by (simp add: not_required_def distinct_map_filter)
  moreover have "outpoint ` set cs \<inter> outpoint ` set (required_list prev) = {}"
    using cs(2) by (auto simp: not_required_def)
  moreover have "map ti_previous_output (btx_input tx) = map outpoint (required_list prev) @ map outpoint cs"
    by (simp add: tx cs(1) mk_tx_def spend_def mk_input_def outpoint_def)
  ultimately have dist: "distinct (map ti_previous_output (btx_input tx))"
    by (cases prev) (auto simp: required_list_def)
  have "set cs \<subseteq> set utxos"
    using cs(2) by (auto simp: not_required_def)
  then show ?thesis
    using commit_change_bounds [OF acc(2)] total acc(1) tx dist unfolding cs(1) sz [symmetric]
    by (intro exI [of _ cs] exI [of _ "commit_change acc ?total"]) simp
qed

text \<open>
  The pairs of a result as a chain: each reveal spends output 0 of its commit, keeps more than the dust limit and leaves
  the fee of its size at the reveal rate (where that does not exceed a \<^verbatim>\<open>u64\<close>); and the first input of each commit after
  the first is output 0 of the reveal before it.
\<close>

definition reveal_of_commit :: "'k wallet_env \<Rightarrow> bytes \<Rightarrow> u64 \<Rightarrow> btc_tx \<Rightarrow> btc_tx \<Rightarrow> bool" where
  "reveal_of_commit W change rate commit reveal \<longleftrightarrow>
     (\<exists>ins c addr ch r sig script cb.
        commit = mk_tx ins [mk_output c addr, mk_output ch change]
      \<and> reveal = mk_tx [mk_input (compute_txid W commit) 0 [sig, script, cb]] [mk_output r change]
      \<and> 546 < unat r
      \<and> (get_size_reveal W change 546 script cb * unat rate + 2546 < 2 ^ 64 \<longrightarrow>
           unat c = unat r + get_size_reveal W change 546 script cb * unat rate))"

definition spends_first :: "out_point option \<Rightarrow> btc_tx \<Rightarrow> bool" where
  "spends_first prev tx = (case prev of None \<Rightarrow> True | Some p \<Rightarrow> map ti_previous_output (take 1 (btx_input tx)) = [p])"

definition first_output :: "'k wallet_env \<Rightarrow> btc_tx \<Rightarrow> out_point" where
  "first_output W tx = \<lparr> op_txid = compute_txid W tx, op_vout = 0 \<rparr>"

fun chain :: "'k wallet_env \<Rightarrow> bytes \<Rightarrow> u64 \<Rightarrow> out_point option \<Rightarrow> btc_tx list \<Rightarrow> btc_tx list \<Rightarrow> bool" where
  "chain W change rate prev [] [] \<longleftrightarrow> True"
| "chain W change rate prev (c # cs) (r # rs) \<longleftrightarrow>
     spends_first prev c \<and> reveal_of_commit W change rate c r \<and> chain W change rate (Some (first_output W r)) cs rs"
| "chain W change rate prev _ _ \<longleftrightarrow> False"

lemma choose_utxos_required:
  assumes "choose_utxos W required utxos amount = Ok (chosen, acc, left)"
  shows "\<exists>cs. chosen = required_list required @ cs"
  using assms
proof (cases rule: choose_utxos_cases)
  case (many smaller)
  then show ?thesis
    using take_utxos_prefix [OF many(4)] by blast
qed auto

lemma build_commit_spends_first:
  assumes "build_commit_transaction W prev utxos recipient change v rate = Some (Ok (tx, left))"
  shows "spends_first (map_option outpoint prev) tx"
proof -
  from assms obtain us sz where "commit_at W prev us recipient change v rate sz = Ok (tx, left, sz)"
    unfolding build_commit_loop using commit_loop_result by blast
  from commit_at_form [OF this] obtain chosen acc a ch where
    "choose_utxos W prev us a = Ok (chosen, acc, left)" "tx = mk_tx (map spend chosen) [mk_output v recipient, mk_output ch change]"
    by (elim exE conjE) (rule that)
  with choose_utxos_required show ?thesis
    by (cases prev) (fastforce simp: spends_first_def required_list_def mk_tx_def spend_def mk_input_def outpoint_def)+
qed

lemma unat_reveal_input:
  assumes "n * unat (rate :: u64) + 2546 < 2 ^ 64"
  shows "unat (of_nat n * rate + REVEAL_OUTPUT_AMOUNT + REVEAL_OUTPUT_THRESHOLD) = n * unat rate + 2546"
proof -
  have two: "unat (2000 :: u64) = 2000"
    by simp
  have eq: "of_nat n * rate + REVEAL_OUTPUT_AMOUNT + REVEAL_OUTPUT_THRESHOLD = 2000 + of_nat n * rate + non_dust_change"
    by (simp add: REVEAL_OUTPUT_AMOUNT_def REVEAL_OUTPUT_THRESHOLD_def non_dust_change_def)
  have "unat (2000 :: u64) + n * unat rate + 546 < 2 ^ 64"
    using assms two by linarith
  from unat_input_total [OF this] two show ?thesis
    unfolding eq by linarith
qed

lemma nonce_loop_chain:
  assumes "nonce_loop W key prev utxos change crate rate prefix items n0 = Some (Ok (commit, reveal, left))"
  shows "spends_first (map_option outpoint prev) commit \<and> reveal_of_commit W change rate commit reveal"
proof -
  from nonce_loop_found [OF assms] obtain n where
    att: "attempt_nonce W key prev utxos change crate rate prefix items n = Some (Ok (Some (commit, reveal, left)))"
    by blast
  define script where "script = reveal_script_of W items n"
  define cb where "cb = tap_control_block W script (x_only_key W key)"
  define addr where "addr = p2tr W (x_only_key W key) (tap_merkle_root W script (x_only_key W key))"
  define v where "v = reveal_fee W key change rate script + REVEAL_OUTPUT_AMOUNT + REVEAL_OUTPUT_THRESHOLD"
  from attempt_nonce_pair [OF att, folded script_def, folded cb_def addr_def v_def] obtain ins ch r where
    build: "build_commit_transaction W prev utxos addr change v crate =
      Some (Ok (mk_tx ins [mk_output v addr, mk_output ch change], left))" and
    pair: "reveal_pair W script cb addr change ins (int (unat v) - 2546) (unat v + unat ch) commit reveal" and
    r: "first_amount reveal = Some r" "REVEAL_OUTPUT_AMOUNT < r"
    by (elim exE conjE) (rule that)
  from pair obtain c ch' r' sig where commit: "commit = mk_tx ins [mk_output c addr, mk_output ch' change]" and
    reveal: "reveal = mk_tx [mk_input (compute_txid W commit) 0 [sig, script, cb]] [mk_output r' change]" and
    c: "int (unat c) = int (unat r') + (int (unat v) - 2546)"
    by (auto simp: reveal_pair_def)
  have "spends_first (map_option outpoint prev) commit"
    using build_commit_spends_first [OF build] by (simp add: commit spends_first_def mk_tx_def split: option.splits)
  moreover have "546 < unat r'"
    using r reveal by (simp add: first_amount_def mk_tx_def mk_output_def index_def REVEAL_OUTPUT_AMOUNT_def word_less_nat_alt)
  moreover have "unat c = unat r' + get_size_reveal W change 546 script cb * unat rate"
    if "get_size_reveal W change 546 script cb * unat rate + 2546 < 2 ^ 64"
  proof -
    have "v = of_nat (get_size_reveal W change 546 script cb) * rate + REVEAL_OUTPUT_AMOUNT + REVEAL_OUTPUT_THRESHOLD"
      by (simp add: v_def reveal_fee_def cb_def REVEAL_OUTPUT_AMOUNT_def)
    with unat_reveal_input [OF that] have "unat v = get_size_reveal W change 546 script cb * unat rate + 2546"
      by simp
    with c show ?thesis
      by linarith
  qed
  ultimately show ?thesis
    using commit reveal unfolding reveal_of_commit_def by blast
qed

lemma create_chunks_chain:
  assumes "create_chunks W key change crate rate prefix bodies prev utxos commits reveals =
      Some (Ok (prev', utxos', commits', reveals'))"
  shows "\<exists>cs rs. commits' = commits @ cs \<and> reveals' = reveals @ rs \<and> (\<forall>cs2 rs2.
    chain W change rate (map_option outpoint prev') cs2 rs2 \<longrightarrow> chain W change rate (map_option outpoint prev) (cs @ cs2) (rs @ rs2))"
  using assms
proof (induction bodies arbitrary: prev utxos commits reveals)
  case (Cons body bodies)
  from Cons.prems obtain commit reveal left out utxos1 where
    loop: "nonce_loop W key prev utxos change crate rate prefix (chunk_items W key body) 16 = Some (Ok (commit, reveal, left))" and
    rest: "create_chunks W key change crate rate prefix bodies (Some (output_utxo W reveal 0 out)) utxos1
      (commits @ [commit]) (reveals @ [reveal]) = Some (Ok (prev', utxos', commits', reveals'))"
    by (auto simp: panic_simps Let_def)
  have out: "outpoint (output_utxo W reveal 0 out) = first_output W reveal"
    by (simp add: outpoint_def output_utxo_def first_output_def)
  from Cons.IH [OF rest] obtain cs rs where "commits' = (commits @ [commit]) @ cs" "reveals' = (reveals @ [reveal]) @ rs"
    and IH: "\<And>cs2 rs2. chain W change rate (map_option outpoint prev') cs2 rs2 \<Longrightarrow>
      chain W change rate (Some (first_output W reveal)) (cs @ cs2) (rs @ rs2)"
    by (auto simp: out)
  with nonce_loop_chain [OF loop] show ?case
    by (intro exI [of _ "commit # cs"] exI [of _ "reveal # rs"]) auto
qed auto

lemma created_chain:
  assumes "create_inscription_transactions W data key prev utxos change crate rate prefix = Some (Ok txs)"
  shows "chain W change rate (map_option outpoint prev) (commits_of txs) (reveals_of txs)"
proof (cases data)
  case (RawChunks bodies)
  from assms RawChunks obtain prev' utxos' cs rs items c r left where
    chunks: "create_chunks W key change crate rate prefix bodies prev utxos [] [] = Some (Ok (prev', utxos', cs, rs))" and
    loop: "nonce_loop W key prev' utxos' change crate rate prefix items 16 = Some (Ok (c, r, left))" and
    txs: "txs = TxsChunked cs rs c (with_id W r)"
    by (auto simp: create_inscription_type_1_def panic_simps Let_def)
  have "chain W change rate (map_option outpoint prev') [c] [r]"
    using nonce_loop_chain [OF loop] by simp
  with create_chunks_chain [OF chunks] show ?thesis
    by (auto simp: txs with_id_def)
qed (use assms in \<open>auto simp: create_inscription_type_0_def create_inscription_type_3_def
  create_inscription_type_4_def sign_blob_with_private_key_def with_id_def panic_simps dest!: nonce_loop_chain\<close>)

text \<open>
  C25: The transactions of one inscription form a chain. Every reveal spends output 0 of its commit, pays itself more than
  the dust limit and leaves exactly the fee of its size; every commit after the first, the aggregate's included, spends
  output 0 of the reveal before it. So no chunk can be confirmed after the aggregate that lists it.
\<close>

theorem inscription_chain:
  assumes "create_inscription_transactions W data key prev utxos change crate rate prefix = Some (Ok txs)"
  shows "chain W change rate (map_option outpoint prev) (commits_of txs) (reveals_of txs)"
  using assms by (rule created_chain)

fun sender_verified :: "script_env \<Rightarrow> parsed_transaction \<Rightarrow> bool" where
  "sender_verified S (Complete p) \<longleftrightarrow> get_sig_verified_hash S p = Some (sc_sha256 S (ps_body p))"
| "sender_verified S (Aggregate p) \<longleftrightarrow> get_sig_verified_hash S p = Some (sc_sha256 S (ps_body p))"
| "sender_verified S (SequencerCommitment p) \<longleftrightarrow> get_sig_verified_hash S p = Some (sc_sha256 S (ps_body p))"
| "sender_verified S _ \<longleftrightarrow> True"

fun method_id_fits :: "raw_tx_data \<Rightarrow> bool" where
  "method_id_fits (RawBatchProofMethodId body) \<longleftrightarrow> body \<noteq> [] \<and> length body \<le> 520"
| "method_id_fits _ \<longleftrightarrow> True"

lemma contents_verified:
  assumes "signer_laws S W"
  shows "list_all (sender_verified S) (contents_of W key data rs)"
proof -
  have "get_sig_verified_hash S (signed_blob W key body) = Some (sc_sha256 S (ps_body (signed_blob W key body)))" for body
    using signed_verifies [OF assms] assms by (simp add: signer_laws_def signed_blob_def)
  then show ?thesis
    by (cases data) (auto simp: list_all_iff)
qed

text \<open>
  C24: What is inscribed is found and read back. The reveal transactions that are built have witness transaction ids with
  the prefix, and the parser returns from them, in order, the data that was to be inscribed: the body and a signature
  that verifies; the chunks followed by the aggregate of their transaction ids; the method id; or the commitment.
\<close>

theorem inscription_roundtrip:
  assumes "script_laws S W" "signer_laws S W" "method_id_fits data"
    and "create_inscription_transactions W data key prev utxos change crate rate prefix = Some (Ok txs)"
  shows "list_all2 (inscribed S W prefix) (reveals_of txs) (contents_of W key data (reveals_of txs))
    \<and> list_all (sender_verified S) (contents_of W key data (reveals_of txs))"
proof -
  have "list_all2 (inscribed S W prefix) (reveals_of txs) (contents_of W key data (reveals_of txs))"
  proof (cases data)
    case (RawComplete body)
    with assms(3,4) show ?thesis
      by (auto simp: with_id_def dest!: type_0_inscribed [OF assms(1)])
  next
    case (RawChunks bodies)
    with assms(4) have "create_inscription_type_1 W bodies key prev utxos change crate rate prefix = Some (Ok txs)"
      by simp
    from type_1_inscribed [OF assms(1) this] RawChunks show ?thesis
      by (auto simp: with_id_def butlast_append intro!: list_all2_appendI)
  next
    case (RawBatchProofMethodId body)
    with assms(3,4) show ?thesis
      by (auto simp: with_id_def dest!: type_3_inscribed [OF assms(1), rotated 2])
  next
    case (RawSequencerCommitment body)
    with assms(3,4) show ?thesis
      by (auto simp: with_id_def dest!: type_4_inscribed [OF assms(1)])
  qed
  with contents_verified [OF assms(2)] show ?thesis
    by blast
qed

lemma parse_method_id_pushes:
  assumes "length pushes \<noteq> 1"
  shows "parse_transaction (map Ok (envelope KindBatchProofMethodId key pushes nonce)) = Err UnexpectedOpcode"
proof -
  have kind: "kind_from_bytes (kind_to_bytes KindBatchProofMethodId) = Some KindBatchProofMethodId"
    by (simp only: kind_from_bytes_Some) simp
  have "parse_type_3_body (envelope_body pushes nonce) = Err UnexpectedOpcode"
  proof (cases pushes)
    case Nil
    then show ?thesis
      by (simp add: parse_type_3_body_def envelope_body_def open_envelope_def expect_opcode_def read_push_bytes_def
          read_opcode_def read_instr_def)
  next
    case (Cons a ps)
    with assms obtain b qs where "ps = b # qs"
      by (cases ps) auto
    with Cons show ?thesis
      by (simp add: parse_type_3_body_def envelope_body_def open_envelope_def expect_opcode_def read_push_bytes_def
          read_opcode_def read_instr_def)
  qed
  then show ?thesis
    unfolding map_Ok_envelope parse_transaction_eq
    by (simp add: expect_opcode_def read_push_bytes_def read_opcode_def read_instr_def kind parse_body_def del: kind_to_bytes.simps)
qed

text \<open>
  C29: The builder splits a method id body into pushes of 520 bytes, the parser takes exactly one push. So a reveal built
  for a body of more than 520 bytes, or for an empty one, carries the prefix but is refused by the parser.
\<close>

theorem long_method_id_not_parsed:
  assumes "script_laws S W" "body = [] \<or> 520 < length body"
    and "create_inscription_type_3 W body key prev utxos change crate rate prefix = Some (Ok txs)"
  shows "map (parse_relevant_transaction S) (reveals_of txs) = [Some (Err UnexpectedOpcode)]"
proof -
  have pushes: "length (chunks 520 body) \<noteq> 1"
    using assms(2) chunks_long [of 520 body] by (auto simp: chunks.simps [of 520 "[]"])
  from assms(3) obtain c r left where
    loop: "nonce_loop W key prev utxos change crate rate prefix
      (inscription_items (x_only_key W key) KindBatchProofMethodId (chunks 520 body)) 16 = Some (Ok (c, r, left))"
    and txs: "txs = TxsBatchProofMethodId c (with_id W r)"
    by (auto simp: create_inscription_type_3_def body_items_def inscription_items_def panic_simps)
  from nonce_loop_parses [OF assms(1) _ loop] parse_method_id_pushes [OF pushes] chunks_520_small
  have "parse_relevant_transaction S r = Some (Err UnexpectedOpcode)"
    by force
  then show ?thesis
    by (simp add: txs with_id_def)
qed

text \<open>
  C27: The search for the size of the commit transaction ends. Each round computes the fee for the size of the round before;
  a higher fee never selects fewer inputs, so the sizes grow until they repeat, and the builder returns a transaction or
  the error that the outputs do not suffice.
\<close>

theorem commit_search_terminates:
  assumes "vsize_law W"
    and "unat v + commit_size W recipient change (Suc (length utxos)) * unat rate + 546 < 2 ^ 64"
  shows "\<exists>r. build_commit_transaction W prev utxos recipient change v rate = Some r"
proof -
  let ?us = "not_required prev utxos" and ?sz = "commit_size W recipient change"
  have start: "get_size_commit W [mk_input (zeros 32) 0 []] [mk_output v recipient, mk_output non_dust_change change] = ?sz 1"
    using get_size_commit_eq [OF assms(1), of "[mk_input (zeros 32) 0 []]"] by (simp add: mk_input_def)
  have mono: "?sz (Suc (length ?us)) \<le> ?sz (Suc (length utxos))"
    by (rule commit_size_mono [OF assms(1)]) (simp add: not_required_def)
  have bound: "unat v + ?sz (Suc (length ?us)) * unat rate + 546 < 2 ^ 64"
    using assms(2) mult_le_mono1 [OF mono, of "unat rate"] by linarith
  have below: "?sz 1 \<le> ?sz (Suc (length ?us))"
    by (rule commit_size_mono [OF assms(1)]) simp
  have "?sz 1 \<le> sz" if "commit_at W prev ?us recipient change v rate (?sz 1) = Ok (tx, left, sz)" for tx left sz
  proof -
    from commit_at_size [OF assms(1) that] obtain chosen acc where
      choose: "choose_utxos W prev ?us (v + of_nat (?sz 1) * rate + non_dust_change) = Ok (chosen, acc, left)" and
      sz: "sz = ?sz (length chosen)"
      by blast
    have "unat (v + of_nat (?sz 1) * rate + non_dust_change) = unat v + ?sz 1 * unat rate + 546"
      using bound mult_le_mono1 [OF below, of "unat rate"] by (intro unat_input_total) linarith
    then have "0 < v + of_nat (?sz 1) * rate + non_dust_change"
      by (simp add: word_less_nat_alt)
    from choose_utxos_length [OF choose this] show ?thesis
      unfolding sz by (intro commit_size_mono [OF assms(1)]) simp
  qed
  from commit_loop_returns [OF assms(1) bound below this] show ?thesis
    by (simp add: build_commit_loop start)
qed

subsection \<open>A concrete wallet\<close>

text \<open>
  An instance on which the properties are applied: scripts with one tag byte per byte and per opcode, a virtual size of
  60 per input, and the lowest byte of the first output's amount as the witness transaction id, so that mining takes steps.
\<close>

fun demo_encode :: "script_op \<Rightarrow> bytes" where
  "demo_encode (PushSlice b) = concat (map (\<lambda>x. [1, x]) b) @ [0]"
| "demo_encode (PushXOnlyKey b) = concat (map (\<lambda>x. [1, x]) b) @ [0]"
| "demo_encode (PushOpcode c) = [2, c]"

fun demo_decode :: "bytes \<Rightarrow> bytes \<Rightarrow> (string + instruction) list" where
  "demo_decode acc [] = []"
| "demo_decode acc [x] = [Ok (PushBytes acc)]"
| "demo_decode acc (x # y # r) =
     (if x = 1 then demo_decode (acc @ [y]) r
      else if x = 2 then Ok (if y = 0 then PushBytes [] else Op y) # demo_decode acc r
      else Ok (PushBytes acc) # demo_decode [] (y # r))"

definition demo_amount_id :: "btc_tx \<Rightarrow> hash32" where
  "demo_amount_id tx = (case btx_output tx of [] \<Rightarrow> [] | out # _ \<Rightarrow> [ucast (to_amount out)])"

definition demo_wallet :: "unit wallet_env" where
  "demo_wallet = \<lparr> into_script = (\<lambda>ops. concat (map demo_encode ops)), x_only_key = (\<lambda>_. [7]),
     tap_control_block = (\<lambda>_ _. [0xc0]), tap_merkle_root = (\<lambda>_ _. None), tap_leaf_hash = (\<lambda>_. []),
     p2tr = (\<lambda>_ _. [5]), p2tr_tweaked = (\<lambda>_. [5]), tap_tweak = (\<lambda>_ _. [7]),
     vsize = (\<lambda>tx. 100 + 60 * length (btx_input tx)), script_spend_sighash = (\<lambda>_ _ _. Some []),
     sign_schnorr = (\<lambda>_ _. [1]), compute_txid = demo_amount_id, compute_wtxid = demo_amount_id, w_sha256 = (\<lambda>x. x),
     sign_ecdsa = (\<lambda>_ h. h), ecdsa_public_key = (\<lambda>_. [9]), borsh_aggregate = (\<lambda>a b. concat a @ concat b),
     script_hex = (\<lambda>_. []), hash_set_order = remdups \<rparr>"

definition demo_scripts :: script_env where
  "demo_scripts = \<lparr> tapscript = (\<lambda>w. case w of [sig, script, cb] \<Rightarrow> Some script | _ \<Rightarrow> None),
     script_instructions = demo_decode [], sc_sha256 = (\<lambda>x. x), key_from_sec1 = (\<lambda>k. k = [9]),
     sig_from_slice = (\<lambda>_. True), verify_digest = (\<lambda>pk h sig. sig = h) \<rparr>"

definition demo_utxo :: "u64 \<Rightarrow> utxo" where
  "demo_utxo v = \<lparr> u_tx_id = [8], u_vout = 3, u_address = None, u_script_pubkey = [], u_amount = v, u_confirmations = 1,
     u_spendable = True, u_solvable = True \<rparr>"

lemma demo_decode_slice:
  "demo_decode acc (concat (map (\<lambda>x. [1, x]) b) @ 0 # r) = Ok (PushBytes (acc @ b)) # demo_decode [] r"
proof (induction b arbitrary: acc)
  case Nil
  then show ?case
    by (cases r) auto
qed simp

lemma demo_decode_script:
  "list_all plain_op ops \<Longrightarrow> demo_decode [] (concat (map demo_encode ops)) = map (\<lambda>op. Ok (instr_of op)) ops"
proof (induction ops)
  case (Cons op ops)
  then show ?case
    by (cases op) (auto simp: demo_decode_slice OP_FALSE_def)
qed simp

lemma demo_script_laws: "script_laws demo_scripts demo_wallet"
  by (simp add: script_laws_def demo_scripts_def demo_wallet_def demo_decode_script)

lemma demo_signer_laws: "signer_laws demo_scripts demo_wallet"
  by (simp add: signer_laws_def demo_scripts_def demo_wallet_def)

lemma demo_vsize_law: "vsize_law demo_wallet"
  by (simp add: vsize_law_def demo_wallet_def mk_tx_def)

lemmas demo_simps = demo_wallet_def demo_amount_id_def demo_utxo_def mk_tx_def mk_input_def mk_output_def
  get_size_commit_def get_size_reveal_def non_dust_change_def REVEAL_OUTPUT_AMOUNT_def REVEAL_OUTPUT_THRESHOLD_def

lemma demo_commit:
  "build_commit_transaction demo_wallet None [demo_utxo 100000] [5] [3] 2706 1 =
     Some (Ok (mk_tx [mk_input [8] 3 []] [mk_output 2706 [5], mk_output 97134 [3]], []))"
  by (simp add: build_commit_transaction_def commit_loop.simps commit_at_def choose_utxos_def leftovers_def spend_def
      commit_change_def demo_simps Let_def)

definition demo_reveal :: "script_op list \<Rightarrow> btc_tx" where
  "demo_reveal items = mk_tx [mk_input [0x91] 0 [[1], reveal_script_of demo_wallet items 16, [0xc0]]] [mk_output 2545 [3]]"

lemmas demo_mine_simps = build_reveal_transaction_def build_witness_def sign_reveal_def set_witness_def build_control_block_def
  mine.simps mine_step_def change_output_def set_prev_txid_def update_witness_def first_amount_def sub_one_sat_def
  add_one_sat_def starts_with_def index_def reveal_script_of_def

lemma demo_attempt:
  "attempt_nonce demo_wallet () None [demo_utxo 100000] [3] 1 1 [0xF1] items 16 =
     Some (Ok (Some (mk_tx [mk_input [8] 3 []] [mk_output 2705 [5], mk_output 97135 [3]], demo_reveal items, [])))"
proof -
  have "p2tr demo_wallet (x_only_key demo_wallet ()) (tap_merkle_root demo_wallet s (x_only_key demo_wallet ())) = [5]"
    "of_nat (get_size_reveal demo_wallet [3] REVEAL_OUTPUT_AMOUNT s cb) * (1 :: u64) + REVEAL_OUTPUT_AMOUNT + REVEAL_OUTPUT_THRESHOLD = 2706"
    for s cb
    by (simp_all add: demo_simps)
  then show ?thesis
    unfolding attempt_nonce_def Let_def build_control_block_def
    by (simp add: demo_commit) (simp add: demo_simps demo_mine_simps demo_reveal_def)
qed

text \<open>The aggregate after one chunk: the commit needs two inputs, so its size is found in a second round.\<close>

definition demo_prev :: "script_op list \<Rightarrow> utxo" where
  "demo_prev items = output_utxo demo_wallet (demo_reveal items) 0 (mk_output 2545 [3])"

definition demo_change :: utxo where
  "demo_change = output_utxo demo_wallet (mk_tx [mk_input [8] 3 []] [mk_output 2705 [5], mk_output 97135 [3]]) 1 (mk_output 97135 [3])"

lemma demo_chained_utxos:
  "demo_prev items = \<lparr> u_tx_id = [0xF1], u_vout = 0, u_address = None, u_script_pubkey = [], u_amount = 2545,
     u_confirmations = 0, u_spendable = True, u_solvable = True \<rparr>"
  "demo_change = \<lparr> u_tx_id = [0x91], u_vout = 1, u_address = None, u_script_pubkey = [], u_amount = 97135,
     u_confirmations = 0, u_spendable = True, u_solvable = True \<rparr>"
  by (simp_all add: demo_prev_def demo_change_def output_utxo_def demo_reveal_def demo_simps)

lemma demo_commit_chained:
  "build_commit_transaction demo_wallet (Some (demo_prev items)) [demo_change] [5] [3] 2706 1 =
     Some (Ok (mk_tx [mk_input [0xF1] 0 [], mk_input [0x91] 1 []] [mk_output 2706 [5], mk_output 96754 [3]], []))"
  by (simp add: build_commit_transaction_def commit_loop.simps commit_at_def choose_utxos_def leftovers_def spend_def
      commit_change_def demo_simps demo_chained_utxos Let_def)

lemma demo_attempt_chained:
  "attempt_nonce demo_wallet () (Some (demo_prev items0)) [demo_change] [3] 1 1 [0xF1] items 16 =
     Some (Ok (Some (mk_tx [mk_input [0xF1] 0 [], mk_input [0x91] 1 []] [mk_output 2705 [5], mk_output 96755 [3]],
       demo_reveal items, [])))"
proof -
  have "p2tr demo_wallet (x_only_key demo_wallet ()) (tap_merkle_root demo_wallet s (x_only_key demo_wallet ())) = [5]"
    "of_nat (get_size_reveal demo_wallet [3] REVEAL_OUTPUT_AMOUNT s cb) * (1 :: u64) + REVEAL_OUTPUT_AMOUNT + REVEAL_OUTPUT_THRESHOLD = 2706"
    for s cb
    by (simp_all add: demo_simps)
  then show ?thesis
    unfolding attempt_nonce_def Let_def build_control_block_def
    by (simp add: demo_commit_chained) (simp add: demo_simps demo_mine_simps demo_reveal_def)
qed

definition demo_txs :: da_txs where
  "demo_txs = TxsChunked [mk_tx [mk_input [8] 3 []] [mk_output 2705 [5], mk_output 97135 [3]]]
     [demo_reveal (chunk_items demo_wallet () [1, 2])]
     (mk_tx [mk_input [0xF1] 0 [], mk_input [0x91] 1 []] [mk_output 2705 [5], mk_output 96755 [3]])
     (with_id demo_wallet (demo_reveal (inscription_items [7] KindAggregate [[0xF1, 0xF1], [9], [0xF1, 0xF1]])))"

lemma demo_signed_items:
  "signed_items demo_wallet () KindAggregate [0xF1, 0xF1] = Some (inscription_items [7] KindAggregate [[0xF1, 0xF1], [9], [0xF1, 0xF1]])"
  by (simp add: signed_items_def sign_blob_with_private_key_def push_buf_def inscription_items_def body_items_def chunks_short demo_wallet_def)

lemma demo_loop:
  "nonce_loop demo_wallet () None [demo_utxo 100000] [3] 1 1 [0xF1] items 16 =
     Some (Ok (mk_tx [mk_input [8] 3 []] [mk_output 2705 [5], mk_output 97135 [3]], demo_reveal items, []))"
  by (subst nonce_loop.simps) (simp add: demo_attempt)

lemma demo_loop_chained:
  "nonce_loop demo_wallet () (Some (demo_prev items0)) [demo_change] [3] 1 1 [0xF1] items 16 =
     Some (Ok (mk_tx [mk_input [0xF1] 0 [], mk_input [0x91] 1 []] [mk_output 2705 [5], mk_output 96755 [3]], demo_reveal items, []))"
  by (subst nonce_loop.simps) (simp add: demo_attempt_chained)

lemma demo_ids: "compute_txid demo_wallet (demo_reveal i) = [0xF1]" "compute_wtxid demo_wallet (demo_reveal i) = [0xF1]"
  by (simp_all add: demo_reveal_def demo_simps)

lemma demo_aggregate_body:
  "borsh_aggregate demo_wallet (map (compute_txid demo_wallet) [demo_reveal i]) (map (compute_wtxid demo_wallet) [demo_reveal i])
     = [0xF1, 0xF1]"
  by (simp add: demo_ids) (simp add: demo_wallet_def)

lemma demo_created:
  "create_inscription_transactions demo_wallet (RawChunks [[1, 2]]) () None [demo_utxo 100000] [3] 1 1 [0xF1] = Some (Ok demo_txs)"
proof -
  have chunks: "create_chunks demo_wallet () [3] 1 1 [0xF1] [[1, 2]] None [demo_utxo 100000] [] [] =
      Some (Ok (Some (demo_prev (chunk_items demo_wallet () [1, 2])), [demo_change],
        [mk_tx [mk_input [8] 3 []] [mk_output 2705 [5], mk_output 97135 [3]]], [demo_reveal (chunk_items demo_wallet () [1, 2])]))"
    by (simp add: demo_loop demo_prev_def demo_change_def index_def) (simp add: demo_reveal_def mk_tx_def mk_output_def)
  show ?thesis
    unfolding create_inscription_transactions.simps create_inscription_type_1_def chunks demo_txs_def
    by (simp only: bind.simps sum.case prod.case demo_aggregate_body Let_def demo_signed_items demo_loop_chained map_ok_simps)
qed

text \<open>C0 at a concrete input.\<close>

theorem inscription_chain_witness:
  "create_inscription_transactions demo_wallet (RawChunks [[1, 2]]) () None [demo_utxo 100000] [3] 1 1 [0xF1] = Some (Ok demo_txs)
   \<and> chain demo_wallet [3] 1 None (commits_of demo_txs) (reveals_of demo_txs) \<and> length (commits_of demo_txs) = 2"
  using inscription_chain [OF demo_created] demo_created by (simp add: demo_txs_def)

text \<open>C0 at a concrete input.\<close>

theorem inscription_roundtrip_witness:
  "list_all2 (inscribed demo_scripts demo_wallet [0xF1]) (reveals_of demo_txs)
     [Chunk [1, 2], Aggregate (signed_blob demo_wallet () [0xF1, 0xF1])]"
proof -
  have "contents_of demo_wallet () (RawChunks [[1, 2]]) (reveals_of demo_txs) =
      [Chunk [1, 2], Aggregate (signed_blob demo_wallet () [0xF1, 0xF1])]"
    using demo_aggregate_body by (simp add: demo_txs_def with_id_def)
  then show ?thesis
    using inscription_roundtrip [OF demo_script_laws demo_signer_laws _ demo_created] by simp
qed

text \<open>C0 at a concrete input.\<close>

theorem commit_transaction_pays_witness:
  "\<exists>cs ch. mk_tx [mk_input [8] 3 []] [mk_output 2706 [5], mk_output 97134 [3]] =
       mk_tx (map spend cs) [mk_output 2706 [5], mk_output ch [3]]
     \<and> set cs \<subseteq> {demo_utxo 100000} \<and> 546 \<le> unat ch \<and> 2706 + unat ch + 160 \<le> amounts cs \<and> amounts cs < 2706 + unat ch + 160 + 546"
  using commit_transaction_pays [OF demo_commit]
  by (simp add: demo_simps required_list_def amounts_def outpoint_def)

text \<open>C0 at a concrete input.\<close>

theorem commit_search_terminates_witness:
  "\<exists>r. build_commit_transaction demo_wallet (Some (demo_prev [])) [demo_change] [5] [3] 2706 1 = Some r"
  by (rule commit_search_terminates [OF demo_vsize_law])
    (simp add: commit_size_def demo_simps)

text \<open>C0 at a concrete input.\<close>

theorem long_method_id_not_parsed_witness:
  "\<exists>txs. create_inscription_type_3 demo_wallet (zeros 521) () None [demo_utxo 100000] [3] 1 1 [0xF1] = Some (Ok txs)
   \<and> map (parse_relevant_transaction demo_scripts) (reveals_of txs) = [Some (Err UnexpectedOpcode)]"
proof -
  obtain txs where txs: "create_inscription_type_3 demo_wallet (zeros 521) () None [demo_utxo 100000] [3] 1 1 [0xF1] = Some (Ok txs)"
    by (simp add: create_inscription_type_3_def demo_loop)
  have "520 < length (zeros 521)"
    by simp
  then have "map (parse_relevant_transaction demo_scripts) (reveals_of txs) = [Some (Err UnexpectedOpcode)]"
    by (intro long_method_id_not_parsed [OF demo_script_laws _ txs] disjI2)
  with txs show ?thesis
    by (intro exI [of _ txs] conjI)
qed

end
