(* ===== verification/Da_Verifier.thy ===== *)
theory Da_Verifier
  imports Header_Chain Inscription
begin

section \<open>Relevant transactions of a Bitcoin block\<close>

text \<open>
  Models \<^verbatim>\<open>verify_transactions\<close> of \<^verbatim>\<open>bitcoin-da/src/verifier.rs\<close> and the functions of \<^verbatim>\<open>service.rs\<close> that build the
  proofs for it: the witness root of a block and the extraction of its relevant blobs with the inclusion and completeness
  proofs.
\<close>

record blob_with_sender =
  bw_hash :: hash32
  bw_sender :: bytes
  bw_blob :: bytes
  bw_wtxid :: hash32

definition blob_new :: "bytes \<Rightarrow> bytes \<Rightarrow> hash32 \<Rightarrow> hash32 \<Rightarrow> blob_with_sender" where
  "blob_new blob sender hash wtxid = \<lparr> bw_hash = hash, bw_sender = sender, bw_blob = blob, bw_wtxid = wtxid \<rparr>"

record inclusion_multi_proof =
  ip_wtxids :: "hash32 list"
  ip_coinbase_tx :: btc_tx
  ip_coinbase_merkle_proof :: "hash32 list"

record bitcoin_block =
  bb_header :: header_wrapper
  bb_txdata :: "btc_tx list"

subsection \<open>The blobs of parsed transactions\<close>

definition signed_blob_of :: "script_env \<Rightarrow> hash32 \<Rightarrow> parsed_signed \<Rightarrow> blob_with_sender list" where
  "signed_blob_of S wtxid p = (case get_sig_verified_hash S p of
       Some hash \<Rightarrow> [blob_new (ps_body p) (ps_public_key p) hash wtxid]
     | None \<Rightarrow> [])"

fun parsed_blobs :: "script_env \<Rightarrow> hash32 \<Rightarrow> parsed_transaction \<Rightarrow> blob_with_sender list" where
  "parsed_blobs S wtxid (Complete p) = signed_blob_of S wtxid p"
| "parsed_blobs S wtxid (Aggregate p) = signed_blob_of S wtxid p"
| "parsed_blobs S wtxid (Chunk b) = [blob_new b [] (zeros 32) wtxid]"
| "parsed_blobs S wtxid (BatchProofMethodId b) = [blob_new b (zeros 32) (method_id_hash S b) wtxid]"
| "parsed_blobs S wtxid (SequencerCommitment p) = signed_blob_of S wtxid p"

definition tx_blobs :: "script_env \<Rightarrow> hash32 \<Rightarrow> btc_tx \<Rightarrow> blob_with_sender list option" where
  "tx_blobs S wtxid tx = do {
     r \<leftarrow> parse_relevant_transaction S tx;
     Some (case r of Inl _ \<Rightarrow> [] | Inr p \<Rightarrow> parsed_blobs S wtxid p)
   }"

subsection \<open>The verifier\<close>

definition MINIMUM_WITNESS_COMMITMENT_SIZE :: nat where "MINIMUM_WITNESS_COMMITMENT_SIZE = 38"
definition WITNESS_COMMITMENT_PREFIX :: bytes where "WITNESS_COMMITMENT_PREFIX = [0x6a, 0x24, 0xaa, 0x21, 0xa9, 0xed]"

definition commitment_output :: "tx_out \<Rightarrow> bool" where
  "commitment_output out \<longleftrightarrow> MINIMUM_WITNESS_COMMITMENT_SIZE \<le> length (to_script_pubkey out)
     \<and> starts_with (to_script_pubkey out) WITNESS_COMMITMENT_PREFIX"

definition commitment_idx :: "btc_tx \<Rightarrow> nat option" where
  "commitment_idx tx = rposition commitment_output (btx_output tx)"

text \<open>The loop over the relevant ids and the transactions; \<^verbatim>\<open>zip_eq\<close> panics where one of them ends first.\<close>

fun verify_blobs ::
  "btc_env \<Rightarrow> script_env \<Rightarrow> hash32 list \<Rightarrow> btc_tx list \<Rightarrow> blob_with_sender list
    \<Rightarrow> (validation_error + blob_with_sender list) option" where
  "verify_blobs E S [] [] blobs = Some (Ok blobs)"
| "verify_blobs E S (wtxid # wtxids) (tx # txs) blobs =
     (if calculate_wtxid E tx \<noteq> wtxid then Some (Err RelevantTxNotInProof)
      else do { bs \<leftarrow> tx_blobs S wtxid tx; verify_blobs E S wtxids txs (blobs @ bs) })"
| "verify_blobs E S _ _ blobs = None"

definition witness_commitment :: "btc_env \<Rightarrow> hash32 \<Rightarrow> bytes \<Rightarrow> hash32" where
  "witness_commitment E root witness_value = dsha E (root @ witness_value)"

definition committed_hash :: "bytes \<Rightarrow> bytes" where
  "committed_hash script = take 32 (drop 6 script)"

text \<open>The check of the coinbase transaction and of the witness root against the header.\<close>

definition verify_segwit ::
  "btc_env \<Rightarrow> header_wrapper \<Rightarrow> inclusion_multi_proof \<Rightarrow> blob_with_sender list \<Rightarrow> (validation_error + unit) option" where
  "verify_segwit E h incl blobs =
     (let coinbase = ip_coinbase_tx incl in
      case commitment_idx coinbase of
        None \<Rightarrow>
          if 1 < hw_tx_count h \<and> hw_merkle_root h \<noteq> hw_txs_commitment h then Some (Err InvalidSegWitCommitment)
          else if blobs \<noteq> [] then Some (Err InvalidBlock)
          else Some (Ok ())
      | Some idx \<Rightarrow> do {
          root \<leftarrow> merkle_root_of (env_sha256 E) (ip_wtxids incl);
          input \<leftarrow> index (btx_input coinbase) 0;
          case ti_witness input of
            [] \<Rightarrow> Some (Err InvalidWitnessCommitmentStructure)
          | witness_value # _ \<Rightarrow>
              let commitment = witness_commitment E root witness_value;
                  script = to_script_pubkey (btx_output coinbase ! idx)
              in if committed_hash script \<noteq> commitment then Some (Err IncorrectWitnessCommitment)
                 else if root \<noteq> hw_txs_commitment h then Some (Err InvalidSegWitCommitment)
                 else Some (Ok ())
        })"

definition verify_transactions ::
  "btc_env \<Rightarrow> script_env \<Rightarrow> bytes \<Rightarrow> header_wrapper \<Rightarrow> inclusion_multi_proof \<Rightarrow> btc_tx list
    \<Rightarrow> (validation_error + blob_with_sender list) option" where
  "verify_transactions E S prefix h incl completeness =
     (if unat (hw_tx_count h) \<noteq> length (ip_wtxids incl) then Some (Err HeaderInclusionTxCountMismatch)
      else do {
        r \<leftarrow> verify_blobs E S (filter (\<lambda>w. starts_with w prefix) (ip_wtxids incl)) completeness [];
        case r of
          Inl e \<Rightarrow> Some (Err e)
        | Inr blobs \<Rightarrow>
            if hw_tx_count h = 1 \<and> hw_txs_commitment h \<noteq> zeros 32 then Some (Err InvalidSegWitCommitment)
            else do {
              s \<leftarrow> verify_segwit E h incl blobs;
              case s of
                Inl e \<Rightarrow> Some (Err e)
              | Inr _ \<Rightarrow> do {
                  claimed_root \<leftarrow> calculate_root_with_merkle_proof (env_sha256 E)
                                  (calculate_txid E (ip_coinbase_tx incl)) 0 (ip_coinbase_merkle_proof incl);
                  if hw_merkle_root h \<noteq> claimed_root then Some (Err IncorrectTxidCommitment) else Some (Ok blobs)
                }
            }
      })"

subsection \<open>The service: blocks and their proofs\<close>

text \<open>
  The node computes ids with \<^verbatim>\<open>compute_txid\<close> and \<^verbatim>\<open>compute_wtxid\<close> of the \<^verbatim>\<open>bitcoin\<close> crate, which the helpers of the guest
  replicate; they are the two functions \<open>txid\<close> and \<open>wtxid\<close>.
\<close>

definition calculate_witness_root ::
  "(bytes \<Rightarrow> hash32) \<Rightarrow> (btc_tx \<Rightarrow> hash32) \<Rightarrow> btc_tx list \<Rightarrow> nat \<Rightarrow> hash32 option" where
  "calculate_witness_root sha wtxid txdata tx_count =
     (if tx_count = 1 then Some (zeros 32)
      else merkle_root_of sha (map (\<lambda>(i, t). if i = 0 then (case commitment_idx t of Some _ \<Rightarrow> zeros 32 | None \<Rightarrow> wtxid t)
                                      else wtxid t) (enumerate 0 txdata)))"

text \<open>\<^verbatim>\<open>get_block_by_hash\<close> after the request: the block for a decoded header, height and transactions.\<close>

definition block_of ::
  "btc_env \<Rightarrow> (btc_tx \<Rightarrow> hash32) \<Rightarrow> btc_header \<Rightarrow> u64 \<Rightarrow> btc_tx list \<Rightarrow> bitcoin_block option" where
  "block_of E wtxid header height txs = do {
     witness_root \<leftarrow> calculate_witness_root (env_sha256 E) wtxid txs (length txs);
     Some \<lparr> bb_header = HeaderWrapper_new E header (of_nat (length txs)) height witness_root, bb_txdata = txs \<rparr>
   }"

fun relevant_blobs :: "script_env \<Rightarrow> (btc_tx \<Rightarrow> hash32) \<Rightarrow> btc_tx list \<Rightarrow> blob_with_sender list option" where
  "relevant_blobs S wtxid [] = Some []"
| "relevant_blobs S wtxid (tx # txs) = do {
     bs \<leftarrow> tx_blobs S (wtxid tx) tx;
     rest \<leftarrow> relevant_blobs S wtxid txs;
     Some (bs @ rest)
   }"

definition extract_relevant_blobs_with_proof ::
  "btc_env \<Rightarrow> script_env \<Rightarrow> (btc_tx \<Rightarrow> hash32) \<Rightarrow> (btc_tx \<Rightarrow> hash32) \<Rightarrow> bytes \<Rightarrow> bitcoin_block
    \<Rightarrow> (blob_with_sender list \<times> inclusion_multi_proof \<times> btc_tx list) option" where
  "extract_relevant_blobs_with_proof E S txid wtxid prefix block = do {
     coinbase \<leftarrow> index (bb_txdata block) 0;
     let rest = tl (bb_txdata block);
     let completeness = (if list_all (\<lambda>x. x = 0) prefix then [coinbase] else [])
                          @ filter (\<lambda>tx. starts_with (wtxid tx) prefix) rest;
     let wtxids = zeros 32 # map wtxid rest;
     nodes \<leftarrow> merkle_tree_new (env_sha256 E) (map txid (bb_txdata block));
     root \<leftarrow> merkle_root nodes;
     assert_that (root = hw_merkle_root (bb_header block));
     path \<leftarrow> get_idx_path nodes 0;
     blobs \<leftarrow> relevant_blobs S wtxid completeness;
     Some (blobs, \<lparr> ip_wtxids = wtxids, ip_coinbase_tx = coinbase, ip_coinbase_merkle_proof = path \<rparr>, completeness)
   }"

subsection \<open>The verifier accepts the proofs of the service\<close>

lemma verify_blobs_own:
  "verify_blobs E S (map (calculate_wtxid E) txs) txs blobs =
     map_option (\<lambda>rest. Ok (blobs @ rest)) (relevant_blobs S (calculate_wtxid E) txs)"
proof (induction txs arbitrary: blobs)
  case (Cons tx txs)
  then show ?case
    by (cases "tx_blobs S (calculate_wtxid E tx) tx"; cases "relevant_blobs S (calculate_wtxid E) txs") simp_all
qed simp

lemma list_all_zero: "list_all (\<lambda>x. x = 0) xs \<longleftrightarrow> xs = replicate (length xs) 0"
  by (induction xs) auto

lemma zeros_starts_with: "starts_with (zeros n) prefix \<longleftrightarrow> list_all (\<lambda>x. x = 0) prefix \<and> length prefix \<le> n"
proof
  assume l: "starts_with (zeros n) prefix"
  then have eq: "prefix = replicate (min (length prefix) n) 0"
    by (simp add: starts_with_def zeros_def take_replicate)
  then have "length prefix = min (length prefix) n"
    by (metis length_replicate)
  with eq show "list_all (\<lambda>x. x = 0) prefix \<and> length prefix \<le> n"
    by (simp add: list_all_zero)
next
  assume r: "list_all (\<lambda>x. x = 0) prefix \<and> length prefix \<le> n"
  then show "starts_with (zeros n) prefix"
    by (simp add: starts_with_def zeros_def take_replicate min_absorb1 list_all_zero)
qed

text \<open>
  What the consensus rules of Bitcoin guarantee of the coinbase transaction: with a commitment output, the hash in it is
  that of the witness root and of the witness of the coinbase input; without one, no transaction has a witness, and the
  two ids of each coincide.
\<close>

definition segwit_valid :: "btc_env \<Rightarrow> btc_tx list \<Rightarrow> bool" where
  "segwit_valid E txs = (case txs of [] \<Rightarrow> False | coinbase # rest \<Rightarrow>
     (case commitment_idx coinbase of
        None \<Rightarrow> (\<forall>tx \<in> set txs. calculate_wtxid E tx = calculate_txid E tx \<and> (\<forall>i \<in> set (btx_input tx). ti_witness i = []))
      | Some idx \<Rightarrow> (case btx_input coinbase of [] \<Rightarrow> False | i # _ \<Rightarrow>
          (case ti_witness i of [] \<Rightarrow> False | v # _ \<Rightarrow>
             (case merkle_root_of (env_sha256 E) (zeros 32 # map (calculate_wtxid E) rest) of
                None \<Rightarrow> False
              | Some root \<Rightarrow> committed_hash (to_script_pubkey (btx_output coinbase ! idx)) = witness_commitment E root v)))))"

lemma tx_blobs_no_witness:
  assumes "tapscript S [] = None" "\<forall>i \<in> set (btx_input tx). ti_witness i = []" "tx_blobs S w tx = Some bs"
  shows "bs = []"
  using assms by (auto simp: tx_blobs_def parse_relevant_transaction_def get_script_def panic_simps)

lemma relevant_blobs_no_witness:
  assumes "tapscript S [] = None" "\<forall>tx \<in> set txs. \<forall>i \<in> set (btx_input tx). ti_witness i = []"
    and "relevant_blobs S w txs = Some bs"
  shows "bs = []"
  using assms(2,3)
  by (induction txs arbitrary: bs) (auto simp: panic_simps dest: tx_blobs_no_witness [OF assms(1)])

lemma witness_root_hashes:
  "map (\<lambda>(i, t). if i = 0 then f t else g t) (enumerate 0 (x # xs)) = f x # map g xs"
proof -
  have "map (\<lambda>(i, t). if i = 0 then f t else g t) (enumerate n ys) = map g ys" if "0 < n" for n ys
    using that by (induction ys arbitrary: n) auto
  then show ?thesis
    by simp
qed

lemma extract_parts:
  assumes "extract_relevant_blobs_with_proof E S txid wtxid prefix block = Some (blobs, incl, compl)"
  obtains coinbase rest nodes path where "bb_txdata block = coinbase # rest"
    "compl = (if list_all (\<lambda>x. x = 0) prefix then [coinbase] else []) @ filter (\<lambda>tx. starts_with (wtxid tx) prefix) rest"
    "merkle_tree_new (env_sha256 E) (map txid (bb_txdata block)) = Some nodes"
    "merkle_root nodes = Some (hw_merkle_root (bb_header block))" "get_idx_path nodes 0 = Some path"
    "relevant_blobs S wtxid compl = Some blobs"
    "incl = \<lparr> ip_wtxids = zeros 32 # map wtxid rest, ip_coinbase_tx = coinbase, ip_coinbase_merkle_proof = path \<rparr>"
proof -
  from assms obtain coinbase rest where tx: "bb_txdata block = coinbase # rest"
    by (cases "bb_txdata block") (auto simp: extract_relevant_blobs_with_proof_def index_def)
  with assms show ?thesis
    by (auto simp: extract_relevant_blobs_with_proof_def index_def Let_def panic_simps intro: that split: if_splits)
qed

lemma coinbase_proof_leads_to_root:
  assumes "merkle_tree_new sha (x # xs) = Some nodes" "merkle_root nodes = Some r" "get_idx_path nodes 0 = Some p"
    and "Suc (length xs) < 2 ^ 32"
  shows "calculate_root_with_merkle_proof sha x 0 p = Some r"
proof -
  have root: "merkle_root_of sha (x # xs) = Some r"
    using assms(1,2) by (simp add: merkle_root_of_def)
  from merkle_path_exists [OF root, of 0] assms(1,4) obtain q where
    q: "hd nodes = x # xs" "nodes \<noteq> []" "idx_path nodes 0 = Some q" "fold_proof sha x 0 q = Some r" "length q < length (x # xs)"
    by auto
  have "get_idx_path nodes 0 = Some q"
    using q assms(3) by (cases nodes) (auto simp: get_idx_path_def panic_simps)
  with assms(3,4) q(4,5) show ?thesis
    by (simp add: merkle_proof_take)
qed

lemma calculate_witness_root_block:
  assumes "calculate_witness_root sha wtxid (c # rest) (length (c # rest)) = Some r"
  shows "if rest = [] then r = zeros 32
    else merkle_root_of sha ((case commitment_idx c of Some _ \<Rightarrow> zeros 32 | None \<Rightarrow> wtxid c) # map wtxid rest) = Some r"
  using assms by (cases rest) (simp_all only: calculate_witness_root_def witness_root_hashes, simp_all)

lemma unat_tx_count: "n < 2 ^ 32 \<Longrightarrow> unat (of_nat n :: u32) = n"
  by (simp add: unsigned_of_nat take_bit_nat_eq_self)

lemma honest_segwit:
  assumes "segwit_valid E (c # rest)" "hw_txs_commitment h = root"
    and root: "calculate_witness_root (env_sha256 E) (calculate_wtxid E) (c # rest) (length (c # rest)) = Some root"
    and txid_root: "merkle_root_of (env_sha256 E) (map (calculate_txid E) (c # rest)) = Some (hw_merkle_root h)"
    and "commitment_idx c = None \<Longrightarrow> blobs = []" and one: "1 < hw_tx_count h \<Longrightarrow> rest \<noteq> []"
  shows "verify_segwit E h \<lparr> ip_wtxids = zeros 32 # map (calculate_wtxid E) rest, ip_coinbase_tx = c,
    ip_coinbase_merkle_proof = path \<rparr> blobs = Some (Ok ())"
proof (cases "commitment_idx c")
  case None
  then have plain: "\<forall>t \<in> set (c # rest). calculate_wtxid E t = calculate_txid E t"
    using assms(1) by (simp add: segwit_valid_def)
  have "hw_merkle_root h = root" if "rest \<noteq> []"
  proof -
    from calculate_witness_root_block [OF root] None that
    have "merkle_root_of (env_sha256 E) (map (calculate_wtxid E) (c # rest)) = Some root"
      by simp
    moreover have "map (calculate_wtxid E) (c # rest) = map (calculate_txid E) (c # rest)"
      using plain by (intro map_cong) auto
    ultimately show ?thesis
      using txid_root by (simp only: option.inject)
  qed
  with None assms(2,5) one show ?thesis
    by (auto simp: verify_segwit_def)
next
  case (Some idx)
  then obtain i ins v vs r where i: "btx_input c = i # ins" "ti_witness i = v # vs"
    and r: "merkle_root_of (env_sha256 E) (zeros 32 # map (calculate_wtxid E) rest) = Some r"
    and commits: "committed_hash (to_script_pubkey (btx_output c ! idx)) = witness_commitment E r v"
    using assms(1) by (auto simp: segwit_valid_def split: list.splits option.splits)
  have "r = root"
    using calculate_witness_root_block [OF root] r Some
    by (cases "rest = []") (simp_all add: merkle_root_of_leaf index_def)
  then show ?thesis
    using Some i r commits assms(2) by (simp add: verify_segwit_def index_def)
qed

text \<open>
  C31: The verifier accepts what the service extracts. For a block that follows the segregated witness rules, whose header
  commits to its transactions, and a prefix that is not all zeros, the verifier returns exactly the blobs that the
  service extracted along with its inclusion and completeness proofs.
\<close>

theorem honest_extraction_accepted:
  assumes "block_of E (calculate_wtxid E) header height txs = Some block" "length txs < 2 ^ 32" "segwit_valid E txs"
    and "\<not> list_all (\<lambda>x. x = 0) prefix" "tapscript S [] = None"
    and "extract_relevant_blobs_with_proof E S (calculate_txid E) (calculate_wtxid E) prefix block = Some (blobs, incl, compl)"
  shows "verify_transactions E S prefix (bb_header block) incl compl = Some (Ok blobs)"
proof -
  obtain c rest nodes path where
    tx: "bb_txdata block = c # rest" and
    split: "compl = (if list_all (\<lambda>x. x = 0) prefix then [c] else [])
      @ filter (\<lambda>tx. starts_with (calculate_wtxid E tx) prefix) rest" and
    nodes: "merkle_tree_new (env_sha256 E) (map (calculate_txid E) (bb_txdata block)) = Some nodes"
      "merkle_root nodes = Some (hw_merkle_root (bb_header block))" "get_idx_path nodes 0 = Some path" and
    blobs: "relevant_blobs S (calculate_wtxid E) compl = Some blobs" and
    incl: "incl = \<lparr> ip_wtxids = zeros 32 # map (calculate_wtxid E) rest, ip_coinbase_tx = c, ip_coinbase_merkle_proof = path \<rparr>"
    by (rule extract_parts [OF assms(6)])
  have compl: "compl = filter (\<lambda>tx. starts_with (calculate_wtxid E tx) prefix) rest"
    using split assms(4) by simp
  from assms(1) obtain root where root: "calculate_witness_root (env_sha256 E) (calculate_wtxid E) txs (length txs) = Some root"
    and header: "bb_header block = HeaderWrapper_new E header (of_nat (length txs)) height root" and txs: "txs = c # rest"
    using tx by (auto simp: block_of_def panic_simps)
  have count: "hw_tx_count (bb_header block) = of_nat (Suc (length rest))" "hw_txs_commitment (bb_header block) = root"
    by (simp_all add: header HeaderWrapper_new_def txs)
  have small: "Suc (length rest) < 2 ^ 32"
    using assms(2) txs by simp
  have one: "hw_tx_count (bb_header block) = 1 \<longleftrightarrow> rest = []"
    using unat_tx_count [OF small] by (auto simp: count word_eq_unat)
  have relevant: "verify_blobs E S (filter (\<lambda>w. starts_with w prefix) (ip_wtxids incl)) compl [] = Some (Ok blobs)"
    using assms(4) blobs verify_blobs_own [of E S compl "[]"] by (simp add: incl compl zeros_starts_with filter_map o_def)
  have segwit: "verify_segwit E (bb_header block) incl blobs = Some (Ok ())"
    unfolding incl
  proof (rule honest_segwit)
    show "segwit_valid E (c # rest)" "hw_txs_commitment (bb_header block) = root"
      "calculate_witness_root (env_sha256 E) (calculate_wtxid E) (c # rest) (length (c # rest)) = Some root"
      using assms(3) root count by (simp_all add: txs)
    show "merkle_root_of (env_sha256 E) (map (calculate_txid E) (c # rest)) = Some (hw_merkle_root (bb_header block))"
      using nodes by (simp add: merkle_root_of_def tx)
    show "commitment_idx c = None \<Longrightarrow> blobs = []"
      using relevant_blobs_no_witness [OF assms(5) _ blobs] assms(3) by (auto simp: compl segwit_valid_def txs)
  qed (use one in auto)
  have "calculate_root_with_merkle_proof (env_sha256 E) (calculate_txid E c) 0 path = Some (hw_merkle_root (bb_header block))"
    using coinbase_proof_leads_to_root [OF _ nodes(2,3)] nodes(1) small by (simp add: tx)
  then show ?thesis
    using relevant segwit unat_tx_count [OF small] one root
    by (simp add: verify_transactions_def incl count calculate_witness_root_def txs del: of_nat_Suc) auto
qed

subsection \<open>What an accepted proof shows, and what it does not\<close>

lemma verify_transactions_Ok:
  assumes "verify_transactions E S prefix h incl compl = Some (Ok blobs)"
  shows "unat (hw_tx_count h) = length (ip_wtxids incl)"
    "verify_blobs E S (filter (\<lambda>w. starts_with w prefix) (ip_wtxids incl)) compl [] = Some (Ok blobs)"
    "hw_tx_count h = 1 \<longrightarrow> hw_txs_commitment h = zeros 32"
    "verify_segwit E h incl blobs = Some (Ok ())"
    "calculate_root_with_merkle_proof (env_sha256 E) (calculate_txid E (ip_coinbase_tx incl)) 0 (ip_coinbase_merkle_proof incl)
       = Some (hw_merkle_root h)"
  using assms by (auto simp: verify_transactions_def panic_simps split: sum.splits if_splits)

lemma verify_segwit_Some:
  assumes "verify_segwit E h incl blobs = Some (Ok ())" "commitment_idx (ip_coinbase_tx incl) = Some idx"
  shows "\<exists>root i v. merkle_root_of (env_sha256 E) (ip_wtxids incl) = Some root \<and> index (btx_input (ip_coinbase_tx incl)) 0 = Some i
    \<and> (\<exists>vs. ti_witness i = v # vs)
    \<and> committed_hash (to_script_pubkey (btx_output (ip_coinbase_tx incl) ! idx)) = witness_commitment E root v
    \<and> root = hw_txs_commitment h"
proof -
  from assms obtain root i where "merkle_root_of (env_sha256 E) (ip_wtxids incl) = Some root"
    "index (btx_input (ip_coinbase_tx incl)) 0 = Some i"
    by (auto simp: verify_segwit_def Let_def bind_is_Some simp del: index_Some)
  with assms show ?thesis
    by (cases "ti_witness i") (auto simp: verify_segwit_def Let_def simp del: index_Some split: if_splits)
qed


text \<open>
  C33: With a prefix of zeros the service adds the coinbase transaction to the completeness proof, because its id in the
  list is zero; the verifier then compares that zero with the transaction's own id and refuses the proof.
\<close>

theorem zero_prefix_extraction_refused:
  assumes "extract_relevant_blobs_with_proof E S txid (calculate_wtxid E) prefix block = Some (blobs, incl, compl)"
    and "list_all (\<lambda>x. x = 0) prefix" "length prefix \<le> 32"
    and "unat (hw_tx_count (bb_header block)) = length (bb_txdata block)"
    and "calculate_wtxid E (hd (bb_txdata block)) \<noteq> zeros 32"
  shows "verify_transactions E S prefix (bb_header block) incl compl = Some (Err RelevantTxNotInProof)"
proof -
  obtain c rest nodes path where tx: "bb_txdata block = c # rest"
    and split: "compl = (if list_all (\<lambda>x. x = 0) prefix then [c] else [])
      @ filter (\<lambda>tx. starts_with (calculate_wtxid E tx) prefix) rest"
    and incl: "incl = \<lparr> ip_wtxids = zeros 32 # map (calculate_wtxid E) rest, ip_coinbase_tx = c, ip_coinbase_merkle_proof = path \<rparr>"
    by (rule extract_parts [OF assms(1)])
  then show ?thesis
    using assms(2-5) by (simp add: verify_transactions_def zeros_starts_with)
qed

subsection \<open>Soundness for the true number of transactions\<close>

text \<open>
  The inputs that are hashed when the proof is checked against the transactions of the block. Collisions are excluded on
  these only.
\<close>

definition txid_preimage :: "btc_env \<Rightarrow> btc_tx \<Rightarrow> bytes" where
  "txid_preimage E tx = encode_version E (btx_version tx) @ encode_inputs E (btx_input tx) @
     encode_outputs E (btx_output tx) @ encode_lock_time E (btx_lock_time tx)"

definition commitment_preimages :: "btc_env \<Rightarrow> hash32 list \<Rightarrow> btc_tx \<Rightarrow> bytes set" where
  "commitment_preimages E wtxids coinbase =
     (case (merkle_root_of (env_sha256 E) wtxids, btx_input coinbase) of
        (Some root, i # _) \<Rightarrow> (\<lambda>v. root @ v) ` set (take 1 (ti_witness i))
      | _ \<Rightarrow> {})"

definition da_preimages :: "btc_env \<Rightarrow> btc_tx list \<Rightarrow> inclusion_multi_proof \<Rightarrow> btc_tx list \<Rightarrow> bytes set" where
  "da_preimages E txs incl compl =
     (let sha = env_sha256 E; wtxids = zeros 32 # map (calculate_wtxid E) (tl txs); coinbase = ip_coinbase_tx incl in
        set (tree_preimages sha (map (calculate_txid E) txs))
      \<union> set (proof_preimages sha (calculate_txid E coinbase) 0 (ip_coinbase_merkle_proof incl))
      \<union> {txid_preimage E coinbase, txid_preimage E (hd txs)}
      \<union> set (tree_preimages sha wtxids) \<union> set (tree_preimages sha (ip_wtxids incl))
      \<union> commitment_preimages E wtxids (hd txs) \<union> commitment_preimages E (ip_wtxids incl) coinbase
      \<union> encode_tx E ` (set txs \<union> set compl))"

text \<open>
  What is relied on of the consensus encodings: a transaction is determined by its encoding, and its outputs by the
  encoding without witnesses.
\<close>

definition encoding_laws :: "btc_env \<Rightarrow> bool" where
  "encoding_laws E \<longleftrightarrow> inj (encode_tx E) \<and> (\<forall>t u. txid_preimage E t = txid_preimage E u \<longrightarrow> btx_output t = btx_output u)"

lemma calculate_txid_preimage: "calculate_txid E tx = dsha E (txid_preimage E tx)"
  by (simp add: calculate_txid_def txid_preimage_def)

lemma dsha_length: "sha_32 E \<Longrightarrow> length (dsha E x) = 32"
  by (simp add: sha_32_def dsha_def calculate_double_sha256_def)

lemma verify_blobs_sound:
  assumes "verify_blobs E S (map (calculate_wtxid E) txs) compl blobs = Some (Ok blobs')"
    and "inj_on (calculate_wtxid E) (set txs \<union> set compl)"
  shows "compl = txs \<and> (\<exists>rest. relevant_blobs S (calculate_wtxid E) txs = Some rest \<and> blobs' = blobs @ rest)"
  using assms
proof (induction txs arbitrary: compl blobs)
  case Nil
  then show ?case
    by (cases compl) auto
next
  case (Cons tx txs)
  then obtain c cs bs where compl: "compl = c # cs" "calculate_wtxid E c = calculate_wtxid E tx"
    and bs: "tx_blobs S (calculate_wtxid E tx) c = Some bs"
    and rest: "verify_blobs E S (map (calculate_wtxid E) txs) cs (blobs @ bs) = Some (Ok blobs')"
    by (cases compl) (auto simp: panic_simps split: if_splits)
  have "c = tx"
    using Cons.prems(2) compl by (auto dest: inj_onD)
  moreover have "inj_on (calculate_wtxid E) (set txs \<union> set cs)"
    using Cons.prems(2) compl(1) by (rule_tac inj_on_subset) auto
  ultimately show ?case
    using Cons.IH [OF rest] compl(1) bs by auto
qed

lemma merkle_root_of_32:
  assumes "merkle_root_of sha xs = Some r" "\<And>x. length (sha x) = 32" "\<forall>x \<in> set xs. length x = 32"
  shows "length r = 32"
  using assms(1,3)
proof (induction rule: merkle_induct)
  case (leaf x)
  then show ?case by simp
next
  case (step xs ys)
  then show ?case
    using next_level_lengths [OF assms(2) step.hyps(2)] by blast
qed

lemma dsha_eq: "dsha E = calculate_double_sha256 (env_sha256 E)"
  by (simp add: dsha_def fun_eq_iff)

text \<open>The coinbase transaction of the proof has the outputs of the block's.\<close>

lemma coinbase_outputs:
  assumes "merkle_root_of (env_sha256 E) (map (calculate_txid E) (c # rest)) = Some root"
    and "calculate_root_with_merkle_proof (env_sha256 E) (calculate_txid E cb) 0 proof' = Some root"
    and "length proof' = tree_depth (length (c # rest))" "length (c # rest) < 2 ^ 32" "\<forall>s \<in> set proof'. length s = 32"
    and "sha_32 E" "encoding_laws E" "inj_on (dsha E) P"
    and P: "set (tree_preimages (env_sha256 E) (map (calculate_txid E) (c # rest))) \<subseteq> P"
      "set (proof_preimages (env_sha256 E) (calculate_txid E cb) 0 proof') \<subseteq> P" "txid_preimage E cb \<in> P" "txid_preimage E c \<in> P"
  shows "btx_output cb = btx_output c"
proof -
  have sha: "\<And>x. length (env_sha256 E x) = 32"
    using assms(6) by (simp add: sha_32_def)
  have len: "length (calculate_txid E t) = 32" for t
    using dsha_length [OF assms(6)] by (simp add: calculate_txid_preimage)
  have depth: "tree_depth n \<le> n" for n
    by (induction n rule: tree_depth.induct) (subst tree_depth.simps, auto)
  have "length proof' < 2 ^ 32"
    unfolding assms(3) using depth [of "length (c # rest)"] assms(4) by (rule le_less_trans)
  then have fold: "fold_proof (env_sha256 E) (calculate_txid E cb) (of_nat 0) proof' = Some root"
    using assms(2) by (simp add: merkle_proof_take)
  have "calculate_txid E cb = map (calculate_txid E) (c # rest) ! 0"
  proof (rule fold_proof_leaf [OF assms(1) _ _ _ fold sha assms(8) [unfolded dsha_eq] P(1)])
    show "length proof' = tree_depth (length (map (calculate_txid E) (c # rest)))"
      by (simp only: assms(3) length_map)
    show "set (proof_preimages (env_sha256 E) (calculate_txid E cb) (word_of_nat 0) proof') \<subseteq> P"
      using P(2) by simp
  qed (use assms(4,5) len in simp_all)
  then have "calculate_txid E cb = calculate_txid E c"
    by simp
  then have "txid_preimage E cb = txid_preimage E c"
    unfolding calculate_txid_preimage by (rule inj_onD [OF assms(8) _ P(3,4)])
  then show ?thesis
    using assms(7) unfolding encoding_laws_def by blast
qed

text \<open>So it commits to the same witness root, and the list of ids is the block's.\<close>

lemma committed_wtxids:
  assumes "segwit_valid E (c # rest)" "commitment_idx c = Some idx" "btx_output cb = btx_output c"
    and "verify_segwit E h incl blobs = Some (Ok ())" "ip_coinbase_tx incl = cb"
    and "length (ip_wtxids incl) = length (c # rest)" "\<forall>w \<in> set (ip_wtxids incl). length w = 32"
    and "sha_32 E" "inj_on (dsha E) P"
    and P: "set (tree_preimages (env_sha256 E) (zeros 32 # map (calculate_wtxid E) rest)) \<subseteq> P"
      "set (tree_preimages (env_sha256 E) (ip_wtxids incl)) \<subseteq> P"
      "commitment_preimages E (zeros 32 # map (calculate_wtxid E) rest) c \<subseteq> P" "commitment_preimages E (ip_wtxids incl) cb \<subseteq> P"
  shows "ip_wtxids incl = zeros 32 # map (calculate_wtxid E) rest"
proof -
  let ?ws = "zeros 32 # map (calculate_wtxid E) rest"
  have sha: "\<And>x. length (env_sha256 E x) = 32"
    using assms(8) by (simp add: sha_32_def)
  have lens: "\<forall>w \<in> set ?ws. length w = 32"
    using dsha_length [OF assms(8)] by (auto simp: calculate_wtxid_def)
  have idx: "commitment_idx cb = Some idx"
    using assms(2,3) by (simp add: commitment_idx_def)
  from verify_segwit_Some [OF assms(4), unfolded assms(5), OF idx] obtain root i v vs where
    root: "merkle_root_of (env_sha256 E) (ip_wtxids incl) = Some root" and
    i: "index (btx_input cb) 0 = Some i" "ti_witness i = v # vs" and
    hash: "committed_hash (to_script_pubkey (btx_output cb ! idx)) = witness_commitment E root v"
    by (elim exE conjE) (rule that)
  from assms(1,2) obtain root' v' i' vs' is' where
    root': "merkle_root_of (env_sha256 E) ?ws = Some root'" and
    i': "btx_input c = i' # is'" "ti_witness i' = v' # vs'" and
    hash': "committed_hash (to_script_pubkey (btx_output c ! idx)) = witness_commitment E root' v'"
    by (auto simp: segwit_valid_def split: list.splits option.splits)
  have "root @ v \<in> commitment_preimages E (ip_wtxids incl) cb"
    using root i by (cases "btx_input cb") (simp_all add: commitment_preimages_def)
  moreover have "root' @ v' \<in> commitment_preimages E ?ws c"
    using root' i' by (simp add: commitment_preimages_def)
  ultimately have inP: "root @ v \<in> P" "root' @ v' \<in> P"
    using P(3,4) by blast+
  have "dsha E (root @ v) = dsha E (root' @ v')"
    using hash hash' by (simp add: witness_commitment_def assms(3))
  then have "root @ v = root' @ v'"
    by (rule inj_onD [OF assms(9) _ inP])
  moreover have "length root = 32" "length root' = 32"
    using merkle_root_of_32 [OF root sha assms(7)] merkle_root_of_32 [OF root' sha lens] by simp_all
  ultimately have "root = root'"
    by simp
  then have "merkle_root_of (env_sha256 E) ?ws = Some root"
    using root' by simp
  moreover have "length (ip_wtxids incl) = length ?ws"
    using assms(6) by simp
  ultimately show ?thesis
    by (rule merkle_root_binding [OF root _ _ sha assms(9) [unfolded dsha_eq] P(2,1) assms(7) lens])
qed

lemma da_preimages_parts:
  "set (tree_preimages (env_sha256 E) (map (calculate_txid E) (c # rest))) \<subseteq> da_preimages E (c # rest) incl compl"
  "set (proof_preimages (env_sha256 E) (calculate_txid E (ip_coinbase_tx incl)) 0 (ip_coinbase_merkle_proof incl))
     \<subseteq> da_preimages E (c # rest) incl compl"
  "txid_preimage E (ip_coinbase_tx incl) \<in> da_preimages E (c # rest) incl compl"
  "txid_preimage E c \<in> da_preimages E (c # rest) incl compl"
  "set (tree_preimages (env_sha256 E) (zeros 32 # map (calculate_wtxid E) rest)) \<subseteq> da_preimages E (c # rest) incl compl"
  "set (tree_preimages (env_sha256 E) (ip_wtxids incl)) \<subseteq> da_preimages E (c # rest) incl compl"
  "commitment_preimages E (zeros 32 # map (calculate_wtxid E) rest) c \<subseteq> da_preimages E (c # rest) incl compl"
  "commitment_preimages E (ip_wtxids incl) (ip_coinbase_tx incl) \<subseteq> da_preimages E (c # rest) incl compl"
  "encode_tx E ` (set (c # rest) \<union> set compl) \<subseteq> da_preimages E (c # rest) incl compl"
  unfolding da_preimages_def Let_def list.sel by blast+

text \<open>
  C30: For the true number of transactions and a coinbase proof of the tree's depth, an accepted proof is complete: if the
  hash does not collide on the inputs at hand, the transactions of the completeness proof are exactly those of the block
  whose witness id has the prefix, and the returned blobs are exactly theirs.
\<close>

theorem accepted_blobs_complete:
  assumes accept: "verify_transactions E S prefix h incl compl = Some (Ok blobs)"
    and block: "merkle_root_of (env_sha256 E) (map (calculate_txid E) (c # rest)) = Some (hw_merkle_root h)"
      "segwit_valid E (c # rest)" "commitment_idx c = Some idx"
    and shape: "unat (hw_tx_count h) = length (c # rest)" "length (ip_coinbase_merkle_proof incl) = tree_depth (length (c # rest))"
      "\<forall>s \<in> set (ip_coinbase_merkle_proof incl) \<union> set (ip_wtxids incl). length s = 32"
    and laws: "sha_32 E" "encoding_laws E" "inj_on (dsha E) (da_preimages E (c # rest) incl compl)"
    and prefix: "\<not> list_all (\<lambda>x. x = 0) prefix"
  shows "compl = filter (\<lambda>tx. starts_with (calculate_wtxid E tx) prefix) rest
    \<and> relevant_blobs S (calculate_wtxid E) compl = Some blobs"
proof -
  note ok = verify_transactions_Ok [OF accept]
  let ?rel = "filter (\<lambda>tx. starts_with (calculate_wtxid E tx) prefix) rest"
  have small: "length (c # rest) < 2 ^ 32"
    using shape(1) unsigned_less [of "hw_tx_count h", where ?'a = nat] by simp
  have outs: "btx_output (ip_coinbase_tx incl) = btx_output c"
    using coinbase_outputs [OF block(1) ok(5) shape(2) small _ laws da_preimages_parts(1-4)] shape(3) by blast
  have "ip_wtxids incl = zeros 32 # map (calculate_wtxid E) rest"
    using committed_wtxids [OF block(2,3) outs ok(4) refl _ _ laws(1,3) da_preimages_parts(5-8)] shape(1,3) ok(1) by auto
  then have "verify_blobs E S (map (calculate_wtxid E) ?rel) compl [] = Some (Ok blobs)"
    using ok(2) prefix by (simp add: zeros_starts_with filter_map o_def)
  moreover have "inj_on (calculate_wtxid E) (set ?rel \<union> set compl)"
  proof (rule inj_onI)
    fix t u
    assume tu: "t \<in> set ?rel \<union> set compl" "u \<in> set ?rel \<union> set compl" "calculate_wtxid E t = calculate_wtxid E u"
    then have "encode_tx E t \<in> da_preimages E (c # rest) incl compl" "encode_tx E u \<in> da_preimages E (c # rest) incl compl"
      using da_preimages_parts(9) [of E c rest compl incl] by auto
    with tu(3) have "encode_tx E t = encode_tx E u"
      unfolding calculate_wtxid_def by (rule inj_onD [OF laws(3)])
    then show "t = u"
      using laws(2) unfolding encoding_laws_def by (blast dest: injD)
  qed
  ultimately show ?thesis
    using verify_blobs_sound [of E S ?rel compl "[]" blobs] by auto
qed

subsection \<open>A block on which the properties are applied\<close>

text \<open>
  A prefix-free encoding of transactions, a hash of one byte that depends on every byte of its input, and a block of a
  coinbase, an inscribed chunk and another transaction.
\<close>

definition prefix_free :: "('a \<Rightarrow> bytes) \<Rightarrow> bool" where
  "prefix_free f \<longleftrightarrow> (\<forall>x y r s. f x @ r = f y @ s \<longrightarrow> x = y \<and> r = s)"

definition demo_list :: "('a \<Rightarrow> bytes) \<Rightarrow> 'a list \<Rightarrow> bytes" where
  "demo_list f xs = concat (map (\<lambda>x. 1 # f x) xs) @ [0]"

definition demo_bytes :: "bytes \<Rightarrow> bytes" where
  "demo_bytes = demo_list (\<lambda>b. [b])"

definition demo_input :: "tx_in \<Rightarrow> bytes" where
  "demo_input i = demo_bytes (op_txid (ti_previous_output i)) @ be_bytes 4 (op_vout (ti_previous_output i))
     @ demo_bytes (ti_script_sig i) @ be_bytes 4 (ti_sequence i) @ demo_list demo_bytes (ti_witness i)"

definition demo_output :: "tx_out \<Rightarrow> bytes" where
  "demo_output out = be_bytes 8 (to_amount out) @ demo_bytes (to_script_pubkey out)"

definition demo_tx :: "btc_tx \<Rightarrow> bytes" where
  "demo_tx tx = be_bytes 4 (btx_version tx) @ demo_list demo_input (btx_input tx)
     @ demo_list demo_output (btx_output tx) @ be_bytes 4 (btx_lock_time tx)"

definition demo_sha :: "bytes \<Rightarrow> hash32" where
  "demo_sha x = fold (\<lambda>b a. 3 * a + b + 1) x 7 # zeros 31"

definition demo_env :: btc_env where
  "demo_env = \<lparr> env_sha256 = demo_sha, encode_header = (\<lambda>h. h_merkle_root h @ be_bytes 4 (h_nonce h)),
     encode_version = be_bytes 4, encode_inputs = (\<lambda>ins. demo_list demo_input (map (\<lambda>i. i\<lparr>ti_witness := []\<rparr>) ins)), encode_outputs = demo_list demo_output,
     encode_lock_time = be_bytes 4, encode_tx = demo_tx \<rparr>"

definition demo_chunk_tx :: btc_tx where
  "demo_chunk_tx = mk_tx [mk_input [8] 0 [[1], reveal_script_of demo_wallet (chunk_items demo_wallet () [42]) 16, [0xc0]]] [mk_output 546 [3]]"

definition demo_plain_tx :: btc_tx where
  "demo_plain_tx = mk_tx [mk_input [4] 1 [[1]]] [mk_output 9 [3]]"

definition demo_coinbase :: btc_tx where
  "demo_coinbase = mk_tx [mk_input (zeros 32) 0 [zeros 32]] [mk_output 50 (WITNESS_COMMITMENT_PREFIX @ 125 # zeros 31)]"

definition demo_block :: bitcoin_block where
  "demo_block = \<lparr> bb_header = HeaderWrapper_new demo_env
      \<lparr> h_version = 1, h_prev_blockhash = zeros 32, h_merkle_root = 95 # zeros 31, h_time = 0, h_bits = 0, h_nonce = 5 \<rparr>
      3 7 (209 # zeros 31), bb_txdata = [demo_coinbase, demo_chunk_tx, demo_plain_tx] \<rparr>"

definition demo_incl :: inclusion_multi_proof where
  "demo_incl = \<lparr> ip_wtxids = [zeros 32, 49 # zeros 31, 74 # zeros 31], ip_coinbase_tx = demo_coinbase, ip_coinbase_merkle_proof = [129 # zeros 31, 170 # zeros 31] \<rparr>"

definition demo_blob :: blob_with_sender where
  "demo_blob = blob_new [42] [] (zeros 32) (49 # zeros 31)"


lemma prefix_free_eq: "prefix_free f \<Longrightarrow> f x @ r = f y @ s \<longleftrightarrow> x = y \<and> r = s"
  by (auto simp: prefix_free_def)

lemma prefix_free_words: "prefix_free (be_bytes 4 :: u32 \<Rightarrow> bytes)" "prefix_free (be_bytes 8 :: u64 \<Rightarrow> bytes)"
  by (simp_all add: prefix_free_def be_bytes_u32_inj be_bytes_u64_inj)

lemma prefix_free_list: "prefix_free f \<Longrightarrow> prefix_free (demo_list f)"
  unfolding prefix_free_def [of "demo_list f"]
proof (intro allI impI)
  fix xs ys r s
  assume f: "prefix_free f" and "demo_list f xs @ r = demo_list f ys @ s"
  then show "xs = ys \<and> r = s"
  proof (induction xs arbitrary: ys)
    case Nil
    then show ?case
      by (cases ys) (auto simp: demo_list_def)
  next
    case (Cons x xs)
    then show ?case
      by (cases ys) (auto simp: demo_list_def prefix_free_eq [OF f])
  qed
qed

lemma prefix_free_bytes: "prefix_free demo_bytes"
  unfolding demo_bytes_def by (rule prefix_free_list) (simp add: prefix_free_def)

lemmas prefix_free_basic = prefix_free_words [THEN prefix_free_eq] prefix_free_bytes [THEN prefix_free_eq]
  prefix_free_bytes [THEN prefix_free_list, THEN prefix_free_eq]

lemma prefix_free_output: "prefix_free demo_output"
  unfolding prefix_free_def demo_output_def by (auto simp: prefix_free_basic intro: tx_out.equality)

lemma prefix_free_input: "prefix_free demo_input"
  unfolding prefix_free_def demo_input_def
  by (auto simp: prefix_free_basic intro!: tx_in.equality out_point.equality)

lemmas prefix_free_records = prefix_free_output [THEN prefix_free_list, THEN prefix_free_eq]
  prefix_free_input [THEN prefix_free_list, THEN prefix_free_eq]

lemma demo_encoding: "encoding_laws demo_env"
  unfolding encoding_laws_def
proof (intro conjI allI impI injI)
  fix t u
  assume "encode_tx demo_env t = encode_tx demo_env u"
  then have "demo_tx t @ [] = demo_tx u @ []"
    by (simp add: demo_env_def)
  then show "t = u"
    unfolding demo_tx_def append_assoc by (auto simp: prefix_free_basic prefix_free_records be_bytes_u32_inj intro: btc_tx.equality)
next
  fix t u
  assume "txid_preimage demo_env t = txid_preimage demo_env u"
  then show "btx_output t = btx_output u"
    by (simp add: txid_preimage_def demo_env_def prefix_free_basic prefix_free_records)
qed

lemma demo_sha_32: "sha_32 demo_env"
  by (simp add: sha_32_def demo_env_def demo_sha_def zeros_def)

lemma demo_wtxids: "calculate_wtxid demo_env demo_chunk_tx = 49 # zeros 31" "calculate_wtxid demo_env demo_plain_tx = 74 # zeros 31"
  "calculate_wtxid demo_env demo_coinbase \<noteq> zeros 32"
  by code_simp+

lemma demo_extraction:
  "extract_relevant_blobs_with_proof demo_env demo_scripts (calculate_txid demo_env) (calculate_wtxid demo_env) [49] demo_block
     = Some ([demo_blob], demo_incl, [demo_chunk_tx])"
  by code_simp

lemma demo_accepted:
  "verify_transactions demo_env demo_scripts [49] (bb_header demo_block) demo_incl [demo_chunk_tx] = Some (Ok [demo_blob])"
  by code_simp

lemma demo_block_of: "block_of demo_env (calculate_wtxid demo_env) (hw_header (bb_header demo_block)) 7 (bb_txdata demo_block) = Some demo_block"
  by code_simp
lemma demo_segwit: "segwit_valid demo_env [demo_coinbase, demo_chunk_tx, demo_plain_tx]"
  by code_simp

lemma demo_next: "next_level demo_sha [zeros 32, 49 # zeros 31, 74 # zeros 31] = Some [93 # zeros 31, 104 # zeros 31]"
  by code_simp

lemma demo_env_sel [simp]: "env_sha256 demo_env = demo_sha" "encode_tx demo_env = demo_tx"
  by (simp_all add: demo_env_def)

lemma demo_coinbase_input: "btx_input demo_coinbase = [mk_input (zeros 32) 0 [zeros 32]]" "ti_witness (mk_input t v w) = w"
  by (simp_all add: demo_coinbase_def mk_tx_def mk_input_def)

lemma inj_on_distinct: "distinct (map f (remdups xs)) \<Longrightarrow> inj_on f (set xs)"
  by (simp add: distinct_map)

lemma demo_no_collision:
  "inj_on (dsha demo_env) (da_preimages demo_env [demo_coinbase, demo_chunk_tx, demo_plain_tx] demo_incl [demo_chunk_tx])"
proof -
  let ?txs = "[demo_coinbase, demo_chunk_tx, demo_plain_tx]"
  let ?xs = "tree_preimages demo_sha (map (calculate_txid demo_env) ?txs)
    @ proof_preimages demo_sha (calculate_txid demo_env demo_coinbase) 0 [129 # zeros 31, 170 # zeros 31]
    @ [txid_preimage demo_env demo_coinbase] @ tree_preimages demo_sha [zeros 32, 49 # zeros 31, 74 # zeros 31]
    @ [(209 # zeros 31) @ zeros 32] @ map demo_tx ?txs"
  have root: "merkle_root_of demo_sha [zeros 32, 49 # zeros 31, 74 # zeros 31] = Some (209 # zeros 31)"
    by code_simp
  have "da_preimages demo_env ?txs demo_incl [demo_chunk_tx] = set ?xs"
    using root
    by (simp add: da_preimages_def Let_def demo_wtxids demo_incl_def commitment_preimages_def demo_env_sel demo_coinbase_input) blast
  moreover have "distinct (map (dsha demo_env) (remdups ?xs))"
    by code_simp
  ultimately show ?thesis
    using inj_on_distinct by metis
qed

theorem honest_extraction_accepted_witness:
  "verify_transactions demo_env demo_scripts [49] (bb_header demo_block) demo_incl [demo_chunk_tx] = Some (Ok [demo_blob])"
  using honest_extraction_accepted [OF demo_block_of _ _ _ _ demo_extraction] demo_segwit
  by (simp add: demo_block_def demo_scripts_def)


theorem zero_prefix_extraction_refused_witness:
  "\<exists>blobs incl compl. extract_relevant_blobs_with_proof demo_env demo_scripts (calculate_txid demo_env) (calculate_wtxid demo_env) [0] demo_block
       = Some (blobs, incl, compl)
     \<and> verify_transactions demo_env demo_scripts [0] (bb_header demo_block) incl compl = Some (Err RelevantTxNotInProof)"
proof -
  have *: "extract_relevant_blobs_with_proof demo_env demo_scripts (calculate_txid demo_env) (calculate_wtxid demo_env) [0] demo_block
      = Some ([], demo_incl, [demo_coinbase])"
    by code_simp
  show ?thesis
    using zero_prefix_extraction_refused [OF *] * demo_wtxids(3) by (simp add: demo_block_def HeaderWrapper_new_def)
qed

theorem accepted_blobs_complete_witness:
  "[demo_chunk_tx] = filter (\<lambda>tx. starts_with (calculate_wtxid demo_env tx) [49]) [demo_chunk_tx, demo_plain_tx]
    \<and> relevant_blobs demo_scripts (calculate_wtxid demo_env) [demo_chunk_tx] = Some [demo_blob]"
proof (rule accepted_blobs_complete [OF demo_accepted _ demo_segwit _ _ _ _ demo_sha_32 demo_encoding demo_no_collision])
  show "merkle_root_of (env_sha256 demo_env) (map (calculate_txid demo_env) [demo_coinbase, demo_chunk_tx, demo_plain_tx])
    = Some (hw_merkle_root (bb_header demo_block))"
    by code_simp
  show "commitment_idx demo_coinbase = Some 0"
    by code_simp
  show "unat (hw_tx_count (bb_header demo_block)) = length [demo_coinbase, demo_chunk_tx, demo_plain_tx]"
    "length (ip_coinbase_merkle_proof demo_incl) = tree_depth (length [demo_coinbase, demo_chunk_tx, demo_plain_tx])"
    by code_simp+
  show "\<forall>s \<in> set (ip_coinbase_merkle_proof demo_incl) \<union> set (ip_wtxids demo_incl). length s = 32"
    by (simp add: demo_incl_def zeros_def)
qed simp

end
