(* ===== verification/Da_Data.thy ===== *)
theory Da_Data
  imports L2_Block Inscription
begin

section \<open>The data written to Bitcoin\<close>

text \<open>
  Models the types of \<^verbatim>\<open>sovereign-sdk/rollup-interface/src/state_machine/da.rs\<close> that are inscribed, the compression of
  \<^verbatim>\<open>primitives/src/compression.rs\<close> and the splitting of a proof over transactions in \<^verbatim>\<open>bitcoin-da/src/service.rs\<close>. The borsh
  codec of the derived implementations and the brotli coder are parameters: \<^verbatim>\<open>da_codec\<close>.
\<close>

type_synonym method_id = "u32 list"

record batch_proof_method_id_body =
  mb_method_id :: method_id
  mb_activation_l2_height :: u64
  mb_chain_id :: u64

record batch_proof_method_id =
  mi_body :: batch_proof_method_id_body
  mi_signatures_with_index :: "(bytes \<times> u8) list"

datatype data_on_da =
    DaComplete bytes
  | DaAggregate "hash32 list" "hash32 list"
  | DaChunk bytes
  | DaBatchProofMethodId batch_proof_method_id
  | DaSequencerCommitment sequencer_commitment

datatype da_tx_request =
    RequestSequencerCommitment sequencer_commitment
  | RequestZKProof bytes
  | RequestBatchProofMethodId batch_proof_method_id

text \<open>What a read of the decompressor may answer: bytes, none at the end, an interruption or another error.\<close>

datatype read_event = ReadOk bytes | ReadInterrupted | ReadError

record da_codec =
  enc_data :: "data_on_da \<Rightarrow> bytes"
  dec_data :: "bytes \<Rightarrow> data_on_da option"
  brotli_write_all :: "bytes \<Rightarrow> bytes option"
  brotli_reads :: "bytes \<Rightarrow> read_event list"

definition MAX_TX_BODY_SIZE :: nat where "MAX_TX_BODY_SIZE = 397000"
definition MAX_DECOMPRESSED_BLOB_SIZE :: nat where "MAX_DECOMPRESSED_BLOB_SIZE = 1024 * 1024 * 100"
definition MAX_COMPRESSED_BLOB_SIZE :: nat where "MAX_COMPRESSED_BLOB_SIZE = MAX_DECOMPRESSED_BLOB_SIZE"

subsection \<open>Compression\<close>

definition compress_blob :: "da_codec \<Rightarrow> bytes \<Rightarrow> bytes option" where
  "compress_blob D blob = brotli_write_all D blob"

text \<open>The loop over the reads of the decompressor. A reader whose events are used up is at its end and answers no bytes.\<close>

datatype decompress_error = DecompressionFailure | TooLarge

fun decompress_loop :: "read_event list \<Rightarrow> bytes \<Rightarrow> decompress_error + bytes" where
  "decompress_loop [] acc = Ok acc"
| "decompress_loop (ReadInterrupted # es) acc = decompress_loop es acc"
| "decompress_loop (ReadError # es) acc = Err DecompressionFailure"
| "decompress_loop (ReadOk b # es) acc =
     (if length b + length acc > MAX_DECOMPRESSED_BLOB_SIZE then Err TooLarge
      else if b = [] then Ok acc
      else decompress_loop es (acc @ b))"

definition decompress_blob :: "da_codec \<Rightarrow> bytes \<Rightarrow> decompress_error + bytes" where
  "decompress_blob D blob = decompress_loop (brotli_reads D blob) []"

subsection \<open>Requests\<close>

datatype service_error = CompressionError

definition split_proof :: "da_codec \<Rightarrow> bytes \<Rightarrow> service_error + raw_tx_data" where
  "split_proof D zk_proof =
     (case compress_blob D zk_proof of
        None \<Rightarrow> Err CompressionError
      | Some compressed \<Rightarrow>
          if length compressed < MAX_TX_BODY_SIZE then Ok (RawComplete (enc_data D (DaComplete compressed)))
          else Ok (RawChunks (map (\<lambda>c. enc_data D (DaChunk c)) (chunks MAX_TX_BODY_SIZE compressed))))"

text \<open>The first step of \<^verbatim>\<open>create_da_transactions_with_fee_rate\<close>.\<close>

fun request_data :: "da_codec \<Rightarrow> da_tx_request \<Rightarrow> service_error + raw_tx_data" where
  "request_data D (RequestZKProof p) = split_proof D p"
| "request_data D (RequestSequencerCommitment c) = Ok (RawSequencerCommitment (enc_data D (DaSequencerCommitment c)))"
| "request_data D (RequestBatchProofMethodId m) = Ok (RawBatchProofMethodId (enc_data D (DaBatchProofMethodId m)))"

subsection \<open>Reading back\<close>

text \<open>
  What is relied on of the coders: decoding inverts encoding, and the decompressor of a compressed blob delivers the blob in
  pieces, interrupted at most, and then its end.
\<close>

definition da_codec_laws :: "da_codec \<Rightarrow> bool" where
  "da_codec_laws D \<longleftrightarrow> (\<forall>d. dec_data D (enc_data D d) = Some d)"

definition read_pieces :: "read_event list \<Rightarrow> bytes list" where
  "read_pieces es = List.map_filter (\<lambda>e. case e of ReadOk b \<Rightarrow> Some b | _ \<Rightarrow> None) es"

definition brotli_laws :: "da_codec \<Rightarrow> bool" where
  "brotli_laws D \<longleftrightarrow> (\<forall>x c. brotli_write_all D x = Some c \<longrightarrow>
     ReadError \<notin> set (brotli_reads D c) \<and> ReadOk [] \<notin> set (brotli_reads D c) \<and> concat (read_pieces (brotli_reads D c)) = x)"

lemma read_pieces_simps [simp]:
  "read_pieces [] = []" "read_pieces (ReadInterrupted # es) = read_pieces es" "read_pieces (ReadError # es) = read_pieces es"
  "read_pieces (ReadOk b # es) = b # read_pieces es"
  by (simp_all add: read_pieces_def List.map_filter_simps)

lemma decompress_loop_plain:
  assumes "ReadError \<notin> set es" "ReadOk [] \<notin> set es" "length acc \<le> MAX_DECOMPRESSED_BLOB_SIZE"
  shows "decompress_loop es acc =
    (if length acc + length (concat (read_pieces es)) \<le> MAX_DECOMPRESSED_BLOB_SIZE
     then Ok (acc @ concat (read_pieces es)) else Err TooLarge)"
  using assms by (induction es acc rule: decompress_loop.induct) auto

lemma decompress_compressed:
  assumes "brotli_laws D" "compress_blob D x = Some c"
  shows "decompress_blob D c = (if length x \<le> MAX_DECOMPRESSED_BLOB_SIZE then Ok x else Err TooLarge)"
  using assms decompress_loop_plain [of "brotli_reads D c" "[]"]
  by (simp add: brotli_laws_def compress_blob_def decompress_blob_def)

lemma decompress_loop_bound:
  "decompress_loop es acc = Ok x \<Longrightarrow> length acc \<le> MAX_DECOMPRESSED_BLOB_SIZE \<Longrightarrow> length x \<le> MAX_DECOMPRESSED_BLOB_SIZE"
  by (induction es acc rule: decompress_loop.induct) (auto split: if_splits)

end
