(* ===== verification/Light_Client.thy ===== *)
theory Light_Client
  imports Stf_Blueprint Da_Verifier Da_Data
begin

section \<open>The light client circuit\<close>

text \<open>
  Models \<^verbatim>\<open>light-client-prover/src/circuit\<close>: the accessors of the light client's own Merkle tree, the security council check, the
  processing of a batch proof and of an L1 block, and the circuit around them for the Bitcoin verifier. Code on the working set is
  a program of \<^verbatim>\<open>State_Programs\<close> that answers \<^const>\<open>None\<close> where the code panics. The zkVM, the codecs and the signature functions of
  other crates are the record \<^verbatim>\<open>lc_env\<close>.
\<close>

subsection \<open>The output of a batch proof\<close>

record batch_proof_circuit_output_v3 =
  v3_state_roots :: "hash32 list"
  v3_final_l2_block_hash :: hash32
  v3_state_diff :: "(bytes, bytes option) bmap"
  v3_last_l2_height :: u64
  v3_sequencer_commitment_hashes :: "hash32 list"
  v3_sequencer_commitment_index_range :: "u32 \<times> u32"
  v3_last_l1_hash_on_bitcoin_light_client_contract :: hash32
  v3_previous_commitment_index :: "u32 option"
  v3_previous_commitment_hash :: "hash32 option"

datatype batch_proof_circuit_output = OutputV3 batch_proof_circuit_output_v3

fun output_state_roots :: "batch_proof_circuit_output \<Rightarrow> hash32 list" where
  "output_state_roots (OutputV3 o3) = v3_state_roots o3"

fun output_initial_state_root :: "batch_proof_circuit_output \<Rightarrow> hash32 option" where
  "output_initial_state_root (OutputV3 o3) = index (v3_state_roots o3) 0"

fun output_final_state_root :: "batch_proof_circuit_output \<Rightarrow> hash32 option" where
  "output_final_state_root (OutputV3 o3) = (if v3_state_roots o3 = [] then None else Some (last (v3_state_roots o3)))"

fun sequencer_commitment_hashes :: "batch_proof_circuit_output \<Rightarrow> hash32 list" where
  "sequencer_commitment_hashes (OutputV3 o3) = v3_sequencer_commitment_hashes o3"

fun sequencer_commitment_index_range :: "batch_proof_circuit_output \<Rightarrow> u32 \<times> u32" where
  "sequencer_commitment_index_range (OutputV3 o3) = v3_sequencer_commitment_index_range o3"

fun last_l1_hash_on_bitcoin_light_client_contract :: "batch_proof_circuit_output \<Rightarrow> hash32" where
  "last_l1_hash_on_bitcoin_light_client_contract (OutputV3 o3) = v3_last_l1_hash_on_bitcoin_light_client_contract o3"

fun output_last_l2_height :: "batch_proof_circuit_output \<Rightarrow> u64" where
  "output_last_l2_height (OutputV3 o3) = v3_last_l2_height o3"

fun previous_commitment_index :: "batch_proof_circuit_output \<Rightarrow> u32 option" where
  "previous_commitment_index (OutputV3 o3) = v3_previous_commitment_index o3"

fun previous_commitment_hash :: "batch_proof_circuit_output \<Rightarrow> hash32 option" where
  "previous_commitment_hash (OutputV3 o3) = v3_previous_commitment_hash o3"

text \<open>The end of \<^verbatim>\<open>run_sequencer_commitments_in_da_slot\<close>: the public output for what the blocks left.\<close>

definition batch_proof_output :: "apply_sequencer_commitments_output \<Rightarrow> hash32 \<Rightarrow> batch_proof_circuit_output" where
  "batch_proof_output out last_l1_hash = OutputV3
     \<lparr> v3_state_roots = aso_state_roots out, v3_final_l2_block_hash = aso_final_l2_block_hash out,
       v3_state_diff = aso_state_diff out, v3_last_l2_height = aso_last_l2_height out,
       v3_sequencer_commitment_hashes = aso_sequencer_commitment_hashes out,
       v3_sequencer_commitment_index_range = aso_sequencer_commitment_index_range out,
       v3_last_l1_hash_on_bitcoin_light_client_contract = last_l1_hash,
       v3_previous_commitment_index = aso_previous_commitment_index out,
       v3_previous_commitment_hash = aso_previous_commitment_hash out \<rparr>"

subsection \<open>The state of the light client\<close>

record verified_state_transition =
  vt_initial_state_root :: hash32
  vt_final_state_root :: hash32
  vt_last_l2_height :: u64

type_synonym batch_proof_method_ids = "(u64 \<times> method_id) list"

record light_client_circuit_output =
  lo_l2_state_root :: hash32
  lo_lcp_state_root :: hash32
  lo_light_client_proof_method_id :: method_id
  lo_latest_da_state :: latest_da_state
  lo_last_l2_height :: u64
  lo_last_sequencer_commitment_index :: u32

record lc_env =
  lc_l2 :: l2_env
  lc_codec :: da_codec
  lc_extract_raw_output :: "bytes \<Rightarrow> bytes option"
  lc_deserialize_output :: "bytes \<Rightarrow> batch_proof_circuit_output option"
  lc_verify :: "bytes \<Rightarrow> method_id \<Rightarrow> bool \<Rightarrow> bool"
  lc_verify_and_deserialize_output :: "bytes \<Rightarrow> method_id \<Rightarrow> bool \<Rightarrow> light_client_circuit_output option"
  dec_commitment :: "bytes \<Rightarrow> sequencer_commitment option"
  enc_transition :: "verified_state_transition \<Rightarrow> bytes"
  dec_transition :: "bytes \<Rightarrow> verified_state_transition option"
  enc_method_ids :: "batch_proof_method_ids \<Rightarrow> bytes"
  dec_method_ids :: "bytes \<Rightarrow> batch_proof_method_ids option"
  serialize_method_id_body :: "batch_proof_method_id_body \<Rightarrow> bytes"
  eip191_hash_message :: "bytes \<Rightarrow> hash32"
  verifying_key_from_sec1 :: "bytes \<Rightarrow> bool"
  ecdsa_signature_from_bytes :: "bytes \<Rightarrow> bool"
  verify_prehash :: "bytes \<Rightarrow> hash32 \<Rightarrow> bytes \<Rightarrow> bool"

text \<open>Programs of the circuit; \<^const>\<open>None\<close> is a panic.\<close>

type_synonym 'a lc_prog = "'a option state_prog"

definition lc_return :: "'a \<Rightarrow> 'a lc_prog" where
  "lc_return a = Return (Some a)"

definition lc_panic :: "'a lc_prog" where
  "lc_panic = Return None"

definition lc_bind :: "'a lc_prog \<Rightarrow> ('a \<Rightarrow> 'b lc_prog) \<Rightarrow> 'b lc_prog" where
  "lc_bind p f = prog_bind p (\<lambda>r. case r of None \<Rightarrow> Return None | Some a \<Rightarrow> f a)"

definition lc_read :: "storage_key \<Rightarrow> storage_value option lc_prog" where
  "lc_read k = GetState k (\<lambda>v. Return (Some v))"

definition lc_write :: "storage_key \<Rightarrow> storage_value \<Rightarrow> unit lc_prog" where
  "lc_write k v = SetState k v (Return (Some ()))"

text \<open>A value that must decode: \<^verbatim>\<open>expect\<close> of its deserialization.\<close>

definition lc_decode :: "(bytes \<Rightarrow> 'a option) \<Rightarrow> storage_value option \<Rightarrow> 'a option lc_prog" where
  "lc_decode dec v = (case v of None \<Rightarrow> lc_return None
     | Some b \<Rightarrow> (case dec b of None \<Rightarrow> lc_panic | Some a \<Rightarrow> lc_return (Some a)))"

subsection \<open>The accessors\<close>

definition block_hash_key :: "hash32 \<Rightarrow> storage_key" where
  "block_hash_key h = storage_key_singleton (0x62 # h)"

definition BlockHash_exists :: "hash32 \<Rightarrow> bool lc_prog" where
  "BlockHash_exists h = lc_bind (lc_read (block_hash_key h)) (\<lambda>v. lc_return (v \<noteq> None))"

definition BlockHash_insert :: "hash32 \<Rightarrow> unit lc_prog" where
  "BlockHash_insert h = lc_write (block_hash_key h) []"

definition chunk_key :: "hash32 \<Rightarrow> storage_key" where
  "chunk_key w = storage_key_singleton (0x63 # w)"

definition Chunk_get :: "hash32 \<Rightarrow> bytes option lc_prog" where
  "Chunk_get w = lc_read (chunk_key w)"

definition Chunk_insert :: "hash32 \<Rightarrow> bytes \<Rightarrow> unit lc_prog" where
  "Chunk_insert w body = lc_write (chunk_key w) body"

definition commitment_key :: "u32 \<Rightarrow> storage_key" where
  "commitment_key i = storage_key_singleton (0x73 # be_bytes 4 i)"

definition Commitment_get :: "lc_env \<Rightarrow> u32 \<Rightarrow> sequencer_commitment option lc_prog" where
  "Commitment_get C i = lc_bind (lc_read (commitment_key i)) (lc_decode (dec_commitment C))"

definition Commitment_insert :: "lc_env \<Rightarrow> u32 \<Rightarrow> sequencer_commitment \<Rightarrow> unit lc_prog" where
  "Commitment_insert C i c = lc_write (commitment_key i) (borsh_commitment (lc_l2 C) c)"

definition transition_key :: "u32 \<Rightarrow> storage_key" where
  "transition_key i = storage_key_singleton (0x75 # be_bytes 4 i)"

definition Transition_get :: "lc_env \<Rightarrow> u32 \<Rightarrow> verified_state_transition option lc_prog" where
  "Transition_get C i = lc_bind (lc_read (transition_key i)) (lc_decode (dec_transition C))"

definition Transition_insert :: "lc_env \<Rightarrow> u32 \<Rightarrow> verified_state_transition \<Rightarrow> unit lc_prog" where
  "Transition_insert C i v = lc_write (transition_key i) (enc_transition C v)"

definition method_ids_key :: storage_key where
  "method_ids_key = storage_key_singleton [0x6d]"

definition MethodIds_get :: "lc_env \<Rightarrow> batch_proof_method_ids option lc_prog" where
  "MethodIds_get C = lc_bind (lc_read method_ids_key) (lc_decode (dec_method_ids C))"

definition unwrap_or_default :: "'a list option \<Rightarrow> 'a list" where
  "unwrap_or_default x = (case x of None \<Rightarrow> [] | Some xs \<Rightarrow> xs)"

definition MethodIds_insert :: "lc_env \<Rightarrow> u64 \<Rightarrow> method_id \<Rightarrow> unit lc_prog" where
  "MethodIds_insert C activation_l2_height mid = lc_bind (MethodIds_get C) (\<lambda>ids.
     lc_write method_ids_key (enc_method_ids C (unwrap_or_default ids @ [(activation_l2_height, mid)])))"

definition MethodIds_initialize :: "lc_env \<Rightarrow> batch_proof_method_ids \<Rightarrow> unit lc_prog" where
  "MethodIds_initialize C initial = lc_bind (MethodIds_get C) (\<lambda>ids.
     if unwrap_or_default ids = [] then lc_write method_ids_key (enc_method_ids C initial) else lc_panic)"

subsection \<open>The security council\<close>

definition SECURITY_COUNCIL_SIGNATURE_THRESHOLD :: nat where "SECURITY_COUNCIL_SIGNATURE_THRESHOLD = 3"
definition SECURITY_COUNCIL_MEMBER_COUNT :: nat where "SECURITY_COUNCIL_MEMBER_COUNT = 5"

fun ascending :: "u8 list \<Rightarrow> bool" where
  "ascending (x # y # r) = (if x \<ge> y then False else ascending (y # r))"
| "ascending _ = True"

fun verify_council_signatures :: "lc_env \<Rightarrow> bytes list \<Rightarrow> hash32 \<Rightarrow> (bytes \<times> u8) list \<Rightarrow> bool option" where
  "verify_council_signatures C keys prehash [] = Some True"
| "verify_council_signatures C keys prehash ((signature, pubkey_idx) # rest) = do {
     const_pubkey \<leftarrow> index keys (unat pubkey_idx);
     assert_that (verifying_key_from_sec1 C const_pubkey);
     if \<not> ecdsa_signature_from_bytes C signature then Some False
     else if \<not> verify_prehash C const_pubkey prehash signature then Some False
     else verify_council_signatures C keys prehash rest
   }"

definition verify_method_id_security_council :: "lc_env \<Rightarrow> bytes list \<Rightarrow> bytes \<Rightarrow> (bytes \<times> u8) list \<Rightarrow> bool option" where
  "verify_method_id_security_council C initial_da_pubkeys msg signatures_with_idx =
     (let prehash = eip191_hash_message C msg in
      if \<not> list_all (\<lambda>(_, i). i < 5) signatures_with_idx then Some False
      else if \<not> ascending (map snd signatures_with_idx) then Some False
      else verify_council_signatures C initial_da_pubkeys prehash signatures_with_idx)"

subsection \<open>Processing a batch proof\<close>

text \<open>The range \<open>first..=last\<close>.\<close>

definition u32_range :: "u32 \<Rightarrow> u32 \<Rightarrow> u32 list" where
  "u32_range a b = map of_nat [unat a..<Suc (unat b)]"

text \<open>The loop over the commitments of a proof: \<open>i\<close> counts the turns.\<close>

fun check_commitments :: "lc_env \<Rightarrow> batch_proof_circuit_output \<Rightarrow> nat \<Rightarrow> (u32 \<times> hash32) list \<Rightarrow> bool lc_prog" where
  "check_commitments C out i [] = lc_return True"
| "check_commitments C out i ((idx, hash) # rest) = lc_bind (Commitment_get C idx) (\<lambda>r.
     case r of
       None \<Rightarrow> lc_return False
     | Some jmt_commitment \<Rightarrow>
         if of_nat i = snd (sequencer_commitment_index_range out) - fst (sequencer_commitment_index_range out)
            \<and> sc_l2_end_block_number jmt_commitment \<noteq> output_last_l2_height out then lc_return False
         else if serialize_and_calculate_sha_256 (lc_l2 C) jmt_commitment \<noteq> hash then lc_return False
         else check_commitments C out (i + 1) rest)"

text \<open>The \<^verbatim>\<open>match\<close> on the previous commitment.\<close>

definition check_previous_commitment :: "lc_env \<Rightarrow> batch_proof_circuit_output \<Rightarrow> bool lc_prog" where
  "check_previous_commitment C out =
     (case (previous_commitment_index out, previous_commitment_hash out) of
        (Some idx, Some hash) \<Rightarrow> lc_bind (Commitment_get C idx) (\<lambda>r. lc_return
          (case r of None \<Rightarrow> False | Some c \<Rightarrow> serialize_and_calculate_sha_256 (lc_l2 C) c = hash))
      | _ \<Rightarrow> lc_return (fst (sequencer_commitment_index_range out) = 1))"

definition verify_batch_proof_seq_comm_relation :: "lc_env \<Rightarrow> batch_proof_circuit_output \<Rightarrow> bool lc_prog" where
  "verify_batch_proof_seq_comm_relation C out = lc_bind (check_previous_commitment C out) (\<lambda>ok.
     if \<not> ok then lc_return False
     else let (first_index, last_index) = sequencer_commitment_index_range out;
              hashes = sequencer_commitment_hashes out
          in if unat (last_index - first_index + 1) \<noteq> length hashes then lc_return False
             else check_commitments C out 0 (zip (u32_range first_index last_index) hashes))"

text \<open>The method id of the last activation height not above the given one.\<close>

definition active_method_id :: "batch_proof_method_ids \<Rightarrow> u64 \<Rightarrow> method_id option" where
  "active_method_id ids height =
     (if length ids = 1 then map_option snd (index ids 0)
      else map_option snd (index ids (last_le_pos (binary_search (map fst ids) height))))"

text \<open>The loop that stores the transitions; \<open>idx\<close> counts the turns.\<close>

fun insert_transitions :: "lc_env \<Rightarrow> hash32 list \<Rightarrow> u32 \<Rightarrow> nat \<Rightarrow> u32 list \<Rightarrow> unit lc_prog" where
  "insert_transitions C roots last_index idx [] = lc_return ()"
| "insert_transitions C roots last_index idx (i # is) =
     (if i \<le> last_index then insert_transitions C roots last_index (idx + 1) is
      else lc_bind (Transition_get C i) (\<lambda>known.
        if known \<noteq> None then insert_transitions C roots last_index (idx + 1) is
        else lc_bind (Commitment_get C i) (\<lambda>r.
          case (r, index roots idx, index roots (idx + 1)) of
            (Some c, Some initial, Some final) \<Rightarrow>
              lc_bind (Transition_insert C i \<lparr> vt_initial_state_root = initial, vt_final_state_root = final,
                  vt_last_l2_height = sc_l2_end_block_number c \<rparr>)
                (\<lambda>_. insert_transitions C roots last_index (idx + 1) is)
          | _ \<Rightarrow> lc_panic)))"

type_synonym circuit_error = string

definition process_complete_proof ::
  "lc_env \<Rightarrow> network \<Rightarrow> bytes \<Rightarrow> u64 \<Rightarrow> u32 \<Rightarrow> (circuit_error + unit) lc_prog" where
  "process_complete_proof C network zkp last_l2_height last_index =
     (case lc_extract_raw_output C zkp of
        None \<Rightarrow> lc_return (Err ''Failed to extract output from proof'')
      | Some journal \<Rightarrow> (case lc_deserialize_output C journal of
          None \<Rightarrow> lc_return (Err ''Failed to deserialize output'')
        | Some out \<Rightarrow> lc_bind (BlockHash_exists (last_l1_hash_on_bitcoin_light_client_contract out)) (\<lambda>known.
            if \<not> known then lc_return (Err ''Batch proof with unknown header chain'')
            else if output_last_l2_height out \<le> last_l2_height \<and> last_l2_height \<noteq> 0
            then lc_return (Err ''Last L2 height is less than proof's last l2 height'')
            else lc_bind (MethodIds_get C) (\<lambda>ids.
              case Option.bind ids (\<lambda>ids. active_method_id ids (output_last_l2_height out)) of
                None \<Rightarrow> lc_panic
              | Some mid \<Rightarrow>
                  if \<not> lc_verify C zkp mid (network_to_dev_mode network) then lc_return (Err ''Failed to verify proof'')
                  else lc_bind (verify_batch_proof_seq_comm_relation C out) (\<lambda>ok.
                    if \<not> ok then lc_return (Err ''Failed to verify sequencer commitment relation'')
                    else if snd (sequencer_commitment_index_range out) \<le> last_index
                    then lc_return (Err ''Last commitment index is less than or equal to previous output'')
                    else lc_bind (insert_transitions C (output_state_roots out) last_index 0
                        (u32_range (fst (sequencer_commitment_index_range out)) (snd (sequencer_commitment_index_range out))))
                      (\<lambda>_. lc_return (Ok ())))))))"

subsection \<open>Processing a block\<close>

text \<open>The values compiled into the circuit for a network.\<close>

record lc_params =
  lp_network :: network
  lp_l2_genesis_root :: hash32
  lp_initial_batch_proof_method_ids :: batch_proof_method_ids
  lp_batch_prover_da_public_key :: bytes
  lp_sequencer_da_public_key :: bytes
  lp_method_id_upgrade_authority_da_public_keys :: "bytes list"

definition LCP_JMT_GENESIS_ROOT :: hash32 where
  "LCP_JMT_GENESIS_ROOT =
     [0x53, 0x50, 0x41, 0x52, 0x53, 0x45, 0x5f, 0x4d, 0x45, 0x52, 0x4b, 0x4c, 0x45, 0x5f, 0x50, 0x4c,
      0x41, 0x43, 0x45, 0x48, 0x4f, 0x4c, 0x44, 0x45, 0x52, 0x5f, 0x48, 0x41, 0x53, 0x48, 0x5f, 0x5f]"

fun citrea_network_to_chain_id :: "network \<Rightarrow> u64" where
  "citrea_network_to_chain_id Mainnet = 1"
| "citrea_network_to_chain_id Testnet = 5115"
| "citrea_network_to_chain_id Devnet = 62298"
| "citrea_network_to_chain_id Nightly = 5665"
| "citrea_network_to_chain_id TestNetworkWithForks = 5665"

definition decompress_chunks :: "lc_env \<Rightarrow> bytes \<Rightarrow> bytes option" where
  "decompress_chunks C blob = (case decompress_blob (lc_codec C) blob of Inl _ \<Rightarrow> None | Inr p \<Rightarrow> Some p)"

text \<open>The chunks of an aggregate, put together; \<^const>\<open>None\<close> where the blob is skipped.\<close>

fun collect_chunks :: "bytes \<Rightarrow> hash32 list \<Rightarrow> bytes option lc_prog" where
  "collect_chunks complete_proof [] = lc_return (Some complete_proof)"
| "collect_chunks complete_proof (wtxid # wtxids) = lc_bind (Chunk_get wtxid) (\<lambda>r.
     case r of
       None \<Rightarrow> lc_return None
     | Some chunk \<Rightarrow>
         if length chunk + length complete_proof > MAX_COMPRESSED_BLOB_SIZE then lc_return None
         else collect_chunks (complete_proof @ chunk) wtxids)"

text \<open>A compressed proof: skipped where it does not decompress, and an error of its processing is only logged.\<close>

definition process_compressed_proof :: "lc_env \<Rightarrow> lc_params \<Rightarrow> u64 \<Rightarrow> u32 \<Rightarrow> bytes \<Rightarrow> unit lc_prog" where
  "process_compressed_proof C P last_l2_height last_index body =
     (case decompress_chunks C body of
        None \<Rightarrow> lc_return ()
      | Some zkp \<Rightarrow> lc_bind (process_complete_proof C (lp_network P) zkp last_l2_height last_index) (\<lambda>_. lc_return ()))"

definition process_method_id :: "lc_env \<Rightarrow> lc_params \<Rightarrow> batch_proof_method_id \<Rightarrow> unit lc_prog" where
  "process_method_id C P m = lc_bind (MethodIds_get C) (\<lambda>r.
     case r of
       None \<Rightarrow> lc_panic
     | Some ids \<Rightarrow>
         if ids = [] then lc_panic
         else if mb_activation_l2_height (mi_body m) \<le> fst (last ids) then lc_return ()
         else if citrea_network_to_chain_id (lp_network P) \<noteq> mb_chain_id (mi_body m) then lc_return ()
         else (case verify_method_id_security_council C (lp_method_id_upgrade_authority_da_public_keys P)
                      (serialize_method_id_body C (mi_body m)) (mi_signatures_with_index m) of
                 None \<Rightarrow> lc_panic
               | Some ok \<Rightarrow>
                   if \<not> ok then lc_return ()
                   else MethodIds_insert C (mb_activation_l2_height (mi_body m)) (mb_method_id (mi_body m))))"

fun process_data :: "lc_env \<Rightarrow> lc_params \<Rightarrow> u64 \<Rightarrow> u32 \<Rightarrow> blob_with_sender \<Rightarrow> data_on_da \<Rightarrow> unit lc_prog" where
  "process_data C P last_l2_height last_index blob (DaChunk chunk) = Chunk_insert (bw_wtxid blob) chunk"
| "process_data C P last_l2_height last_index blob (DaComplete zkp) =
     (if bw_sender blob \<noteq> lp_batch_prover_da_public_key P then lc_return ()
      else process_compressed_proof C P last_l2_height last_index zkp)"
| "process_data C P last_l2_height last_index blob (DaAggregate _ wtxids) =
     (if bw_sender blob \<noteq> lp_batch_prover_da_public_key P then lc_return ()
      else lc_bind (collect_chunks [] wtxids) (\<lambda>r. case r of
        None \<Rightarrow> lc_return ()
      | Some complete_proof \<Rightarrow> process_compressed_proof C P last_l2_height last_index complete_proof))"
| "process_data C P last_l2_height last_index blob (DaBatchProofMethodId m) = process_method_id C P m"
| "process_data C P last_l2_height last_index blob (DaSequencerCommitment c) =
     (if bw_sender blob \<noteq> lp_sequencer_da_public_key P then lc_return ()
      else lc_bind (Commitment_get C (sc_index c)) (\<lambda>known.
        if known = None then Commitment_insert C (sc_index c) c else lc_return ()))"

fun process_blobs :: "lc_env \<Rightarrow> lc_params \<Rightarrow> u64 \<Rightarrow> u32 \<Rightarrow> blob_with_sender list \<Rightarrow> unit lc_prog" where
  "process_blobs C P last_l2_height last_index [] = lc_return ()"
| "process_blobs C P last_l2_height last_index (blob # blobs) = lc_bind
     (case dec_data (lc_codec C) (bw_blob blob) of
        None \<Rightarrow> lc_return ()
      | Some data \<Rightarrow> process_data C P last_l2_height last_index blob data)
     (\<lambda>_. process_blobs C P last_l2_height last_index blobs)"

text \<open>
  The loop that follows the stored transitions. There are \<open>2 ^ 32\<close> indices: a loop that has made that many turns has found a
  transition at every index, and can only go on or panic, so \<open>n\<close> turns with \<open>n = 2 ^ 32\<close> are all that may end.
\<close>

function chain_transitions :: "nat \<Rightarrow> lc_env \<Rightarrow> hash32 \<Rightarrow> u64 \<Rightarrow> u32 \<Rightarrow> (hash32 \<times> u64 \<times> u32) lc_prog" where
  "chain_transitions n C root height idx =
     (if n = 0 then lc_panic
      else lc_bind (Transition_get C (idx + 1)) (\<lambda>r. case r of
        None \<Rightarrow> lc_return (root, height, idx)
      | Some info \<Rightarrow>
          if vt_initial_state_root info = root
          then chain_transitions (n - 1) C (vt_final_state_root info) (vt_last_l2_height info) (idx + 1)
          else lc_panic))"
  by auto
termination
  by (relation "measure (\<lambda>(n, _). n)") auto

declare chain_transitions.simps [simp del]

definition lc_start :: "lc_params \<Rightarrow> light_client_circuit_output option \<Rightarrow> hash32 \<times> u64 \<times> u32" where
  "lc_start P prev = (case prev of
     None \<Rightarrow> (lp_l2_genesis_root P, 0, 0)
   | Some out \<Rightarrow> (lo_l2_state_root out, lo_last_l2_height out, lo_last_sequencer_commitment_index out))"

definition l1_block_prog ::
  "lc_env \<Rightarrow> lc_params \<Rightarrow> blob_with_sender list \<Rightarrow> hash32 \<Rightarrow> light_client_circuit_output option \<Rightarrow> (hash32 \<times> u64 \<times> u32) lc_prog" where
  "l1_block_prog C P da_txs hdr_hash prev =
     lc_bind (BlockHash_insert hdr_hash) (\<lambda>_.
     let (root, height, idx) = lc_start P prev in
     lc_bind (if prev = None then MethodIds_initialize C (lp_initial_batch_proof_method_ids P) else lc_return ()) (\<lambda>_.
     lc_bind (process_blobs C P height idx da_txs) (\<lambda>_.
     chain_transitions (2 ^ 32) C root height idx)))"

record 'c run_l1_block_result =
  rl_l2_state_root :: hash32
  rl_lcp_state_root :: hash32
  rl_last_l2_height :: u64
  rl_witness :: storage_witness
  rl_change_set :: 'c
  rl_last_sequencer_commitment_index :: u32

text \<open>The working set after the program, and the rest of \<^verbatim>\<open>run_l1_block\<close>.\<close>

definition l1_block_run ::
  "lc_env \<Rightarrow> lc_params \<Rightarrow> storage_ops \<Rightarrow> storage_witness \<Rightarrow> blob_with_sender list \<Rightarrow> hash32 \<Rightarrow> light_client_circuit_output option
    \<Rightarrow> ((hash32 \<times> u64 \<times> u32) \<times> read_write_log \<times> storage_witness) option" where
  "l1_block_run C P ops witness da_txs hdr_hash prev = do {
     (r, working_set) \<leftarrow> run_prog (l1_block_prog C P da_txs hdr_hash prev) (ws_with_witness ops witness []);
     x \<leftarrow> r;
     let ((read_write_log, w), _) = cp_freeze (ws_checkpoint working_set);
     Some (x, read_write_log, w)
   }"

definition run_l1_block ::
  "lc_env \<Rightarrow> lc_params \<Rightarrow> ('n, 'c) stf_storage \<Rightarrow> storage_witness \<Rightarrow> blob_with_sender list \<Rightarrow> hash32
    \<Rightarrow> light_client_circuit_output option \<Rightarrow> 'c run_l1_block_result option" where
  "run_l1_block C P S witness da_txs hdr_hash prev = do {
     ((root, height, idx), read_write_log, w) \<leftarrow> l1_block_run C P (ss_ops S) witness da_txs hdr_hash prev;
     u \<leftarrow> ss_compute_state_update S read_write_log w False;
     (case u of
        Inl _ \<Rightarrow> None
      | Inr (transition, jmt_state_update, _, w') \<Rightarrow> do {
          assert_that (init_root transition = (case prev of Some out \<Rightarrow> lo_lcp_state_root out | None \<Rightarrow> LCP_JMT_GENESIS_ROOT));
          Some \<lparr> rl_l2_state_root = root, rl_lcp_state_root = final_root transition, rl_last_l2_height = height,
                 rl_witness = w', rl_change_set = ss_commit S jmt_state_update [] empty_read_write_log,
                 rl_last_sequencer_commitment_index = idx \<rparr>
        })
   }"

subsection \<open>The circuit\<close>

datatype light_client_verification_error =
    DaTxsCouldntBeVerified validation_error
  | HeaderChainVerificationFailed validation_error

record light_client_circuit_input =
  li_previous_light_client_proof :: "bytes option"
  li_light_client_proof_method_id :: method_id
  li_da_block_header :: header_wrapper
  li_inclusion_proof :: inclusion_multi_proof
  li_completeness_proof :: "btc_tx list"
  li_witness :: storage_witness

definition previous_output :: "lc_env \<Rightarrow> lc_params \<Rightarrow> light_client_circuit_input \<Rightarrow> light_client_circuit_output option option" where
  "previous_output C P input = (case li_previous_light_client_proof input of
     None \<Rightarrow> Some None
   | Some zkp \<Rightarrow> do {
       out \<leftarrow> lc_verify_and_deserialize_output C zkp (li_light_client_proof_method_id input) (network_to_dev_mode (lp_network P));
       assert_that (li_light_client_proof_method_id input = lo_light_client_proof_method_id out);
       Some (Some out)
     })"

definition run_circuit ::
  "btc_env \<Rightarrow> script_env \<Rightarrow> bytes \<Rightarrow> lc_env \<Rightarrow> lc_params \<Rightarrow> ('n, 'c) stf_storage \<Rightarrow> light_client_circuit_input
    \<Rightarrow> (light_client_verification_error + light_client_circuit_output) option" where
  "run_circuit E S reveal_tx_prefix C P storage input = do {
     prev \<leftarrow> previous_output C P input;
     d \<leftarrow> verify_header_chain E (map_option lo_latest_da_state prev) (li_da_block_header input) (lp_network P);
     (case d of
        Inl e \<Rightarrow> Some (Err (HeaderChainVerificationFailed e))
      | Inr new_da_state \<Rightarrow> do {
          t \<leftarrow> verify_transactions E S reveal_tx_prefix (li_da_block_header input) (li_inclusion_proof input) (li_completeness_proof input);
          (case t of
             Inl e \<Rightarrow> Some (Err (DaTxsCouldntBeVerified e))
           | Inr da_txs \<Rightarrow> do {
               result \<leftarrow> run_l1_block C P storage (li_witness input) da_txs (hw_hash (li_da_block_header input)) prev;
               Some (Ok \<lparr> lo_l2_state_root = rl_l2_state_root result, lo_lcp_state_root = rl_lcp_state_root result,
                 lo_light_client_proof_method_id = li_light_client_proof_method_id input, lo_latest_da_state = new_da_state,
                 lo_last_l2_height = rl_last_l2_height result,
                 lo_last_sequencer_commitment_index = rl_last_sequencer_commitment_index result \<rparr>)
             })
        })
   }"

end
