(* ===== verification/Light_Client_State.thy ===== *)
theory Light_Client_State
  imports Light_Client
begin

section \<open>What the light client's programs do\<close>

text \<open>
  The programs of the light client circuit read and write the provable state only. \<open>lc_exec\<close> runs them on a plain function from
  keys to values, and the guest's run, whatever its witness, is such a run on the state of a tree (\<open>l1_block_sound\<close>). The state
  is then read through its accessors: commitments and verified transitions by index, and the list of method ids. The facts of
  this theory say how processing a proof, a blob or a block changes them.
\<close>

subsection \<open>Running a program on a state\<close>

primrec exec_state :: "'a state_prog \<Rightarrow> base_state \<Rightarrow> ('a \<times> base_state) option" where
  "exec_state (Return a) b = Some (a, b)"
| "exec_state (GetState k f) b = exec_state (f (b k)) b"
| "exec_state (SetState k v p) b = exec_state p (b(k := Some v))"
| "exec_state (DeleteState k p) b = exec_state p (b(k := None))"
| "exec_state (GetOffchain k f) b = None"
| "exec_state (SetOffchain k v p) b = exec_state p b"
| "exec_state (DeleteOffchain k p) b = exec_state p b"
| "exec_state (SetAccessory k v p) b = exec_state p b"
| "exec_state (DeleteAccessory k p) b = exec_state p b"
| "exec_state (Checkpoint p) b = exec_state p b"
| "exec_state (Rollback p) b = None"

primrec state_only :: "'a state_prog \<Rightarrow> bool" where
  "state_only (Return a) = True"
| "state_only (GetState k f) = (\<forall>v. state_only (f v))"
| "state_only (SetState k v p) = state_only p"
| "state_only (DeleteState k p) = state_only p"
| "state_only (GetOffchain k f) = False"
| "state_only (SetOffchain k v p) = state_only p"
| "state_only (DeleteOffchain k p) = state_only p"
| "state_only (SetAccessory k v p) = state_only p"
| "state_only (DeleteAccessory k p) = state_only p"
| "state_only (Checkpoint p) = state_only p"
| "state_only (Rollback p) = False"

definition lc_exec :: "'a lc_prog \<Rightarrow> base_state \<Rightarrow> ('a \<times> base_state) option" where
  "lc_exec p b = (case exec_state p b of Some (Some a, b') \<Rightarrow> Some (a, b') | _ \<Rightarrow> None)"

lemma spec_prog_exec:
  "state_only p \<Longrightarrow> spec_prog p os b chk = Some (a, b', chk') \<Longrightarrow> exec_state p b = Some (a, b')"
  by (induction p arbitrary: os b chk) (auto split: if_splits)

lemma exec_state_bind:
  "exec_state (prog_bind p f) b = (case exec_state p b of None \<Rightarrow> None | Some (a, b') \<Rightarrow> exec_state (f a) b')"
  by (induction p arbitrary: b) auto

lemma state_only_bind: "state_only p \<Longrightarrow> (\<And>a. state_only (f a)) \<Longrightarrow> state_only (prog_bind p f)"
  by (induction p) auto

named_theorems lc_simps \<open>running the combinators of the light client\<close>

lemma lc_exec_basic [lc_simps]:
  "lc_exec (lc_return a) b = Some (a, b)" "lc_exec lc_panic b = None"
  "lc_exec (lc_read k) b = Some (b k, b)" "lc_exec (lc_write k v) b = Some ((), b(k := Some v))"
  by (simp_all add: lc_exec_def lc_return_def lc_panic_def lc_read_def lc_write_def)

lemma lc_exec_if [lc_simps]: "lc_exec (if c then p else q) b = (if c then lc_exec p b else lc_exec q b)"
  by simp

lemma lc_exec_bind [lc_simps]:
  "lc_exec (lc_bind p f) b = Option.bind (lc_exec p b) (\<lambda>(a, b'). lc_exec (f a) b')"
  by (auto simp: lc_exec_def lc_bind_def exec_state_bind split: option.splits prod.splits)

lemma state_only_lc [intro, simp]:
  "state_only (lc_return a)" "state_only lc_panic" "state_only (lc_read k)" "state_only (lc_write k v)"
  by (simp_all add: lc_return_def lc_panic_def lc_read_def lc_write_def)

lemma state_only_lc_bind [intro!]: "state_only p \<Longrightarrow> (\<And>a. state_only (f a)) \<Longrightarrow> state_only (lc_bind p f)"
  unfolding lc_bind_def by (rule state_only_bind) (auto split: option.split)

lemma state_only_decode [simp]: "state_only (lc_decode dec v)"
  by (auto simp: lc_decode_def split: option.split)

subsection \<open>The accessors as maps\<close>

definition lc_commitments :: "lc_env \<Rightarrow> base_state \<Rightarrow> u32 \<Rightarrow> sequencer_commitment option" where
  "lc_commitments C b i = Option.bind (b (commitment_key i)) (dec_commitment C)"

definition lc_transitions :: "lc_env \<Rightarrow> base_state \<Rightarrow> u32 \<Rightarrow> verified_state_transition option" where
  "lc_transitions C b i = Option.bind (b (transition_key i)) (dec_transition C)"

definition lc_method_ids :: "lc_env \<Rightarrow> base_state \<Rightarrow> batch_proof_method_ids option" where
  "lc_method_ids C b = Option.bind (b method_ids_key) (dec_method_ids C)"

definition lc_codec_laws :: "lc_env \<Rightarrow> bool" where
  "lc_codec_laws C \<longleftrightarrow> (\<forall>c. dec_commitment C (borsh_commitment (lc_l2 C) c) = Some c)
     \<and> (\<forall>v. dec_transition C (enc_transition C v) = Some v) \<and> (\<forall>ids. dec_method_ids C (enc_method_ids C ids) = Some ids)"

text \<open>
  The contract of an accessor: keys that differ for different indices and a value that decodes to what was written, provided the
  codec is \<open>lawful\<close>.
\<close>

locale accessor =
  fixes key :: "'i \<Rightarrow> storage_key" and enc :: "'v \<Rightarrow> bytes" and dec :: "bytes \<Rightarrow> 'v option" and lawful :: bool
  assumes key_inj: "key i = key j \<Longrightarrow> i = j"
    and decodes: "lawful \<Longrightarrow> dec (enc v) = Some v"
begin

lemma view_insert:
  "lawful \<Longrightarrow> Option.bind ((b(key i := Some (enc v))) (key j)) dec = (if j = i then Some v else Option.bind (b (key j)) dec)"
  using key_inj decodes by auto

lemma exec_insert: "lc_exec (lc_write (key i) (enc v)) b = Some ((), b(key i := Some (enc v)))"
  by (simp add: lc_simps)

lemma exec_get:
  "lc_exec (lc_bind (lc_read (key i)) (lc_decode dec)) b = Some (r, b') \<Longrightarrow> b' = b \<and> r = Option.bind (b (key i)) dec"
  by (auto simp: lc_simps lc_decode_def split: option.splits)

lemma get_inserted:
  "lawful \<Longrightarrow> lc_exec (lc_bind (lc_read (key i)) (lc_decode dec)) (b(key i := Some (enc v))) = Some (Some v, b(key i := Some (enc v)))"
  by (simp add: lc_simps lc_decode_def decodes)

end

lemma storage_key_singleton_eq [simp]: "storage_key_singleton k = k"
  by (simp add: storage_key_singleton_def)

lemmas lc_key_defs = block_hash_key_def chunk_key_def commitment_key_def transition_key_def method_ids_key_def

interpretation comm: accessor commitment_key "borsh_commitment (lc_l2 C)" "dec_commitment C" "lc_codec_laws C" for C
  by unfold_locales (simp_all add: lc_key_defs be_bytes_u32_inj lc_codec_laws_def)

interpretation tran: accessor transition_key "enc_transition C" "dec_transition C" "lc_codec_laws C" for C
  by unfold_locales (simp_all add: lc_key_defs be_bytes_u32_inj lc_codec_laws_def)

interpretation mids: accessor "\<lambda>_ :: unit. method_ids_key" "enc_method_ids C" "dec_method_ids C" "lc_codec_laws C" for C
  by unfold_locales (simp_all add: lc_codec_laws_def)

interpretation chnk: accessor chunk_key "\<lambda>x. x" Some True
  by unfold_locales (simp_all add: lc_key_defs)


lemma lc_keys_differ [simp]:
  "commitment_key i \<noteq> transition_key j" "transition_key j \<noteq> commitment_key i" "commitment_key i \<noteq> method_ids_key"
  "method_ids_key \<noteq> commitment_key i" "transition_key i \<noteq> method_ids_key" "method_ids_key \<noteq> transition_key i"
  "commitment_key i \<noteq> chunk_key w" "transition_key i \<noteq> chunk_key w" "method_ids_key \<noteq> chunk_key w"
  "commitment_key i \<noteq> block_hash_key w" "transition_key i \<noteq> block_hash_key w" "method_ids_key \<noteq> block_hash_key w"
  by (simp_all add: lc_key_defs)

lemma lc_views_insert:
  assumes "lc_codec_laws C"
  shows "lc_commitments C (b(commitment_key i := Some (borsh_commitment (lc_l2 C) c))) = (lc_commitments C b)(i := Some c)"
    "lc_transitions C (b(transition_key i := Some (enc_transition C v))) = (lc_transitions C b)(i := Some v)"
    "lc_method_ids C (b(method_ids_key := Some (enc_method_ids C ids))) = Some ids"
proof -
  show "lc_commitments C (b(commitment_key i := Some (borsh_commitment (lc_l2 C) c))) = (lc_commitments C b)(i := Some c)"
    unfolding lc_commitments_def comm.view_insert [OF assms] by (simp add: fun_eq_iff)
  show "lc_transitions C (b(transition_key i := Some (enc_transition C v))) = (lc_transitions C b)(i := Some v)"
    unfolding lc_transitions_def tran.view_insert [OF assms] by (simp add: fun_eq_iff)
  show "lc_method_ids C (b(method_ids_key := Some (enc_method_ids C ids))) = Some ids"
    using mids.decodes [OF assms] by (simp add: lc_method_ids_def)
qed

lemma lc_views_other [simp]:
  "lc_commitments C (b(transition_key i := x)) = lc_commitments C b" "lc_commitments C (b(method_ids_key := x)) = lc_commitments C b"
  "lc_commitments C (b(chunk_key w := x)) = lc_commitments C b" "lc_commitments C (b(block_hash_key w := x)) = lc_commitments C b"
  "lc_transitions C (b(commitment_key i := x)) = lc_transitions C b" "lc_transitions C (b(method_ids_key := x)) = lc_transitions C b"
  "lc_transitions C (b(chunk_key w := x)) = lc_transitions C b" "lc_transitions C (b(block_hash_key w := x)) = lc_transitions C b"
  "lc_method_ids C (b(commitment_key i := x)) = lc_method_ids C b" "lc_method_ids C (b(transition_key i := x)) = lc_method_ids C b"
  "lc_method_ids C (b(chunk_key w := x)) = lc_method_ids C b" "lc_method_ids C (b(block_hash_key w := x)) = lc_method_ids C b"
  by (simp_all add: lc_commitments_def lc_transitions_def lc_method_ids_def fun_eq_iff)

lemma exec_gets:
  "lc_exec (Commitment_get C i) b = Some (r, b') \<Longrightarrow> b' = b \<and> r = lc_commitments C b i"
  "lc_exec (Transition_get C i) b = Some (t, b') \<Longrightarrow> b' = b \<and> t = lc_transitions C b i"
  "lc_exec (MethodIds_get C) b = Some (m, b') \<Longrightarrow> b' = b \<and> m = lc_method_ids C b"
  unfolding Commitment_get_def Transition_get_def MethodIds_get_def lc_commitments_def lc_transitions_def lc_method_ids_def
  by (fact comm.exec_get tran.exec_get mids.exec_get)+

lemma state_only_accessors [simp]:
  "state_only (BlockHash_exists h)" "state_only (BlockHash_insert h)" "state_only (Chunk_get w)" "state_only (Chunk_insert w c)"
  "state_only (Commitment_get C i)" "state_only (Commitment_insert C i c')" "state_only (Transition_get C i)"
  "state_only (Transition_insert C i v)" "state_only (MethodIds_get C)" "state_only (MethodIds_insert C a m)"
  "state_only (MethodIds_initialize C ids)"
  by (auto simp: BlockHash_exists_def BlockHash_insert_def Chunk_get_def Chunk_insert_def Commitment_get_def
      Commitment_insert_def Transition_get_def Transition_insert_def MethodIds_get_def MethodIds_insert_def MethodIds_initialize_def)

subsection \<open>The programs use the provable state only\<close>

lemma state_only_check_commitments [simp]: "state_only (check_commitments C out n xs)"
  by (induction C out n xs rule: check_commitments.induct) (auto split: option.split)

lemma state_only_relation [simp]: "state_only (verify_batch_proof_seq_comm_relation C out)"
  unfolding verify_batch_proof_seq_comm_relation_def check_previous_commitment_def Let_def
  by (intro state_only_lc_bind) (auto split: option.split prod.split)

lemma state_only_insert_transitions [simp]: "state_only (insert_transitions C roots l n xs)"
  by (induction xs arbitrary: n) (auto split: option.split)

lemma state_only_process_proof [simp]: "state_only (process_complete_proof C network zkp h l)"
  by (auto simp: process_complete_proof_def split: option.split)

lemma state_only_collect [simp]: "state_only (collect_chunks acc ws)"
  by (induction acc ws rule: collect_chunks.induct) (auto split: option.split)

lemma state_only_compressed [simp]: "state_only (process_compressed_proof C P h l body)"
  by (auto simp: process_compressed_proof_def split: option.split)

lemma state_only_process_data [simp]: "state_only (process_data C P h l blob d)"
  by (cases d) (auto simp: process_method_id_def split: option.split)

lemma state_only_process_blobs [simp]: "state_only (process_blobs C P h l blobs)"
  by (induction C P h l blobs rule: process_blobs.induct) (auto split: option.split)

lemma state_only_chain [simp]: "state_only (chain_transitions n C root height idx)"
  by (induction n C root height idx rule: chain_transitions.induct)
    (subst chain_transitions.simps, auto split: option.split)

lemma state_only_l1_block [simp]: "state_only (l1_block_prog C P txs h prev)"
  by (auto simp: l1_block_prog_def Let_def split: prod.split)

end
