(* ===== verification/Light_Client_Chain.thy ===== *)
theory Light_Client_Chain
  imports Light_Client_State
begin

section \<open>The chain the light client follows\<close>

text \<open>
  What processing a proof, a blob and a block does to the commitments, the transitions and the method ids of the light client's
  state, and what the sequence of its outputs says: the proved L2 state is reached from the genesis root by transitions of
  verified proofs, one for each commitment of the sequencer in order.
\<close>

subsection \<open>Ranges of indices\<close>

lemma length_u32_range: "length (u32_range a b) = Suc (unat b) - unat a"
  by (simp add: u32_range_def del: upt_Suc)

lemma u32_range_nth: "k < length (u32_range a b) \<Longrightarrow> u32_range a b ! k = of_nat (unat a + k)"
  by (simp add: u32_range_def del: upt_Suc)

lemma unat_u32_range:
  assumes "k < length (u32_range a b)"
  shows "unat (u32_range a b ! k) = unat a + k"
proof -
  have "unat a + k < 2 ^ 32"
    using assms unsigned_less [of b, where ?'a = nat] by (simp add: length_u32_range)
  then show ?thesis
    using u32_range_nth [OF assms] unat_tx_count by metis
qed

lemma distinct_u32_range: "distinct (u32_range a b)"
  unfolding distinct_conv_nth
proof (intro allI impI)
  fix i j assume ij: "i < length (u32_range a b)" "j < length (u32_range a b)" "i \<noteq> j"
  then have "unat (u32_range a b ! i) \<noteq> unat (u32_range a b ! j)"
    by (simp add: unat_u32_range)
  then show "u32_range a b ! i \<noteq> u32_range a b ! j"
    by metis
qed

text \<open>A range as long as its number of hashes, which has some, is not empty and does not wrap.\<close>

lemma u32_range_hashes:
  assumes "unat (b - a + 1) = n" "0 < n" "u32_range a b \<noteq> []"
  shows "length (u32_range a b) = n"
proof -
  have le: "unat a \<le> unat b"
    using assms(3) by (simp add: u32_range_def del: upt_Suc)
  then have sub: "unat (b - a) = unat b - unat a"
    by (simp add: unat_sub word_le_nat_alt)
  have "b - a \<noteq> - 1"
    using assms(1,2) by (metis add.left_inverse unat_0 less_irrefl)
  then have "unat (b - a + 1) = unat b - unat a + 1"
    using sub by (simp add: unat_inc)
  then show ?thesis
    using assms(1) le by (simp add: length_u32_range)
qed

subsection \<open>The relation of a proof to the commitments\<close>

text \<open>What the checks of a batch proof's output establish in a state.\<close>

definition output_related :: "lc_env \<Rightarrow> (u32 \<Rightarrow> sequencer_commitment option) \<Rightarrow> batch_proof_circuit_output \<Rightarrow> bool" where
  "output_related C cs out \<longleftrightarrow>
     (case (previous_commitment_index out, previous_commitment_hash out) of
        (Some idx, Some hash) \<Rightarrow> \<exists>c. cs idx = Some c \<and> serialize_and_calculate_sha_256 (lc_l2 C) c = hash
      | _ \<Rightarrow> fst (sequencer_commitment_index_range out) = 1)
     \<and> unat (snd (sequencer_commitment_index_range out) - fst (sequencer_commitment_index_range out) + 1)
         = length (sequencer_commitment_hashes out)
     \<and> (\<forall>k < length (sequencer_commitment_hashes out).
          k < length (u32_range (fst (sequencer_commitment_index_range out)) (snd (sequencer_commitment_index_range out))) \<longrightarrow>
          (\<exists>c. cs (fst (sequencer_commitment_index_range out) + of_nat k) = Some c
             \<and> serialize_and_calculate_sha_256 (lc_l2 C) c = sequencer_commitment_hashes out ! k
             \<and> (k + 1 = length (sequencer_commitment_hashes out) \<longrightarrow> sc_l2_end_block_number c = output_last_l2_height out)))"

lemma check_commitments_True:
  assumes "lc_exec (check_commitments C out n xs) b = Some (r, b')"
  shows "b' = b \<and> (r \<longrightarrow> (\<forall>j < length xs. \<exists>c. lc_commitments C b (fst (xs ! j)) = Some c
    \<and> serialize_and_calculate_sha_256 (lc_l2 C) c = snd (xs ! j)
    \<and> (of_nat (n + j) = snd (sequencer_commitment_index_range out) - fst (sequencer_commitment_index_range out) \<longrightarrow>
         sc_l2_end_block_number c = output_last_l2_height out)))"
  using assms
proof (induction xs arbitrary: n)
  case Nil
  then show ?case by (auto simp: lc_simps)
next
  case (Cons x xs)
  obtain i h where x: "x = (i, h)" by force
  from Cons.prems obtain g b1 where get: "lc_exec (Commitment_get C i) b = Some (g, b1)"
    by (auto simp: x lc_simps bind_is_Some)
  note g = exec_gets(1) [OF get]
  show ?case
  proof (cases "lc_commitments C b i")
    case None
    with Cons.prems get g show ?thesis
      by (auto simp: x lc_simps)
  next
    case (Some c)
    let ?bad = "of_nat n = snd (sequencer_commitment_index_range out) - fst (sequencer_commitment_index_range out)
      \<and> sc_l2_end_block_number c \<noteq> output_last_l2_height out"
    show ?thesis
    proof (cases "?bad \<or> serialize_and_calculate_sha_256 (lc_l2 C) c \<noteq> h")
      case True
      with Cons.prems get g Some show ?thesis
        by (auto simp: x lc_simps split: if_splits)
    next
      case False
      with Cons.prems get g Some have "lc_exec (check_commitments C out (n + 1) xs) b = Some (r, b')"
        by (auto simp: x lc_simps)
      from Cons.IH [OF this] False Some x show ?thesis
        by (auto simp: All_less_Suc2 ac_simps)
    qed
  qed
qed

lemma relation_True:
  assumes "lc_exec (verify_batch_proof_seq_comm_relation C out) b = Some (r, b')"
  shows "b' = b \<and> (r \<longrightarrow> output_related C (lc_commitments C b) out)"
proof -
  obtain f l where fl: "sequencer_commitment_index_range out = (f, l)" by force
  let ?hs = "sequencer_commitment_hashes out"
  from assms obtain p b1 where prev: "lc_exec (check_previous_commitment C out) b = Some (p, b1)"
    by (auto simp: verify_batch_proof_seq_comm_relation_def lc_simps bind_is_Some)
  then have b1: "b1 = b" and p: "p \<longleftrightarrow> (case (previous_commitment_index out, previous_commitment_hash out) of
        (Some idx, Some hash) \<Rightarrow> \<exists>c. lc_commitments C b idx = Some c \<and> serialize_and_calculate_sha_256 (lc_l2 C) c = hash
      | _ \<Rightarrow> f = 1)"
    by (auto simp: check_previous_commitment_def lc_simps bind_is_Some fl split: option.splits dest!: exec_gets(1))
      (metis option.inject)
  show ?thesis
  proof (cases "p \<and> unat (l - f + 1) = length ?hs")
    case False
    with assms prev b1 show ?thesis
      by (auto simp: verify_batch_proof_seq_comm_relation_def lc_simps fl split: if_splits)
  next
    case True
    with assms prev b1 have run: "lc_exec (check_commitments C out 0 (zip (u32_range f l) ?hs)) b = Some (r, b')"
      by (simp add: verify_batch_proof_seq_comm_relation_def lc_simps fl)
    have last: "of_nat k = l - f" if "k + 1 = length ?hs" for k
    proof -
      have "of_nat (k + 1) = l - f + 1"
        using True that by (metis of_nat_unat ucast_id)
      then show ?thesis by simp
    qed
    have "\<exists>c. lc_commitments C b (f + of_nat k) = Some c \<and> serialize_and_calculate_sha_256 (lc_l2 C) c = ?hs ! k
        \<and> (k + 1 = length ?hs \<longrightarrow> sc_l2_end_block_number c = output_last_l2_height out)"
      if "r" "k < length ?hs" "k < length (u32_range f l)" for k
    proof -
      have "zip (u32_range f l) ?hs ! k = (f + of_nat k, ?hs ! k)" "k < length (zip (u32_range f l) ?hs)"
        using that u32_range_nth [of k f l] by simp_all
      with check_commitments_True [OF run] that(1) last [of k] show ?thesis
        by (auto simp: fl dest!: spec [of _ k])
    qed
    with True p check_commitments_True [OF run] show ?thesis
      unfolding output_related_def fl fst_conv snd_conv by blast
  qed
qed

subsection \<open>Storing the transitions of a proof\<close>

text \<open>A transition stored for an index: the roots around its position in the proof and the end of its commitment.\<close>

definition stored_from ::
  "(u32 \<Rightarrow> sequencer_commitment option) \<Rightarrow> hash32 list \<Rightarrow> u32 \<Rightarrow> nat \<Rightarrow> u32 list \<Rightarrow> u32 \<Rightarrow> verified_state_transition \<Rightarrow> bool" where
  "stored_from cs roots l n is i v \<longleftrightarrow> (\<exists>j c. j < length is \<and> is ! j = i \<and> l < i \<and> cs i = Some c
     \<and> index roots (n + j) = Some (vt_initial_state_root v) \<and> index roots (n + j + 1) = Some (vt_final_state_root v)
     \<and> vt_last_l2_height v = sc_l2_end_block_number c)"

lemma stored_from_Cons: "stored_from cs roots l (n + 1) is i v \<Longrightarrow> stored_from cs roots l n (i0 # is) i v"
  unfolding stored_from_def
proof (elim exE conjE)
  fix j c assume "j < length is" "is ! j = i" "l < i" "cs i = Some c"
    "index roots (n + 1 + j) = Some (vt_initial_state_root v)" "index roots (n + 1 + j + 1) = Some (vt_final_state_root v)"
    "vt_last_l2_height v = sc_l2_end_block_number c"
  then show "\<exists>j c. j < length (i0 # is) \<and> (i0 # is) ! j = i \<and> l < i \<and> cs i = Some c
     \<and> index roots (n + j) = Some (vt_initial_state_root v) \<and> index roots (n + j + 1) = Some (vt_final_state_root v)
     \<and> vt_last_l2_height v = sc_l2_end_block_number c"
    by (intro exI [of _ "Suc j"] exI [of _ c]) simp
qed

lemma stored_from_hd:
  "l < i \<Longrightarrow> cs i = Some c \<Longrightarrow> index roots n = Some x \<Longrightarrow> index roots (n + 1) = Some y \<Longrightarrow>
   stored_from cs roots l n (i # is) i \<lparr> vt_initial_state_root = x, vt_final_state_root = y, vt_last_l2_height = sc_l2_end_block_number c \<rparr>"
  unfolding stored_from_def by (intro exI [of _ 0] exI [of _ c]) simp

lemma insert_transitions_effect:
  assumes "lc_codec_laws C" "lc_exec (insert_transitions C roots l n is) b = Some (u, b')"
  shows "lc_commitments C b' = lc_commitments C b \<and> lc_method_ids C b' = lc_method_ids C b
    \<and> (\<forall>i v. lc_transitions C b i = Some v \<longrightarrow> lc_transitions C b' i = Some v)
    \<and> (\<forall>i \<in> set is. l < i \<longrightarrow> lc_transitions C b' i \<noteq> None)
    \<and> (\<forall>i v. lc_transitions C b' i = Some v \<longrightarrow> lc_transitions C b i = Some v
        \<or> stored_from (lc_commitments C b) roots l n is i v)"
  using assms(2)
proof (induction "is" arbitrary: n b)
  case Nil
  then show ?case by (simp add: lc_simps)
next
  case (Cons i "is")
  have skip: ?case if "lc_exec (insert_transitions C roots l (n + 1) is) b = Some (u, b')"
    "i \<le> l \<or> lc_transitions C b i \<noteq> None"
  proof -
    note IH = Cons.IH [OF that(1)]
    have "l < i \<longrightarrow> lc_transitions C b' i \<noteq> None"
      using IH that(2) by (metis linorder_not_le option.exhaust)
    then show ?thesis
      using IH stored_from_Cons by simp blast
  qed
  show ?case
  proof (cases "i \<le> l")
    case True
    with Cons.prems skip show ?thesis by simp
  next
    case False
    with Cons.prems obtain t b1 where t: "lc_exec (Transition_get C i) b = Some (t, b1)"
      by (auto simp: lc_simps bind_is_Some)
    note t' = exec_gets(2) [OF t]
    show ?thesis
    proof (cases "lc_transitions C b i")
      case (Some v)
      with Cons.prems False t t' skip show ?thesis by (simp add: lc_simps)
    next
      case None
      with Cons.prems False t t' obtain r b2 where r: "lc_exec (Commitment_get C i) b = Some (r, b2)"
        by (auto simp: lc_simps bind_is_Some)
      note r' = exec_gets(1) [OF r]
      from Cons.prems False t t' None r r' obtain c x y where c: "lc_commitments C b i = Some c"
        and xy: "index roots n = Some x" "index roots (n + 1) = Some y"
        by (auto simp: lc_simps split: option.splits)
      let ?v = "\<lparr> vt_initial_state_root = x, vt_final_state_root = y, vt_last_l2_height = sc_l2_end_block_number c \<rparr>"
      let ?b = "b(transition_key i := Some (enc_transition C ?v))"
      have views: "lc_commitments C ?b = lc_commitments C b" "lc_method_ids C ?b = lc_method_ids C b"
        "lc_transitions C ?b = (lc_transitions C b)(i := Some ?v)"
        using lc_views_insert(2) [OF assms(1)] by simp_all
      have "lc_exec (insert_transitions C roots l (n + 1) is) ?b = Some (u, b')"
        using Cons.prems False t t' None r r' c xy by (simp add: lc_simps Transition_insert_def del: index_Some)
      note IH = Cons.IH [OF this, unfolded views]
      have "stored_from (lc_commitments C b) roots l n (i # is) i' v"
        if "lc_transitions C b' i' = Some v" "lc_transitions C b i' \<noteq> Some v" for i' v
      proof (cases "((lc_transitions C b)(i := Some ?v)) i' = Some v")
        case True
        then have "i' = i" "v = ?v"
          using that(2) by (auto split: if_splits)
        then show ?thesis
          using False c xy by (simp only: stored_from_hd linorder_not_le)
      next
        case False
        with IH that(1) stored_from_Cons show ?thesis by blast
      qed
      moreover have "lc_transitions C b' i' = Some v" if "lc_transitions C b i' = Some v" for i' v
        using that IH None by (metis fun_upd_other option.distinct(1))
      moreover have "lc_transitions C b' i' \<noteq> None" if "i' \<in> set (i # is)" "l < i'" for i'
        using that IH by (metis fun_upd_same option.distinct(1) set_ConsD)
      ultimately show ?thesis
        using IH by blast
    qed
  qed
qed

subsection \<open>Processing a proof\<close>

text \<open>A proof that verifies under the method id its last height selects, and its output.\<close>

definition verified_output ::
  "lc_env \<Rightarrow> network \<Rightarrow> batch_proof_method_ids \<Rightarrow> bytes \<Rightarrow> batch_proof_circuit_output \<Rightarrow> bool" where
  "verified_output C network ids zkp out \<longleftrightarrow> (\<exists>journal mid. lc_extract_raw_output C zkp = Some journal
     \<and> lc_deserialize_output C journal = Some out \<and> active_method_id ids (output_last_l2_height out) = Some mid
     \<and> lc_verify C zkp mid (network_to_dev_mode network))"

definition output_indices :: "batch_proof_circuit_output \<Rightarrow> u32 list" where
  "output_indices out = u32_range (fst (sequencer_commitment_index_range out)) (snd (sequencer_commitment_index_range out))"

definition proof_accepted ::
  "lc_env \<Rightarrow> network \<Rightarrow> base_state \<Rightarrow> u64 \<Rightarrow> u32 \<Rightarrow> bytes \<Rightarrow> batch_proof_circuit_output \<Rightarrow> bool" where
  "proof_accepted C network b height l zkp out \<longleftrightarrow>
     (\<exists>ids. lc_method_ids C b = Some ids \<and> verified_output C network ids zkp out)
     \<and> b (block_hash_key (last_l1_hash_on_bitcoin_light_client_contract out)) \<noteq> None
     \<and> output_related C (lc_commitments C b) out \<and> l < snd (sequencer_commitment_index_range out)
     \<and> (height < output_last_l2_height out \<or> height = 0)"

lemma process_proof_cases:
  assumes "lc_exec (process_complete_proof C network zkp height l) b = Some (r, b')"
  shows "(\<exists>e. r = Err e) \<and> b' = b \<or> (\<exists>out. r = Ok () \<and> proof_accepted C network b height l zkp out
    \<and> lc_exec (insert_transitions C (output_state_roots out) l 0 (output_indices out)) b = Some ((), b'))"
proof (cases "Option.bind (lc_extract_raw_output C zkp) (lc_deserialize_output C)")
  case None
  with assms show ?thesis
    by (auto simp: process_complete_proof_def lc_simps split: option.splits)
next
  case (Some out)
  then obtain journal where out: "lc_extract_raw_output C zkp = Some journal" "lc_deserialize_output C journal = Some out"
    by (auto simp: bind_is_Some)
  let ?known = "b (block_hash_key (last_l1_hash_on_bitcoin_light_client_contract out)) \<noteq> None"
  have known: "lc_exec (BlockHash_exists (last_l1_hash_on_bitcoin_light_client_contract out)) b = Some (?known, b)"
    by (simp add: BlockHash_exists_def lc_simps)
  show ?thesis
  proof (cases "?known \<and> \<not> (output_last_l2_height out \<le> height \<and> height \<noteq> 0)")
    case False
    with assms out known show ?thesis
      by (auto simp: process_complete_proof_def lc_simps split: if_splits)
  next
    case True
    with assms out known obtain ids b1 where get: "lc_exec (MethodIds_get C) b = Some (ids, b1)"
      by (auto simp: process_complete_proof_def lc_simps bind_is_Some)
    note g = exec_gets(3) [OF get]
    from assms out known True get g
    have "Option.bind (lc_method_ids C b) (\<lambda>ids. active_method_id ids (output_last_l2_height out)) \<noteq> None"
      by (auto simp: process_complete_proof_def lc_simps split: option.splits)
    then obtain ids' mid where ids: "lc_method_ids C b = Some ids'"
      "active_method_id ids' (output_last_l2_height out) = Some mid"
      by (auto simp: bind_is_Some)
    show ?thesis
    proof (cases "lc_verify C zkp mid (network_to_dev_mode network)")
      case False
      with assms out known True get g ids show ?thesis
        by (auto simp: process_complete_proof_def lc_simps)
    next
      case verified: True
      with assms out known True get g ids obtain ok b2 where
        rel: "lc_exec (verify_batch_proof_seq_comm_relation C out) b = Some (ok, b2)"
        by (auto simp: process_complete_proof_def lc_simps bind_is_Some)
      note rel' = relation_True [OF rel]
      have "verified_output C network ids' zkp out"
        using out ids(2) verified by (auto simp: verified_output_def)
      then have "proof_accepted C network b height l zkp out" if "ok" "l < snd (sequencer_commitment_index_range out)"
        using that True ids(1) rel' by (auto simp: proof_accepted_def)
      with assms out known True get g ids verified rel rel' show ?thesis
        by (auto simp: process_complete_proof_def lc_simps output_indices_def bind_is_Some split: if_splits)
    qed
  qed
qed

text \<open>
  Where a transition comes from: a verified proof, under the method ids known at the time, whose commitments are those of the
  state and whose roots at the position of the index are those of the transition.
\<close>

definition justified ::
  "lc_env \<Rightarrow> network \<Rightarrow> batch_proof_method_ids \<Rightarrow> (u32 \<Rightarrow> sequencer_commitment option) \<Rightarrow> u32 \<Rightarrow> verified_state_transition \<Rightarrow> bool" where
  "justified C network ids cs i v \<longleftrightarrow> (\<exists>zkp out early late l. ids = early @ late \<and> verified_output C network early zkp out
     \<and> output_related C cs out \<and> stored_from cs (output_state_roots out) l 0 (output_indices out) i v)"

lemma map_le_Some: "m \<subseteq>\<^sub>m m' \<Longrightarrow> m k = Some x \<Longrightarrow> m' k = Some x"
  by (metis domI map_le_def)

lemma output_related_mono:
  assumes "output_related C cs out" "cs \<subseteq>\<^sub>m cs'"
  shows "output_related C cs' out"
  using assms(1) unfolding output_related_def by (fastforce split: option.splits dest: map_le_Some [OF assms(2)])

lemma stored_from_mono:
  assumes "stored_from cs roots l n is i v" "cs \<subseteq>\<^sub>m cs'"
  shows "stored_from cs' roots l n is i v"
  using assms(1) unfolding stored_from_def by (elim exE conjE) (intro exI conjI, assumption+, rule map_le_Some [OF assms(2)])

lemma justified_mono:
  assumes "justified C network ids cs i v" "cs \<subseteq>\<^sub>m cs'"
  shows "justified C network (ids @ new) cs' i v"
proof -
  from assms(1) obtain zkp out early late l where j: "ids = early @ late" "verified_output C network early zkp out"
    "output_related C cs out" "stored_from cs (output_state_roots out) l 0 (output_indices out) i v"
    unfolding justified_def by (elim exE conjE) (rule that)
  have "ids @ new = early @ (late @ new)"
    using j(1) by simp
  with j(2) output_related_mono [OF j(3) assms(2)] stored_from_mono [OF j(4) assms(2)] show ?thesis
    unfolding justified_def by (intro exI conjI)
qed

subsection \<open>The security council\<close>

text \<open>A new method id: higher than the last one, for this network, and signed by the council.\<close>

definition approved :: "lc_env \<Rightarrow> lc_params \<Rightarrow> u64 \<Rightarrow> method_id \<Rightarrow> bool" where
  "approved C P height mid \<longleftrightarrow> (\<exists>body sigs. mb_activation_l2_height body = height \<and> mb_method_id body = mid
     \<and> mb_chain_id body = citrea_network_to_chain_id (lp_network P)
     \<and> verify_method_id_security_council C (lp_method_id_upgrade_authority_da_public_keys P) (serialize_method_id_body C body) sigs
         = Some True)"

fun approved_ids :: "lc_env \<Rightarrow> lc_params \<Rightarrow> u64 \<Rightarrow> batch_proof_method_ids \<Rightarrow> bool" where
  "approved_ids C P height [] = True"
| "approved_ids C P height ((h, m) # ids) = (height < h \<and> approved C P h m \<and> approved_ids C P h ids)"

lemma approved_ids_append:
  "approved_ids C P h (new @ new') \<longleftrightarrow> approved_ids C P h new \<and> approved_ids C P (if new = [] then h else fst (last new)) new'"
  by (induction C P h new rule: approved_ids.induct) auto

lemma approved_ids_sorted:
  "approved_ids C P h new \<Longrightarrow> sorted_wrt (<) (h # map fst new)"
proof (induction C P h new rule: approved_ids.induct)
  case (2 C P height h m ids)
  then have "sorted_wrt (<) (h # map fst ids)" "height < h" by simp_all
  then show ?case by auto
qed simp

subsection \<open>How the state grows\<close>

text \<open>
  Commitments and transitions are never replaced, method ids are only appended, by the council, and a new transition comes from a
  verified proof.
\<close>

definition lc_grows :: "lc_env \<Rightarrow> lc_params \<Rightarrow> base_state \<Rightarrow> base_state \<Rightarrow> bool" where
  "lc_grows C P b b' \<longleftrightarrow> lc_commitments C b \<subseteq>\<^sub>m lc_commitments C b' \<and> lc_transitions C b \<subseteq>\<^sub>m lc_transitions C b'
     \<and> (\<forall>ids. lc_method_ids C b = Some ids \<and> ids \<noteq> [] \<longrightarrow>
          (\<exists>new. lc_method_ids C b' = Some (ids @ new) \<and> approved_ids C P (fst (last ids)) new
             \<and> (\<forall>i v. lc_transitions C b' i = Some v \<longrightarrow> lc_transitions C b i = Some v
                  \<or> justified C (lp_network P) (ids @ new) (lc_commitments C b') i v)))"

lemma lc_grows_same:
  assumes "lc_commitments C b' = lc_commitments C b" "lc_transitions C b' = lc_transitions C b" "lc_method_ids C b' = lc_method_ids C b"
  shows "lc_grows C P b b'"
  using assms by (simp add: lc_grows_def)

lemma lc_grows_refl [simp]: "lc_grows C P b b"
  by (simp add: lc_grows_same)

lemma lc_grows_le:
  assumes "lc_grows C P b b'"
  shows "lc_commitments C b \<subseteq>\<^sub>m lc_commitments C b'" "lc_transitions C b \<subseteq>\<^sub>m lc_transitions C b'"
  using assms by (simp_all add: lc_grows_def)

lemma lc_grows_ids:
  assumes "lc_grows C P b b'" "lc_method_ids C b = Some ids" "ids \<noteq> []"
  obtains new where "lc_method_ids C b' = Some (ids @ new)" "approved_ids C P (fst (last ids)) new"
    "\<forall>i v. lc_transitions C b' i = Some v \<longrightarrow> lc_transitions C b i = Some v
      \<or> justified C (lp_network P) (ids @ new) (lc_commitments C b') i v"
proof -
  have "\<exists>new. lc_method_ids C b' = Some (ids @ new) \<and> approved_ids C P (fst (last ids)) new
      \<and> (\<forall>i v. lc_transitions C b' i = Some v \<longrightarrow> lc_transitions C b i = Some v
            \<or> justified C (lp_network P) (ids @ new) (lc_commitments C b') i v)"
    using assms unfolding lc_grows_def by simp
  then show thesis
    by (elim exE conjE) (rule that)
qed

lemma lc_grows_trans:
  assumes "lc_grows C P b b1" "lc_grows C P b1 b2"
  shows "lc_grows C P b b2"
  unfolding lc_grows_def
proof (intro conjI allI impI)
  show "lc_commitments C b \<subseteq>\<^sub>m lc_commitments C b2" "lc_transitions C b \<subseteq>\<^sub>m lc_transitions C b2"
    by (rule map_le_trans [OF lc_grows_le(1) [OF assms(1)] lc_grows_le(1) [OF assms(2)]])
      (rule map_le_trans [OF lc_grows_le(2) [OF assms(1)] lc_grows_le(2) [OF assms(2)]])
next
  fix ids assume ids: "lc_method_ids C b = Some ids \<and> ids \<noteq> []"
  then obtain new where new: "lc_method_ids C b1 = Some (ids @ new)" "approved_ids C P (fst (last ids)) new"
    "\<forall>i v. lc_transitions C b1 i = Some v \<longrightarrow> lc_transitions C b i = Some v
      \<or> justified C (lp_network P) (ids @ new) (lc_commitments C b1) i v"
    using lc_grows_ids [OF assms(1), of ids thesis] by simp
  have "ids @ new \<noteq> []" using ids by simp
  then obtain new' where new': "lc_method_ids C b2 = Some ((ids @ new) @ new')"
    "approved_ids C P (fst (last (ids @ new))) new'"
    "\<forall>i v. lc_transitions C b2 i = Some v \<longrightarrow> lc_transitions C b1 i = Some v
      \<or> justified C (lp_network P) ((ids @ new) @ new') (lc_commitments C b2) i v"
    by (rule lc_grows_ids [OF assms(2) new(1)])
  have "approved_ids C P (fst (last ids)) (new @ new')"
    using new(2) new'(2) by (auto simp: approved_ids_append last_append)
  moreover have "justified C (lp_network P) (ids @ new @ new') (lc_commitments C b2) i v"
    if "lc_transitions C b2 i = Some v" "lc_transitions C b i \<noteq> Some v" for i v
  proof (cases "lc_transitions C b1 i = Some v")
    case True
    with new(3) that(2) have "justified C (lp_network P) (ids @ new) (lc_commitments C b1) i v" by blast
    from justified_mono [OF this lc_grows_le(1) [OF assms(2)], of new'] show ?thesis by simp
  next
    case False
    with new'(3) that(1) show ?thesis by (simp only: append_assoc) blast
  qed
  ultimately show "\<exists>new. lc_method_ids C b2 = Some (ids @ new) \<and> approved_ids C P (fst (last ids)) new
      \<and> (\<forall>i v. lc_transitions C b2 i = Some v \<longrightarrow> lc_transitions C b i = Some v
            \<or> justified C (lp_network P) (ids @ new) (lc_commitments C b2) i v)"
    using new'(1) by (intro exI [of _ "new @ new'"]) auto
qed

lemma process_proof_grows:
  assumes "lc_codec_laws C" "lc_exec (process_complete_proof C (lp_network P) zkp height l) b = Some (r, b')"
  shows "lc_grows C P b b'"
  using process_proof_cases [OF assms(2)]
proof (elim disjE exE conjE)
  assume "b' = b"
  then show ?thesis by simp
next
  fix out
  assume acc: "proof_accepted C (lp_network P) b height l zkp out"
    and ins: "lc_exec (insert_transitions C (output_state_roots out) l 0 (output_indices out)) b = Some ((), b')"
  note eff = insert_transitions_effect [OF assms(1) ins]
  have le: "lc_transitions C b \<subseteq>\<^sub>m lc_transitions C b'"
    using eff by (auto simp: map_le_def dom_def)
  have "lc_transitions C b i = Some v \<or> justified C (lp_network P) (ids @ []) (lc_commitments C b') i v"
    if ids: "lc_method_ids C b = Some ids" and v: "lc_transitions C b' i = Some v" for ids i v
  proof -
    have out: "verified_output C (lp_network P) ids zkp out" "output_related C (lc_commitments C b) out"
      using acc ids by (auto simp: proof_accepted_def)
    from eff v consider "lc_transitions C b i = Some v"
      | "stored_from (lc_commitments C b) (output_state_roots out) l 0 (output_indices out) i v"
      by blast
    then show ?thesis
    proof cases
      case 2
      have "lc_commitments C b' = lc_commitments C b" using eff by simp
      with out 2 have "justified C (lp_network P) (ids @ []) (lc_commitments C b') i v"
        unfolding justified_def by (intro exI [of _ zkp] exI [of _ out] exI [of _ ids] exI [of _ "[]"] exI [of _ l]) simp
      then show ?thesis ..
    qed simp
  qed
  note just = this
  show ?thesis
    unfolding lc_grows_def
  proof (intro conjI allI impI)
    fix ids assume ids: "lc_method_ids C b = Some ids \<and> ids \<noteq> []"
    show "\<exists>new. lc_method_ids C b' = Some (ids @ new) \<and> approved_ids C P (fst (last ids)) new
        \<and> (\<forall>i v. lc_transitions C b' i = Some v \<longrightarrow> lc_transitions C b i = Some v
              \<or> justified C (lp_network P) (ids @ new) (lc_commitments C b') i v)"
      using just [of ids] ids eff by (intro exI [of _ "[]"]) simp
  qed (use eff le in simp_all)
qed

lemma process_compressed_grows:
  assumes "lc_codec_laws C" "lc_exec (process_compressed_proof C P height l body) b = Some (u, b')"
  shows "lc_grows C P b b'"
proof (cases "decompress_chunks C body")
  case None
  with assms(2) show ?thesis by (simp add: process_compressed_proof_def lc_simps)
next
  case (Some zkp)
  with assms(2) obtain r where "lc_exec (process_complete_proof C (lp_network P) zkp height l) b = Some (r, b')"
    by (auto simp: process_compressed_proof_def lc_simps bind_is_Some)
  then show ?thesis by (rule process_proof_grows [OF assms(1)])
qed

lemma collect_chunks_frame: "lc_exec (collect_chunks acc ws) b = Some (r, b') \<Longrightarrow> b' = b"
proof (induction acc ws rule: collect_chunks.induct)
  case (2 acc w ws)
  then show ?case
    by (auto simp: Chunk_get_def lc_simps split: option.splits if_splits)
qed (simp add: lc_simps)

lemma process_method_id_grows:
  assumes "lc_codec_laws C" "lc_exec (process_method_id C P m) b = Some (u, b')"
  shows "lc_grows C P b b'"
proof -
  let ?h = "mb_activation_l2_height (mi_body m)" and ?mid = "mb_method_id (mi_body m)"
  let ?ok = "verify_method_id_security_council C (lp_method_id_upgrade_authority_da_public_keys P)
    (serialize_method_id_body C (mi_body m)) (mi_signatures_with_index m)"
  from assms(2) obtain r b1 where get: "lc_exec (MethodIds_get C) b = Some (r, b1)"
    by (auto simp: process_method_id_def lc_simps bind_is_Some)
  note g = exec_gets(3) [OF get]
  from assms(2) get g obtain ids where ids: "lc_method_ids C b = Some ids" "ids \<noteq> []"
    by (auto simp: process_method_id_def lc_simps split: option.splits if_splits)
  show ?thesis
  proof (cases "fst (last ids) < ?h \<and> citrea_network_to_chain_id (lp_network P) = mb_chain_id (mi_body m) \<and> ?ok = Some True")
    case False
    with assms(2) get g ids have "b' = b"
      by (auto simp: process_method_id_def lc_simps split: option.splits if_splits)
    then show ?thesis by simp
  next
    case True
    let ?b = "b(method_ids_key := Some (enc_method_ids C (ids @ [(?h, ?mid)])))"
    from True have not: "\<not> ?h \<le> fst (last ids)" by (simp add: linorder_not_le)
    with True assms(2) get g ids have b': "b' = ?b"
      by (simp add: process_method_id_def MethodIds_insert_def unwrap_or_default_def lc_simps)
    have "approved C P ?h ?mid"
      unfolding approved_def using True by (intro exI [of _ "mi_body m"] exI [of _ "mi_signatures_with_index m"]) simp
    then have "approved_ids C P (fst (last ids)) [(?h, ?mid)]"
      using True by simp
    then show ?thesis
      using lc_views_insert(3) [OF assms(1)] ids(1) unfolding lc_grows_def b' by (simp add: exI [of _ "[(?h, ?mid)]"])
  qed
qed

lemma process_data_grows:
  assumes "lc_codec_laws C" "lc_exec (process_data C P height l blob d) b = Some (u, b')"
  shows "lc_grows C P b b'"
proof (cases d)
  case (DaComplete body)
  with assms show ?thesis
    by (auto simp: lc_simps intro: process_compressed_grows split: if_splits)
next
  case (DaAggregate ids wtxids)
  show ?thesis
  proof (cases "bw_sender blob = lp_batch_prover_da_public_key P")
    case True
    with assms(2) DaAggregate obtain r b1 where c: "lc_exec (collect_chunks [] wtxids) b = Some (r, b1)"
      by (auto simp: lc_simps bind_is_Some)
    with True assms DaAggregate collect_chunks_frame [OF c] show ?thesis
      by (auto simp: lc_simps intro: process_compressed_grows split: option.splits)
  qed (use assms(2) DaAggregate in \<open>simp add: lc_simps\<close>)
next
  case (DaChunk chunk)
  with assms(2) show ?thesis
    by (auto simp: Chunk_insert_def lc_simps intro: lc_grows_same)
next
  case (DaBatchProofMethodId m)
  with assms show ?thesis
    by (auto intro: process_method_id_grows)
next
  case (DaSequencerCommitment c)
  show ?thesis
  proof (cases "bw_sender blob = lp_sequencer_da_public_key P")
    case True
    with assms(2) DaSequencerCommitment obtain r b1 where get: "lc_exec (Commitment_get C (sc_index c)) b = Some (r, b1)"
      by (auto simp: lc_simps bind_is_Some)
    note g = exec_gets(1) [OF get]
    show ?thesis
    proof (cases "lc_commitments C b (sc_index c)")
      case None
      with True assms(2) DaSequencerCommitment get g
      have b': "b' = b(commitment_key (sc_index c) := Some (borsh_commitment (lc_l2 C) c))"
        by (simp add: lc_simps Commitment_insert_def)
      have "lc_commitments C b \<subseteq>\<^sub>m (lc_commitments C b)(sc_index c := Some c)"
        using None by (simp add: map_le_def) blast
      then show ?thesis
        using lc_views_insert(1) [OF assms(1)] unfolding lc_grows_def b' by (simp add: exI [of _ "[]"])
    next
      case (Some c')
      with True assms(2) DaSequencerCommitment get g show ?thesis by (simp add: lc_simps)
    qed
  qed (use assms(2) DaSequencerCommitment in \<open>simp add: lc_simps\<close>)
qed

lemma process_blobs_grows:
  assumes "lc_codec_laws C"
  shows "lc_exec (process_blobs C P height l blobs) b = Some (u, b') \<Longrightarrow> lc_grows C P b b'"
proof (induction blobs arbitrary: b)
  case (Cons blob blobs)
  let ?p = "case dec_data (lc_codec C) (bw_blob blob) of None \<Rightarrow> lc_return () | Some data \<Rightarrow> process_data C P height l blob data"
  from Cons.prems obtain b1 where b1: "lc_exec ?p b = Some ((), b1)" "lc_exec (process_blobs C P height l blobs) b1 = Some (u, b')"
    by (auto simp: lc_simps bind_is_Some)
  have "lc_grows C P b b1"
    using b1(1) process_data_grows [OF assms] by (auto simp: lc_simps split: option.splits)
  then show ?case
    using Cons.IH [OF b1(2)] by (rule lc_grows_trans)
qed (simp add: lc_simps)

subsection \<open>Following the transitions\<close>

inductive follows ::
  "(u32 \<Rightarrow> verified_state_transition option) \<Rightarrow> hash32 \<Rightarrow> u64 \<Rightarrow> u32 \<Rightarrow> hash32 \<Rightarrow> u64 \<Rightarrow> u32 \<Rightarrow> bool"
  for T where
  follows_end: "follows T root height i root height i"
| follows_next: "T (i + 1) = Some v \<Longrightarrow> vt_initial_state_root v = root \<Longrightarrow>
    follows T (vt_final_state_root v) (vt_last_l2_height v) (i + 1) root' height' i' \<Longrightarrow> follows T root height i root' height' i'"

lemma follows_mono: "follows T root height i root' height' i' \<Longrightarrow> T \<subseteq>\<^sub>m T' \<Longrightarrow> follows T' root height i root' height' i'"
  by (induction rule: follows.induct) (auto intro: follows.intros dest: map_le_Some)

lemma follows_trans:
  "follows T r h i r1 h1 i1 \<Longrightarrow> follows T r1 h1 i1 r2 h2 i2 \<Longrightarrow> follows T r h i r2 h2 i2"
  by (induction rule: follows.induct) (auto intro: follows.intros)

lemma chain_transitions_follows:
  assumes "lc_exec (chain_transitions n C root height i) b = Some ((root', height', i'), b')"
  shows "b' = b \<and> follows (lc_transitions C b) root height i root' height' i' \<and> lc_transitions C b (i' + 1) = None"
  using assms
proof (induction n arbitrary: root height i)
  case 0
  then show ?case by (simp add: chain_transitions.simps [of 0] lc_simps)
next
  case (Suc n)
  note unfold = chain_transitions.simps [of "Suc n" C root height i]
  from Suc.prems obtain r b1 where get: "lc_exec (Transition_get C (i + 1)) b = Some (r, b1)"
    by (auto simp: unfold lc_simps bind_is_Some)
  note g = exec_gets(2) [OF get]
  show ?case
  proof (cases "lc_transitions C b (i + 1)")
    case None
    with Suc.prems get g show ?thesis
      by (auto simp: unfold lc_simps intro: follows.intros)
  next
    case (Some v)
    with Suc.prems get g have v: "vt_initial_state_root v = root"
      "lc_exec (chain_transitions n C (vt_final_state_root v) (vt_last_l2_height v) (i + 1)) b = Some ((root', height', i'), b')"
      by (auto simp: unfold lc_simps split: if_splits)
    from Suc.IH [OF v(2)] follows_next [of "lc_transitions C b" i, OF Some v(1)] show ?thesis by blast
  qed
qed

text \<open>
  The number of turns is enough: where every stored transition decodes and some index has none, the loop ends, or it meets a
  transition that does not start where the one before it ends.
\<close>

definition mismatch :: "(u32 \<Rightarrow> verified_state_transition option) \<Rightarrow> hash32 \<Rightarrow> u64 \<Rightarrow> u32 \<Rightarrow> bool" where
  "mismatch T root height i \<longleftrightarrow> (\<exists>root' height' i' v. follows T root height i root' height' i' \<and> T (i' + 1) = Some v
     \<and> vt_initial_state_root v \<noteq> root')"

lemma mismatch_next:
  "T (i + 1) = Some v \<Longrightarrow> vt_initial_state_root v = root \<Longrightarrow> mismatch T (vt_final_state_root v) (vt_last_l2_height v) (i + 1) \<Longrightarrow>
   mismatch T root height i"
  unfolding mismatch_def by (metis follows_next)

definition transitions_decode :: "lc_env \<Rightarrow> base_state \<Rightarrow> bool" where
  "transitions_decode C b \<longleftrightarrow> (\<forall>i x. b (transition_key i) = Some x \<longrightarrow> dec_transition C x \<noteq> None)"

lemma Transition_get_decoded:
  "transitions_decode C b \<Longrightarrow> lc_exec (Transition_get C i) b = Some (lc_transitions C b i, b)"
  by (auto simp: Transition_get_def lc_simps lc_decode_def lc_transitions_def transitions_decode_def split: option.splits)
    (metis option.distinct(1))

lemma chain_transitions_ends:
  assumes "transitions_decode C b" "lc_transitions C b (i + of_nat (Suc m)) = None" "m < n"
    and "\<not> mismatch (lc_transitions C b) root height i"
  shows "\<exists>x. lc_exec (chain_transitions n C root height i) b = Some (x, b)"
  using assms(2-4)
proof (induction m arbitrary: n i root height)
  case 0
  then show ?case
    using Transition_get_decoded [OF assms(1), of "i + 1"] by (subst chain_transitions.simps) (simp add: lc_simps)
next
  case (Suc m)
  show ?case
  proof (cases "lc_transitions C b (i + 1)")
    case None
    then show ?thesis
      using Suc.prems(2) Transition_get_decoded [OF assms(1), of "i + 1"] by (subst chain_transitions.simps) (simp add: lc_simps)
  next
    case (Some v)
    have v: "vt_initial_state_root v = root"
      using Suc.prems(3) Some follows_end unfolding mismatch_def by metis
    have "\<not> mismatch (lc_transitions C b) (vt_final_state_root v) (vt_last_l2_height v) (i + 1)"
      using Suc.prems(3) mismatch_next [of "lc_transitions C b" i v, OF Some v] by blast
    moreover have "lc_transitions C b (i + 1 + of_nat (Suc m)) = None"
      using Suc.prems(1) by (simp add: ac_simps)
    moreover have "m < n - 1"
      using Suc.prems(2) by simp
    ultimately obtain x where "lc_exec (chain_transitions (n - 1) C (vt_final_state_root v) (vt_last_l2_height v) (i + 1)) b = Some (x, b)"
      using Suc.IH by blast
    then show ?thesis
      using Suc.prems(2) Transition_get_decoded [OF assms(1), of "i + 1"] Some v
      by (intro exI [of _ x], subst chain_transitions.simps) (simp add: lc_simps)
  qed
qed

lemma chain_transitions_returns:
  assumes "transitions_decode C b" "lc_transitions C b j = None" "\<not> mismatch (lc_transitions C b) root height i"
  shows "\<exists>x. lc_exec (chain_transitions (2 ^ 32) C root height i) b = Some (x, b)"
proof (rule chain_transitions_ends [OF assms(1) _ _ assms(3)])
  let ?m = "unat (j - i - 1)"
  show "lc_transitions C b (i + of_nat (Suc ?m)) = None"
    using assms(2) by simp
  show "?m < 2 ^ 32"
    using unsigned_less [of "j - i - 1", where ?'a = nat] by simp
qed

subsection \<open>A block\<close>

lemma initialize_ids:
  assumes "lc_codec_laws C" "lc_exec (MethodIds_initialize C initial) b = Some (u, b')"
  shows "lc_method_ids C b' = Some initial \<and> lc_commitments C b' = lc_commitments C b \<and> lc_transitions C b' = lc_transitions C b
    \<and> unwrap_or_default (lc_method_ids C b) = []"
proof -
  from assms(2) obtain r b1 where get: "lc_exec (MethodIds_get C) b = Some (r, b1)"
    by (auto simp: MethodIds_initialize_def lc_simps bind_is_Some)
  with assms(2) exec_gets(3) [OF get] have "b' = b(method_ids_key := Some (enc_method_ids C initial))"
    "unwrap_or_default (lc_method_ids C b) = []"
    by (auto simp: MethodIds_initialize_def lc_simps split: if_splits)
  then show ?thesis
    using lc_views_insert(3) [OF assms(1)] by simp
qed

text \<open>What a block does to the state of the light client.\<close>

lemma l1_block_effect:
  assumes "lc_codec_laws C" "lc_start P prev = (root, height, i)"
    and "lc_exec (l1_block_prog C P txs hash prev) b = Some ((root', height', i'), b')"
  shows "\<exists>b1. lc_grows C P b1 b' \<and> lc_commitments C b1 = lc_commitments C b \<and> lc_transitions C b1 = lc_transitions C b
    \<and> lc_method_ids C b1 = (if prev = None then Some (lp_initial_batch_proof_method_ids P) else lc_method_ids C b)
    \<and> follows (lc_transitions C b') root height i root' height' i' \<and> lc_transitions C b' (i' + 1) = None"
proof -
  let ?b0 = "b(block_hash_key hash := Some [])"
  let ?init = "if prev = None then MethodIds_initialize C (lp_initial_batch_proof_method_ids P) else lc_return ()"
  from assms(2,3) obtain b1 b2 where
    b1: "lc_exec ?init ?b0 = Some ((), b1)" and
    b2: "lc_exec (process_blobs C P height i txs) b1 = Some ((), b2)" and
    chain: "lc_exec (chain_transitions (2 ^ 32) C root height i) b2 = Some ((root', height', i'), b')"
    unfolding l1_block_prog_def by (auto simp: lc_simps bind_is_Some BlockHash_insert_def simp del: fun_upd_apply)
  have "lc_commitments C b1 = lc_commitments C b \<and> lc_transitions C b1 = lc_transitions C b
    \<and> lc_method_ids C b1 = (if prev = None then Some (lp_initial_batch_proof_method_ids P) else lc_method_ids C b)"
  proof (cases "prev = None")
    case True
    with initialize_ids [OF assms(1), of _ ?b0 "()" b1] b1 show ?thesis by simp
  next
    case False
    with b1 have "b1 = ?b0" by (simp add: lc_simps)
    with False show ?thesis by auto
  qed
  with process_blobs_grows [OF assms(1) b2] chain_transitions_follows [OF chain] show ?thesis
    by blast
qed

subsection \<open>The guest\<close>

text \<open>Whatever the witness, a guest that returns has run the program on the state of the tree it started from.\<close>

lemma zk_update_diff:
  "zk_compute_state_update B V log w False = Some (Ok (tr, u, d, w')) \<Longrightarrow>
   zk_compute_state_update B V log w True = Some (Ok (tr, u, iter_ordered_writes log, w'))"
  by (auto simp: zk_compute_state_update_def panic_simps diff_of_def)

lemma l1_block_sound:
  assumes "jmt_sound V root_of tree_get" "root_of t = (case prev of Some out \<Rightarrow> lo_lcp_state_root out | None \<Rightarrow> LCP_JMT_GENESIS_ROOT)"
    and "run_l1_block C P (zk_stf_storage B V) w txs hash prev = Some res"
    and "l1_block_run C P (zk_storage_ops B) w txs hash prev = Some (x, log, w1)" "log_keys log \<subseteq> K" "inj_on (key_hash V) K"
  shows "\<exists>t' b'. rl_lcp_state_root res = root_of t'
    \<and> lc_exec (l1_block_prog C P txs hash prev) (state_of V tree_get t) =
        Some ((rl_l2_state_root res, rl_last_l2_height res, rl_last_sequencer_commitment_index res), b')
    \<and> (\<forall>k \<in> K. state_of V tree_get t' k = b' k)"
proof -
  let ?p = "l1_block_prog C P txs hash prev"
  from assms(4) obtain ws where run: "run_prog ?p (ws_with_witness (zk_storage_ops B) w []) = Some (Some x, ws)"
    and log: "frozen ws = (log, w1)"
    by (cases "run_prog ?p (ws_with_witness (zk_storage_ops B) w [])")
      (auto simp: l1_block_run_def frozen_def bind_is_Some case_prod_beta prod_eq_iff Let_def)
  from assms(3,4) obtain tr d w2 where upd: "zk_compute_state_update B V log w1 False = Some (Ok (tr, (), d, w2))"
    and init: "init_root tr = root_of t" and res: "rl_lcp_state_root res = final_root tr"
    "x = (rl_l2_state_root res, rl_last_l2_height res, rl_last_sequencer_commitment_index res)"
    using assms(2) by (auto simp: run_l1_block_def zk_stf_storage_def panic_simps split: prod.splits)
  obtain olog ow where "frozen_offchain ws = (olog, ow)" by force
  then have "zk_block B V empty_read_write_log empty_read_write_log w [] ?p =
      Some (Some x, tr, iter_ordered_writes log, log, olog, w2, ow)"
    using run log zk_update_diff [OF upd] by (simp add: zk_block_def ws_with_empty_logs)
  from block_sound [OF assms(1) this init] obtain t' os cur chk where
    spec: "spec_prog ?p os (state_of V tree_get t) (state_of V tree_get t) = Some (Some x, cur, chk)" and
    t': "final_root tr = root_of t'" "\<And>k. inj_on (key_hash V) (insert k (log_keys log)) \<Longrightarrow> state_of V tree_get t' k = cur k"
    using inj_on_subset [OF assms(6,5)]
    by (auto simp: empty_read_write_log_def into_cache_log_def mark_all_as_read_def bm_inv_def)
  have "lc_exec ?p (state_of V tree_get t) = Some (x, cur)"
    using spec_prog_exec [OF state_only_l1_block spec] by (simp add: lc_exec_def)
  moreover have "state_of V tree_get t' k = cur k" if "k \<in> K" for k
    using that assms(5) by (intro t'(2) inj_on_subset [OF assms(6)]) auto
  ultimately show ?thesis
    using res t'(1) by (intro exI [of _ t'] exI [of _ cur]) simp
qed

end
