(* ===== verification/Light_Client_Runs.thy ===== *)
theory Light_Client_Runs
  imports Light_Client_Chain
begin

section \<open>Runs of the light client circuit\<close>

text \<open>
  The sequence of outputs the circuit gives when each run takes the output of the one before, from a run without a previous proof:
  what holds of the last output and of the tree whose root it names.
\<close>

text \<open>A run of the guest circuit that took \<open>prev\<close> from its input, and whose working set used the keys \<open>K\<close> only.\<close>

definition circuit_step ::
  "btc_env \<Rightarrow> script_env \<Rightarrow> bytes \<Rightarrow> lc_env \<Rightarrow> lc_params \<Rightarrow> ('p, 'u) borsh \<Rightarrow> ('p, 'u) jmt_verifier \<Rightarrow> storage_key set
    \<Rightarrow> light_client_circuit_output option \<Rightarrow> light_client_circuit_input \<Rightarrow> light_client_circuit_output \<Rightarrow> bool" where
  "circuit_step E S prefix C P B V K prev input out \<longleftrightarrow>
     previous_output C P input = Some prev \<and> run_circuit E S prefix C P (zk_stf_storage B V) input = Some (Ok out)
     \<and> (\<forall>txs x log w. verify_transactions E S prefix (li_da_block_header input) (li_inclusion_proof input)
            (li_completeness_proof input) = Some (Ok txs) \<and>
          l1_block_run C P (zk_storage_ops B) (li_witness input) txs (hw_hash (li_da_block_header input)) prev = Some (x, log, w)
          \<longrightarrow> log_keys log \<subseteq> K)"

inductive circuit_runs ::
  "btc_env \<Rightarrow> script_env \<Rightarrow> bytes \<Rightarrow> lc_env \<Rightarrow> lc_params \<Rightarrow> ('p, 'u) borsh \<Rightarrow> ('p, 'u) jmt_verifier \<Rightarrow> storage_key set
    \<Rightarrow> light_client_circuit_input list \<Rightarrow> light_client_circuit_output list \<Rightarrow> bool"
  for E S prefix C P B V K where
  first: "circuit_step E S prefix C P B V K None input out \<Longrightarrow> circuit_runs E S prefix C P B V K [input] [out]"
| later: "circuit_runs E S prefix C P B V K inputs (outs @ [prev]) \<Longrightarrow> circuit_step E S prefix C P B V K (Some prev) input out
    \<Longrightarrow> circuit_runs E S prefix C P B V K (inputs @ [input]) (outs @ [prev, out])"

text \<open>The keys under which the light client keeps commitments, transitions and method ids.\<close>

definition lc_index_keys :: "storage_key set" where
  "lc_index_keys = insert method_ids_key (range commitment_key \<union> range transition_key)"

text \<open>What an output and the state behind it have to do with each other.\<close>

definition lc_inv :: "lc_env \<Rightarrow> lc_params \<Rightarrow> base_state \<Rightarrow> light_client_circuit_output \<Rightarrow> bool" where
  "lc_inv C P b out \<longleftrightarrow>
     (\<exists>new. lc_method_ids C b = Some (lp_initial_batch_proof_method_ids P @ new)
        \<and> approved_ids C P (fst (last (lp_initial_batch_proof_method_ids P))) new
        \<and> (\<forall>i v. lc_transitions C b i = Some v \<longrightarrow>
             justified C (lp_network P) (lp_initial_batch_proof_method_ids P @ new) (lc_commitments C b) i v))
     \<and> follows (lc_transitions C b) (lp_l2_genesis_root P) 0 0
         (lo_l2_state_root out) (lo_last_l2_height out) (lo_last_sequencer_commitment_index out)
     \<and> lc_transitions C b (lo_last_sequencer_commitment_index out + 1) = None"

lemma lc_views_cong:
  assumes "\<forall>k \<in> K. b k = b' k" "lc_index_keys \<subseteq> K"
  shows "lc_commitments C b = lc_commitments C b'" "lc_transitions C b = lc_transitions C b'" "lc_method_ids C b = lc_method_ids C b'"
  using assms by (auto simp: lc_index_keys_def lc_commitments_def lc_transitions_def lc_method_ids_def fun_eq_iff subset_iff)

lemma lc_inv_cong:
  assumes "\<forall>k \<in> K. b k = b' k" "lc_index_keys \<subseteq> K"
  shows "lc_inv C P b out \<longleftrightarrow> lc_inv C P b' out"
  unfolding lc_inv_def lc_views_cong [OF assms] ..

text \<open>What a later output and its state keep of an earlier one.\<close>

definition lc_extends ::
  "lc_env \<Rightarrow> base_state \<Rightarrow> light_client_circuit_output \<Rightarrow> base_state \<Rightarrow> light_client_circuit_output \<Rightarrow> bool" where
  "lc_extends C b out b' out' \<longleftrightarrow> lc_commitments C b \<subseteq>\<^sub>m lc_commitments C b' \<and> lc_transitions C b \<subseteq>\<^sub>m lc_transitions C b'
     \<and> follows (lc_transitions C b') (lo_l2_state_root out) (lo_last_l2_height out) (lo_last_sequencer_commitment_index out)
         (lo_l2_state_root out') (lo_last_l2_height out') (lo_last_sequencer_commitment_index out')"

lemma lc_extends_cong:
  assumes "\<forall>k \<in> K. b k = b' k" "lc_index_keys \<subseteq> K"
  shows "lc_extends C b0 o0 b out \<longleftrightarrow> lc_extends C b0 o0 b' out"
  unfolding lc_extends_def lc_views_cong [OF assms] ..

lemma lc_extends_trans:
  assumes "lc_extends C b1 o1 b2 o2" "lc_extends C b2 o2 b3 o3"
  shows "lc_extends C b1 o1 b3 o3"
proof -
  have "follows (lc_transitions C b3) (lo_l2_state_root o1) (lo_last_l2_height o1) (lo_last_sequencer_commitment_index o1)
      (lo_l2_state_root o3) (lo_last_l2_height o3) (lo_last_sequencer_commitment_index o3)"
    using assms follows_trans [OF follows_mono] unfolding lc_extends_def by blast
  moreover have "lc_commitments C b1 \<subseteq>\<^sub>m lc_commitments C b3" "lc_transitions C b1 \<subseteq>\<^sub>m lc_transitions C b3"
    using assms map_le_trans unfolding lc_extends_def by blast+
  ultimately show ?thesis
    unfolding lc_extends_def by simp
qed

lemma lc_extends_block:
  assumes "lc_codec_laws C" "lc_exec (l1_block_prog C P txs hash (Some prev)) b
     = Some ((lo_l2_state_root out, lo_last_l2_height out, lo_last_sequencer_commitment_index out), b')"
  shows "lc_extends C b prev b' out"
proof -
  have start: "lc_start P (Some prev) = (lo_l2_state_root prev, lo_last_l2_height prev, lo_last_sequencer_commitment_index prev)"
    by (simp add: lc_start_def)
  from l1_block_effect [OF assms(1) start assms(2)] obtain b1 where "lc_grows C P b1 b'"
    "lc_commitments C b1 = lc_commitments C b" "lc_transitions C b1 = lc_transitions C b"
    "follows (lc_transitions C b') (lo_l2_state_root prev) (lo_last_l2_height prev) (lo_last_sequencer_commitment_index prev)
      (lo_l2_state_root out) (lo_last_l2_height out) (lo_last_sequencer_commitment_index out)"
    by (elim exE conjE) (rule that)
  with lc_grows_le show ?thesis
    unfolding lc_extends_def by metis
qed

text \<open>A block keeps the relation; the first one establishes it on an empty state.\<close>

lemma lc_inv_block:
  assumes "lc_codec_laws C" "lp_initial_batch_proof_method_ids P \<noteq> []"
    and "lc_exec (l1_block_prog C P txs hash prev) b
       = Some ((lo_l2_state_root out, lo_last_l2_height out, lo_last_sequencer_commitment_index out), b')"
    and "case prev of None \<Rightarrow> b = (\<lambda>_. None) | Some o' \<Rightarrow> lc_inv C P b o'"
  shows "lc_inv C P b' out"
proof -
  let ?ini = "lp_initial_batch_proof_method_ids P"
  obtain root height i where start: "lc_start P prev = (root, height, i)"
    by (cases "lc_start P prev")
  from l1_block_effect [OF assms(1) start assms(3)] obtain b1 where
    grows: "lc_grows C P b1 b'" and b1: "lc_commitments C b1 = lc_commitments C b" "lc_transitions C b1 = lc_transitions C b"
    "lc_method_ids C b1 = (if prev = None then Some ?ini else lc_method_ids C b)" and
    fol: "follows (lc_transitions C b') root height i
      (lo_l2_state_root out) (lo_last_l2_height out) (lo_last_sequencer_commitment_index out)" and
    tip: "lc_transitions C b' (lo_last_sequencer_commitment_index out + 1) = None"
    by (elim exE conjE) (rule that)
  have "\<exists>new. lc_method_ids C b1 = Some (?ini @ new) \<and> approved_ids C P (fst (last ?ini)) new
      \<and> (\<forall>i v. lc_transitions C b1 i = Some v \<longrightarrow> justified C (lp_network P) (?ini @ new) (lc_commitments C b1) i v)
      \<and> follows (lc_transitions C b1) (lp_l2_genesis_root P) 0 0 root height i"
  proof (cases prev)
    case None
    with assms(4) start b1 show ?thesis
      by (intro exI [of _ "[]"]) (auto simp: lc_start_def lc_transitions_def intro: follows.intros)
  next
    case (Some o')
    with assms(4) start b1 show ?thesis
      by (simp add: lc_inv_def lc_start_def)
  qed
  then obtain new where new: "lc_method_ids C b1 = Some (?ini @ new)" "approved_ids C P (fst (last ?ini)) new"
    "\<forall>i v. lc_transitions C b1 i = Some v \<longrightarrow> justified C (lp_network P) (?ini @ new) (lc_commitments C b1) i v"
    "follows (lc_transitions C b1) (lp_l2_genesis_root P) 0 0 root height i"
    by (elim exE conjE) (rule that)
  from lc_grows_ids [OF grows new(1)] assms(2) obtain new' where
    new': "lc_method_ids C b' = Some ((?ini @ new) @ new')" "approved_ids C P (fst (last (?ini @ new))) new'"
    "\<forall>i v. lc_transitions C b' i = Some v \<longrightarrow> lc_transitions C b1 i = Some v
      \<or> justified C (lp_network P) ((?ini @ new) @ new') (lc_commitments C b') i v"
    by auto
  have "approved_ids C P (fst (last ?ini)) (new @ new')"
    using new(2) new'(2) by (auto simp: approved_ids_append last_append split: if_splits)
  moreover have "justified C (lp_network P) ((?ini @ new) @ new') (lc_commitments C b') i v" if "lc_transitions C b' i = Some v" for i v
    using new'(3) new(3) that justified_mono lc_grows_le(1) [OF grows] by metis
  moreover have "follows (lc_transitions C b') (lp_l2_genesis_root P) 0 0
      (lo_l2_state_root out) (lo_last_l2_height out) (lo_last_sequencer_commitment_index out)"
    using follows_trans [OF follows_mono [OF new(4) lc_grows_le(2) [OF grows]] fol] .
  ultimately show ?thesis
    using new'(1) tip unfolding lc_inv_def by (intro conjI exI [of _ "new @ new'"]) auto
qed

text \<open>The state the header rules start from when there is none: a constant of the network, or on regtest any parent.\<close>

fun da_start :: "network \<Rightarrow> header_wrapper \<Rightarrow> latest_da_state" where
  "da_start Mainnet h = INITIAL_MAINNET_STATE"
| "da_start Testnet h = INITIAL_TESTNET4_STATE"
| "da_start Devnet h = INITIAL_SIGNET_STATE"
| "da_start Nightly h = regtest_parent h"
| "da_start TestNetworkWithForks h = regtest_parent h"

lemma verify_header_chain_start: "verify_header_chain E None h net = verify_header_chain E (Some (da_start net h)) h net"
  by (cases net) (simp_all add: or_else_def)

lemma circuit_step_parts:
  assumes "circuit_step E S prefix C P B V K prev input out"
  obtains txs res x log w where
    "verify_header_chain E (map_option lo_latest_da_state prev) (li_da_block_header input) (lp_network P) = Some (Ok (lo_latest_da_state out))"
    "verify_transactions E S prefix (li_da_block_header input) (li_inclusion_proof input) (li_completeness_proof input) = Some (Ok txs)"
    "run_l1_block C P (zk_stf_storage B V) (li_witness input) txs (hw_hash (li_da_block_header input)) prev = Some res"
    "l1_block_run C P (zk_storage_ops B) (li_witness input) txs (hw_hash (li_da_block_header input)) prev = Some (x, log, w)"
    "log_keys log \<subseteq> K" "rl_l2_state_root res = lo_l2_state_root out" "rl_lcp_state_root res = lo_lcp_state_root out"
    "rl_last_l2_height res = lo_last_l2_height out"
    "rl_last_sequencer_commitment_index res = lo_last_sequencer_commitment_index out"
proof -
  from assms obtain txs res where a:
    "verify_header_chain E (map_option lo_latest_da_state prev) (li_da_block_header input) (lp_network P) = Some (Ok (lo_latest_da_state out))"
    "verify_transactions E S prefix (li_da_block_header input) (li_inclusion_proof input) (li_completeness_proof input) = Some (Ok txs)"
    "run_l1_block C P (zk_stf_storage B V) (li_witness input) txs (hw_hash (li_da_block_header input)) prev = Some res"
    "rl_l2_state_root res = lo_l2_state_root out" "rl_lcp_state_root res = lo_lcp_state_root out"
    "rl_last_l2_height res = lo_last_l2_height out"
    "rl_last_sequencer_commitment_index res = lo_last_sequencer_commitment_index out"
    unfolding circuit_step_def run_circuit_def by (auto simp: panic_simps)
  from a(3) obtain x log w where b:
    "l1_block_run C P (zk_storage_ops B) (li_witness input) txs (hw_hash (li_da_block_header input)) prev = Some (x, log, w)"
    by (auto simp: run_l1_block_def zk_stf_storage_def bind_is_Some)
  from assms a(2) b have "log_keys log \<subseteq> K"
    unfolding circuit_step_def by blast
  with that a b show thesis by blast
qed

lemma circuit_step_inv:
  assumes "lc_codec_laws C" "lp_initial_batch_proof_method_ids P \<noteq> []" "jmt_sound V root_of tree_get"
    and "inj_on (key_hash V) K" "lc_index_keys \<subseteq> K" "circuit_step E S prefix C P B V K prev input out"
    and "root_of t = (case prev of Some out \<Rightarrow> lo_lcp_state_root out | None \<Rightarrow> LCP_JMT_GENESIS_ROOT)"
    and "case prev of None \<Rightarrow> tree_get t = (\<lambda>_. None) | Some o' \<Rightarrow> lc_inv C P (state_of V tree_get t) o'"
  shows "\<exists>t'. root_of t' = lo_lcp_state_root out \<and> lc_inv C P (state_of V tree_get t') out
    \<and> (\<forall>o'. prev = Some o' \<longrightarrow> lc_extends C (state_of V tree_get t) o' (state_of V tree_get t') out)"
proof -
  from assms(6) obtain txs res x log w where
    run: "run_l1_block C P (zk_stf_storage B V) (li_witness input) txs (hw_hash (li_da_block_header input)) prev = Some res"
    "l1_block_run C P (zk_storage_ops B) (li_witness input) txs (hw_hash (li_da_block_header input)) prev = Some (x, log, w)"
    "log_keys log \<subseteq> K" and
    out: "rl_l2_state_root res = lo_l2_state_root out" "rl_lcp_state_root res = lo_lcp_state_root out"
    "rl_last_l2_height res = lo_last_l2_height out"
    "rl_last_sequencer_commitment_index res = lo_last_sequencer_commitment_index out"
    by (rule circuit_step_parts)
  from l1_block_sound [OF assms(3,7) run assms(4)] obtain t' b' where
    t': "lo_lcp_state_root out = root_of t'" and
    exec: "lc_exec (l1_block_prog C P txs (hw_hash (li_da_block_header input)) prev) (state_of V tree_get t)
      = Some ((lo_l2_state_root out, lo_last_l2_height out, lo_last_sequencer_commitment_index out), b')" and
    agree: "\<forall>k \<in> K. state_of V tree_get t' k = b' k"
    unfolding out by (elim exE conjE) (rule that)
  have "case prev of None \<Rightarrow> state_of V tree_get t = (\<lambda>_. None) | Some o' \<Rightarrow> lc_inv C P (state_of V tree_get t) o'"
    using assms(8) by (auto simp: state_of_def fun_eq_iff split: option.splits)
  from lc_inv_block [OF assms(1,2) exec this] have "lc_inv C P (state_of V tree_get t') out"
    unfolding lc_inv_cong [OF agree assms(5)] .
  moreover have "lc_extends C (state_of V tree_get t) o' (state_of V tree_get t') out" if "prev = Some o'" for o'
    using lc_extends_block [OF assms(1)] exec that unfolding lc_extends_cong [OF agree assms(5)] by simp
  ultimately show ?thesis
    using t' by (intro exI [of _ t']) simp
qed

text \<open>The trees behind the outputs of a run.\<close>

definition lc_history ::
  "lc_env \<Rightarrow> lc_params \<Rightarrow> ('t \<Rightarrow> hash32) \<Rightarrow> ('t \<Rightarrow> base_state) \<Rightarrow> ('t \<times> light_client_circuit_output) list \<Rightarrow> bool" where
  "lc_history C P root_of st ps \<longleftrightarrow> (\<forall>(t, out) \<in> set ps. root_of t = lo_lcp_state_root out \<and> lc_inv C P (st t) out)
     \<and> sorted_wrt (\<lambda>(t, out) (t', out'). lc_extends C (st t) out (st t') out') ps"

lemma lc_history_extend:
  assumes "lc_history C P root_of st (ps @ [(t, prev)])" "root_of t' = lo_lcp_state_root out" "lc_inv C P (st t') out"
    and "lc_extends C (st t) prev (st t') out"
  shows "lc_history C P root_of st (ps @ [(t, prev), (t', out)])"
  using assms unfolding lc_history_def by (auto simp: sorted_wrt_append intro: lc_extends_trans)

lemma circuit_runs_history:
  assumes "circuit_runs E S prefix C P B V K inputs outs"
    and "lc_codec_laws C" "lp_initial_batch_proof_method_ids P \<noteq> []" "jmt_sound V root_of tree_get"
    and "inj_on (key_hash V) K" "lc_index_keys \<subseteq> K" "root_of t0 = LCP_JMT_GENESIS_ROOT" "tree_get t0 = (\<lambda>_. None)"
  shows "\<exists>ts. length ts = length outs \<and> lc_history C P root_of (state_of V tree_get) (zip ts outs)"
  using assms(1)
proof (induction rule: circuit_runs.induct)
  case (first input out)
  from circuit_step_inv [OF assms(2-6) first, of t0] assms(7,8) obtain t where
    "root_of t = lo_lcp_state_root out" "lc_inv C P (state_of V tree_get t) out" by auto
  then show ?case
    by (intro exI [of _ "[t]"]) (simp add: lc_history_def)
next
  case (later inputs outs prev input out)
  then obtain ts' where ts': "length ts' = length (outs @ [prev])"
    "lc_history C P root_of (state_of V tree_get) (zip ts' (outs @ [prev]))" by blast
  then obtain ts t where ts: "ts' = ts @ [t]" "length ts = length outs"
    by (metis length_append_singleton length_Suc_conv_rev)
  with ts'(2) have hist: "lc_history C P root_of (state_of V tree_get) (zip ts outs @ [(t, prev)])" by simp
  then have t: "root_of t = lo_lcp_state_root prev" "lc_inv C P (state_of V tree_get t) prev"
    by (simp_all add: lc_history_def)
  from circuit_step_inv [OF assms(2-6) later(2), of t] t obtain t' where
    "root_of t' = lo_lcp_state_root out" "lc_inv C P (state_of V tree_get t') out"
    "lc_extends C (state_of V tree_get t) prev (state_of V tree_get t') out" by auto
  from lc_history_extend [OF hist this] ts(2) show ?case
    by (intro exI [of _ "ts @ [t, t']"]) simp
qed

lemma circuit_runs_headers:
  assumes "circuit_runs E S prefix C P B V K inputs outs"
  shows "inputs \<noteq> [] \<and> header_run E (lp_network P) (da_start (lp_network P) (li_da_block_header (hd inputs)))
    (map li_da_block_header inputs) (lo_latest_da_state (last outs))"
  using assms
proof (induction rule: circuit_runs.induct)
  case (first input out)
  then have "verify_header_chain E (Some (da_start (lp_network P) (li_da_block_header input))) (li_da_block_header input) (lp_network P)
      = Some (Ok (lo_latest_da_state out))"
    by (elim circuit_step_parts) (simp add: verify_header_chain_start)
  from header_run.extend [OF header_run.start this] show ?case by simp
next
  case (later inputs outs prev input out)
  from later(2) have "verify_header_chain E (Some (lo_latest_da_state prev)) (li_da_block_header input) (lp_network P)
      = Some (Ok (lo_latest_da_state out))"
    by (elim circuit_step_parts) simp
  with later(3) show ?case by (auto intro: header_run.extend)
qed

subsection \<open>The guest replays the prover\<close>

text \<open>A program on the provable state leaves the witness of the offchain state as it is.\<close>

lemma ws_get_offchain: "ws_get ws k = Some (v, ws') \<Longrightarrow> od_witness (ws_offchain ws') = od_witness (ws_offchain ws)"
  by (auto simp: ws_get_def bind_is_Some split: option.splits)

lemma ws_write_offchain:
  "od_witness (ws_offchain (ws_set ws k v)) = od_witness (ws_offchain ws)" "od_witness (ws_offchain (ws_delete ws k)) = od_witness (ws_offchain ws)"
  "od_witness (ws_offchain (offchain_set ws k v)) = od_witness (ws_offchain ws)"
  "od_witness (ws_offchain (offchain_delete ws k)) = od_witness (ws_offchain ws)"
  "od_witness (ws_offchain (accessory_set ws k v)) = od_witness (ws_offchain ws)"
  "od_witness (ws_offchain (accessory_delete ws k)) = od_witness (ws_offchain ws)"
  "od_witness (ws_offchain (to_revertable (ws_checkpoint ws))) = od_witness (ws_offchain ws)"
  by (auto simp: ws_set_def ws_delete_def offchain_set_def offchain_delete_def accessory_set_def accessory_delete_def od_set_def
      od_delete_def to_revertable_def ws_checkpoint_def od_commit_def split: option.splits)

lemma state_only_offchain:
  "state_only p \<Longrightarrow> run_prog p ws = Some (a, ws') \<Longrightarrow> od_witness (ws_offchain ws') = od_witness (ws_offchain ws)"
proof (induction p arbitrary: ws)
  case (GetState k f)
  then obtain v ws1 where "ws_get ws k = Some (v, ws1)" "run_prog (f v) ws1 = Some (a, ws')"
    by (auto split: option.splits)
  with GetState.IH [of "f v" ws1] GetState.prems(1) show ?case
    by (simp add: ws_get_offchain)
qed (auto simp: ws_write_offchain)

lemma prover_update_diff:
  "prover_compute_state_update B V T s log w False = Some (Ok (tr, u, d, w')) \<Longrightarrow>
   prover_compute_state_update B V T s log w True = Some (Ok (tr, u, iter_ordered_writes log, w'))"
  by (auto simp: prover_compute_state_update_def panic_simps diff_of_def split: if_splits)

lemma zk_update_no_diff:
  "zk_compute_state_update B V log w True = Some (Ok (tr, u, d, w')) \<Longrightarrow>
   zk_compute_state_update B V log w False = Some (Ok (tr, u, [], w'))"
  by (auto simp: zk_compute_state_update_def panic_simps diff_of_def)

lemma l1_block_run_iff:
  "l1_block_run C P ops w txs hash prev = Some (x, log, w1) \<longleftrightarrow>
   (\<exists>ws. run_prog (l1_block_prog C P txs hash prev) (ws_with_witness_and_log ops w [] empty_read_write_log empty_read_write_log)
      = Some (Some x, ws) \<and> frozen ws = (log, w1))"
  by (auto simp: l1_block_run_def frozen_def bind_is_Some case_prod_beta prod_eq_iff Let_def ws_with_empty_logs)

lemma run_l1_block_iff:
  "run_l1_block C P S w txs hash prev = Some res \<longleftrightarrow>
   (\<exists>log w1 tr u d. l1_block_run C P (ss_ops S) w txs hash prev =
        Some ((rl_l2_state_root res, rl_last_l2_height res, rl_last_sequencer_commitment_index res), log, w1)
      \<and> ss_compute_state_update S log w1 False = Some (Ok (tr, u, d, rl_witness res))
      \<and> init_root tr = (case prev of Some out \<Rightarrow> lo_lcp_state_root out | None \<Rightarrow> LCP_JMT_GENESIS_ROOT)
      \<and> rl_lcp_state_root res = final_root tr \<and> rl_change_set res = ss_commit S u [] empty_read_write_log)"
  by (cases res) (auto simp: run_l1_block_def panic_simps)

lemma light_client_replay:
  assumes "borsh_roundtrip B" "jmt_complete V T"
    and "run_l1_block C P (prover_stf_storage B V T s commit) [] txs hash prev = Some res"
  shows "run_l1_block C P (zk_stf_storage B V) (rl_witness res @ rest) txs hash prev =
    Some \<lparr> rl_l2_state_root = rl_l2_state_root res, rl_lcp_state_root = rl_lcp_state_root res,
      rl_last_l2_height = rl_last_l2_height res, rl_witness = rest, rl_change_set = (),
      rl_last_sequencer_commitment_index = rl_last_sequencer_commitment_index res \<rparr>"
proof -
  let ?p = "l1_block_prog C P txs hash prev" and ?e = "empty_read_write_log"
  let ?x = "(rl_l2_state_root res, rl_last_l2_height res, rl_last_sequencer_commitment_index res)"
  from assms(3) obtain log w1 tr u d ws where
    run: "run_prog ?p (ws_with_witness_and_log (prover_storage_ops B s) [] [] ?e ?e) = Some (Some ?x, ws)" "frozen ws = (log, w1)" and
    upd: "prover_compute_state_update B V T s log w1 False = Some (Ok (tr, u, d, rl_witness res))" and
    tr: "init_root tr = (case prev of Some out \<Rightarrow> lo_lcp_state_root out | None \<Rightarrow> LCP_JMT_GENESIS_ROOT)"
      "rl_lcp_state_root res = final_root tr"
    by (auto simp: run_l1_block_iff l1_block_run_iff prover_stf_storage_def)
  have "snd (frozen_offchain ws) = []"
    using state_only_offchain [OF state_only_l1_block run(1)] snd_frozen(2) [of ws]
    by (simp add: ws_with_witness_and_log_def cp_with_witness_and_log_def to_revertable_def od_with_witness_and_log_def)
  then obtain olog where "frozen_offchain ws = (olog, [])" by (cases "frozen_offchain ws") simp
  with run prover_update_diff [OF upd] have
    "native_block B V T s ?e ?e ?p = Some (Some ?x, tr, iter_ordered_writes log, log, olog, rl_witness res, [])"
    by (simp add: native_block_def)
  from block_replay [OF assms(1,2) this, of rest "[]"] obtain ws' w2 where
    zk: "run_prog ?p (ws_with_witness_and_log (zk_storage_ops B) (rl_witness res @ rest) [] ?e ?e) = Some (Some ?x, ws')"
    "frozen ws' = (log, w2)" "zk_compute_state_update B V log w2 True = Some (Ok (tr, (), iter_ordered_writes log, rest))"
    by (auto simp: zk_block_def panic_simps Let_def case_prod_beta prod_eq_iff split: prod.splits)
  from zk(1,2) zk_update_no_diff [OF zk(3)] tr show ?thesis
    by (subst run_l1_block_iff) (auto simp: l1_block_run_iff zk_stf_storage_def)
qed

end
