(* ===== verification/Light_Client_Progress.thy ===== *)
theory Light_Client_Progress
  imports Light_Client_Runs
begin

section \<open>The light client accepts what it should\<close>

text \<open>
  The converse of \<^verbatim>\<open>Light_Client_Chain\<close>: a proof that meets the conditions is accepted, its transitions are stored, and the loop over
  the transitions goes through them to the end, or stops the circuit where they do not start at the proved root.
\<close>

lemma exec_gets_Some:
  "lc_commitments C b i = Some c \<Longrightarrow> lc_exec (Commitment_get C i) b = Some (Some c, b)"
  "lc_method_ids C b = Some ids \<Longrightarrow> lc_exec (MethodIds_get C) b = Some (Some ids, b)"
  by (auto simp: Commitment_get_def MethodIds_get_def lc_simps lc_decode_def lc_commitments_def lc_method_ids_def
      bind_is_Some split: option.splits)

subsection \<open>The relation to the commitments\<close>

lemma check_commitments_complete:
  assumes "\<forall>j < length xs. \<exists>c. lc_commitments C b (fst (xs ! j)) = Some c
    \<and> serialize_and_calculate_sha_256 (lc_l2 C) c = snd (xs ! j)
    \<and> (of_nat (n + j) = snd (sequencer_commitment_index_range out) - fst (sequencer_commitment_index_range out) \<longrightarrow>
         sc_l2_end_block_number c = output_last_l2_height out)"
  shows "lc_exec (check_commitments C out n xs) b = Some (True, b)"
  using assms
proof (induction xs arbitrary: n)
  case (Cons x xs)
  obtain i h where x: "x = (i, h)" by force
  from Cons.prems x obtain c where c: "lc_commitments C b i = Some c" "serialize_and_calculate_sha_256 (lc_l2 C) c = h"
    "of_nat n = snd (sequencer_commitment_index_range out) - fst (sequencer_commitment_index_range out) \<longrightarrow>
       sc_l2_end_block_number c = output_last_l2_height out"
    by (auto simp: All_less_Suc2)
  have "lc_exec (check_commitments C out (n + 1) xs) b = Some (True, b)"
    using Cons.prems by (intro Cons.IH) (auto simp: All_less_Suc2 ac_simps)
  with c exec_gets_Some(1) [OF c(1)] show ?case
    by (auto simp: x lc_simps)
qed (simp add: lc_simps)

lemma last_turn:
  fixes f l :: u32
  assumes "unat (l - f + 1) = n" "k < n" "of_nat k = l - f"
  shows "k + 1 = n"
proof -
  have "n < 2 ^ 32"
    using unsigned_less [of "l - f + 1", where ?'a = nat] assms(1) by simp
  then have "unat (of_nat (k + 1) :: u32) = k + 1"
    using assms(2) by (intro unat_tx_count) simp
  moreover have "(of_nat (k + 1) :: u32) = l - f + 1"
    using assms(3) by simp
  ultimately show ?thesis
    using assms(1) by metis
qed

lemma relation_complete:
  assumes "output_related C (lc_commitments C b) out"
  shows "lc_exec (verify_batch_proof_seq_comm_relation C out) b = Some (True, b)"
proof -
  obtain f l where fl: "sequencer_commitment_index_range out = (f, l)" by force
  let ?hs = "sequencer_commitment_hashes out"
  have n: "unat (l - f + 1) = length ?hs"
    and each: "\<And>k. k < length ?hs \<Longrightarrow> k < length (u32_range f l) \<Longrightarrow> \<exists>c. lc_commitments C b (f + of_nat k) = Some c
      \<and> serialize_and_calculate_sha_256 (lc_l2 C) c = ?hs ! k
      \<and> (k + 1 = length ?hs \<longrightarrow> sc_l2_end_block_number c = output_last_l2_height out)"
    using assms by (auto simp: output_related_def fl)
  have "lc_exec (check_previous_commitment C out) b = Some (True, b)"
    using assms exec_gets_Some(1)
    by (fastforce simp: output_related_def check_previous_commitment_def fl lc_simps split: option.splits)
  moreover have "lc_exec (check_commitments C out 0 (zip (u32_range f l) ?hs)) b = Some (True, b)"
  proof (rule check_commitments_complete, intro allI impI)
    fix j assume j: "j < length (zip (u32_range f l) ?hs)"
    then have z: "zip (u32_range f l) ?hs ! j = (f + of_nat j, ?hs ! j)" "j < length ?hs" "j < length (u32_range f l)"
      using u32_range_nth [of j f l] by simp_all
    from each [OF z(2,3)] obtain c where "lc_commitments C b (f + of_nat j) = Some c"
      "serialize_and_calculate_sha_256 (lc_l2 C) c = ?hs ! j"
      "j + 1 = length ?hs \<longrightarrow> sc_l2_end_block_number c = output_last_l2_height out"
      by blast
    with last_turn [OF n z(2)] z(1) show "\<exists>c. lc_commitments C b (fst (zip (u32_range f l) ?hs ! j)) = Some c
        \<and> serialize_and_calculate_sha_256 (lc_l2 C) c = snd (zip (u32_range f l) ?hs ! j)
        \<and> (of_nat (0 + j) = snd (sequencer_commitment_index_range out) - fst (sequencer_commitment_index_range out)
            \<longrightarrow> sc_l2_end_block_number c = output_last_l2_height out)"
      by (intro exI [of _ c]) (simp add: fl)
  qed
  ultimately show ?thesis
    using n by (simp add: verify_batch_proof_seq_comm_relation_def lc_simps fl)
qed

subsection \<open>Storing\<close>

lemma transitions_decode_insert:
  "lc_codec_laws C \<Longrightarrow> transitions_decode C b \<Longrightarrow> transitions_decode C (b(transition_key i := Some (enc_transition C v)))"
  by (auto simp: transitions_decode_def tran.decodes dest: tran.key_inj)

lemma insert_transitions_complete:
  assumes "lc_codec_laws C"
  shows "transitions_decode C b \<Longrightarrow>
   (\<forall>j < length is. (\<exists>c. lc_commitments C b (is ! j) = Some c) \<and> n + j + 1 < length roots) \<Longrightarrow>
   \<exists>b'. lc_exec (insert_transitions C roots l n is) b = Some ((), b') \<and> transitions_decode C b'"
proof (induction "is" arbitrary: n b)
  case (Cons i "is")
  from Cons.prems(2) obtain c where c: "lc_commitments C b i = Some c" "n + 1 < length roots"
    by (auto simp: All_less_Suc2)
  note get = Transition_get_decoded [OF Cons.prems(1), of i]
  let ?v = "\<lparr> vt_initial_state_root = roots ! n, vt_final_state_root = roots ! (n + 1), vt_last_l2_height = sc_l2_end_block_number c \<rparr>"
  let ?b = "b(transition_key i := Some (enc_transition C ?v))"
  have rest: "\<exists>b'. lc_exec (insert_transitions C roots l (n + 1) is) b1 = Some ((), b') \<and> transitions_decode C b'"
    if "transitions_decode C b1" "lc_commitments C b1 = lc_commitments C b" for b1
    using Cons.prems(2) that by (intro Cons.IH) (auto simp: All_less_Suc2)
  from rest [OF Cons.prems(1) refl] obtain b1 where
    b1: "lc_exec (insert_transitions C roots l (n + 1) is) b = Some ((), b1)" "transitions_decode C b1" by blast
  from rest [of ?b, OF transitions_decode_insert [OF assms Cons.prems(1)]] obtain b2 where
    b2: "lc_exec (insert_transitions C roots l (n + 1) is) ?b = Some ((), b2)" "transitions_decode C b2" by auto
  show ?case
  proof (cases "i \<le> l \<or> lc_transitions C b i \<noteq> None")
    case True
    with b1 get show ?thesis
      by (intro exI [of _ b1]) (auto simp: lc_simps)
  next
    case False
    with b2 get exec_gets_Some(1) [OF c(1)] c(2) show ?thesis
      by (intro exI [of _ b2]) (simp add: lc_simps Transition_insert_def index_def)
  qed
qed (simp add: lc_simps)

lemma process_proof_complete:
  assumes "lc_codec_laws C" "transitions_decode C b" "proof_accepted C network b height l zkp out"
    and "length (output_state_roots out) = length (sequencer_commitment_hashes out) + 1" "sequencer_commitment_hashes out \<noteq> []" "output_indices out \<noteq> []"
  shows "\<exists>b'. lc_exec (process_complete_proof C network zkp height l) b = Some (Ok (), b')
    \<and> lc_exec (insert_transitions C (output_state_roots out) l 0 (output_indices out)) b = Some ((), b') \<and> transitions_decode C b'"
proof -
  obtain f e where fe: "sequencer_commitment_index_range out = (f, e)" by force
  let ?hs = "sequencer_commitment_hashes out"
  from assms(3) obtain ids journal mid where
    p: "lc_method_ids C b = Some ids" "lc_extract_raw_output C zkp = Some journal" "lc_deserialize_output C journal = Some out"
    "active_method_id ids (output_last_l2_height out) = Some mid" "lc_verify C zkp mid (network_to_dev_mode network)"
    "b (block_hash_key (last_l1_hash_on_bitcoin_light_client_contract out)) \<noteq> None"
    "output_related C (lc_commitments C b) out" "l < e" "height < output_last_l2_height out \<or> height = 0"
    unfolding proof_accepted_def verified_output_def fe snd_conv by (elim exE conjE) (rule that)
  have "unat (e - f + 1) = length ?hs"
    using p(7) by (auto simp: output_related_def fe)
  then have len: "length (output_indices out) = length ?hs" "output_indices out = u32_range f e"
    using u32_range_hashes assms(5,6) by (simp_all add: output_indices_def fe)
  have "(\<exists>c. lc_commitments C b (output_indices out ! j) = Some c) \<and> 0 + j + 1 < length (output_state_roots out)"
    if "j < length (output_indices out)" for j
    using p(7) that assms(4) len u32_range_nth [of j f e] unfolding output_related_def fe fst_conv snd_conv
    by (auto simp: len dest!: spec [of _ j])
  then obtain b' where b': "lc_exec (insert_transitions C (output_state_roots out) l 0 (output_indices out)) b = Some ((), b')"
    "transitions_decode C b'"
    using insert_transitions_complete [OF assms(1,2), of "output_indices out" 0] by blast
  have known: "lc_exec (BlockHash_exists (last_l1_hash_on_bitcoin_light_client_contract out)) b = Some (True, b)"
    using p(6) by (auto simp: BlockHash_exists_def lc_simps)
  have "lc_exec (process_complete_proof C network zkp height l) b = Some (Ok (), b')"
    using p(2-5,8,9) known exec_gets_Some(2) [OF p(1)] relation_complete [OF p(7)] b'(1)
    by (auto simp: process_complete_proof_def lc_simps fe output_indices_def)
  with b' show ?thesis by blast
qed

text \<open>The transitions of an accepted proof for indices that had none: each leads from one state root of the proof to the next.\<close>

lemma stored_at:
  assumes "stored_from cs roots l 0 (u32_range f e) (u32_range f e ! k) v" "k < length (u32_range f e)"
  shows "k + 1 < length roots \<and> vt_initial_state_root v = roots ! k \<and> vt_final_state_root v = roots ! (k + 1)
    \<and> (\<exists>c. cs (u32_range f e ! k) = Some c \<and> vt_last_l2_height v = sc_l2_end_block_number c)"
proof -
  from assms(1) obtain j c where j: "j < length (u32_range f e)" "u32_range f e ! j = u32_range f e ! k"
    "cs (u32_range f e ! k) = Some c" "index roots j = Some (vt_initial_state_root v)"
    "index roots (j + 1) = Some (vt_final_state_root v)" "vt_last_l2_height v = sc_l2_end_block_number c"
    unfolding stored_from_def by auto
  have "j = k"
    using j(1,2) assms(2) distinct_u32_range nth_eq_iff_index_eq by metis
  with j show ?thesis by auto
qed

lemma u32_range_outside:
  assumes "k < length (u32_range f e)" "l < f"
  shows "l < u32_range f e ! k" "u32_range f e ! k \<noteq> e + 1"
proof -
  have n: "unat (u32_range f e ! k) = unat f + k" "unat f + k \<le> unat e"
    using unat_u32_range [OF assms(1)] assms(1) by (simp_all add: length_u32_range)
  show l: "l < u32_range f e ! k"
    using assms(2) n by (simp add: word_less_nat_alt)
  show "u32_range f e ! k \<noteq> e + 1"
    using l n by (cases "e = - 1") (auto simp: unat_inc)
qed

lemma new_transitions:
  assumes "lc_codec_laws C" "lc_exec (insert_transitions C roots l 0 (u32_range f e)) b = Some ((), b')" "l < f"
    and "\<forall>i \<in> set (u32_range f e). lc_transitions C b i = None" "k < length (u32_range f e)"
  shows "\<exists>v c. lc_transitions C b' (u32_range f e ! k) = Some v \<and> vt_initial_state_root v = roots ! k
    \<and> vt_final_state_root v = roots ! (k + 1) \<and> lc_commitments C b (u32_range f e ! k) = Some c
    \<and> vt_last_l2_height v = sc_l2_end_block_number c"
proof -
  note eff = insert_transitions_effect [OF assms(1,2)]
  have mem: "u32_range f e ! k \<in> set (u32_range f e)"
    using assms(5) by simp
  then obtain v where v: "lc_transitions C b' (u32_range f e ! k) = Some v"
    using eff u32_range_outside(1) [OF assms(5,3)] by blast
  moreover have "lc_transitions C b (u32_range f e ! k) \<noteq> Some v"
    using assms(4) mem by simp
  ultimately have "stored_from (lc_commitments C b) roots l 0 (u32_range f e) (u32_range f e ! k) v"
    using eff by blast
  from stored_at [OF this assms(5)] v show ?thesis by blast
qed

lemma old_transition:
  assumes "lc_codec_laws C" "lc_exec (insert_transitions C roots l n is) b = Some ((), b')" "i \<notin> set is"
  shows "lc_transitions C b' i = lc_transitions C b i"
proof (cases "lc_transitions C b' i")
  case None
  then show ?thesis
    using insert_transitions_effect [OF assms(1,2)] by (metis option.exhaust)
next
  case (Some v)
  moreover have "\<not> stored_from cs roots l n is i v" for cs
    using assms(3) by (auto simp: stored_from_def)
  ultimately show ?thesis
    using insert_transitions_effect [OF assms(1,2)] by (metis option.exhaust)
qed

subsection \<open>The loop over the transitions\<close>

inductive_cases followsE: "follows T root height i root' height' i'"

lemma follows_stop: "follows T root height i r h j \<Longrightarrow> T (i + 1) = None \<Longrightarrow> r = root \<and> h = height \<and> j = i"
  by (erule followsE) simp_all

lemma follows_step: "follows T root height i r h j \<Longrightarrow> T (i + 1) = Some v \<Longrightarrow>
  (r = root \<and> h = height \<and> j = i) \<or> follows T (vt_final_state_root v) (vt_last_l2_height v) (i + 1) r h j"
  by (erule followsE) simp_all

lemma no_mismatch:
  "follows T root height i root' height' i' \<Longrightarrow> T (i' + 1) = None \<Longrightarrow> \<not> mismatch T root height i"
proof (induction rule: follows.induct)
  case (follows_end root height i)
  show ?case
  proof
    assume "mismatch T root height i"
    then obtain r h j w where w: "follows T root height i r h j" "T (j + 1) = Some w"
      unfolding mismatch_def by (elim exE conjE) (rule that)
    with follows_stop [OF w(1) follows_end] follows_end show False by simp
  qed
next
  case (follows_next i v root root' height' i' height)
  show ?case
  proof
    assume "mismatch T root height i"
    then obtain r h j w where w: "follows T root height i r h j" "T (j + 1) = Some w" "vt_initial_state_root w \<noteq> r"
      unfolding mismatch_def by (elim exE conjE) (rule that)
    from follows_step [OF w(1) follows_next(1)] have "mismatch T (vt_final_state_root v) (vt_last_l2_height v) (i + 1)"
    proof
      assume "r = root \<and> h = height \<and> j = i"
      with w follows_next(1,2) show ?thesis by simp
    next
      assume "follows T (vt_final_state_root v) (vt_last_l2_height v) (i + 1) r h j"
      with w(2,3) show ?thesis unfolding mismatch_def by (intro exI conjI)
    qed
    with follows_next.IH [OF follows_next.prems] show False by (rule notE)
  qed
qed

lemma follows_unique:
  "follows T root height i r1 h1 i1 \<Longrightarrow> T (i1 + 1) = None \<Longrightarrow> follows T root height i r2 h2 i2 \<Longrightarrow> T (i2 + 1) = None \<Longrightarrow>
   r2 = r1 \<and> h2 = h1 \<and> i2 = i1"
proof (induction rule: follows.induct)
  case (follows_end root height i)
  then show ?case
    by (intro follows_stop)
next
  case (follows_next i v root root' height' i' height)
  from follows_step [OF follows_next.prems(2) follows_next(1)] show ?case
  proof
    assume "r2 = root \<and> h2 = height \<and> i2 = i"
    with follows_next.prems(3) follows_next(1) show ?thesis by simp
  next
    assume "follows T (vt_final_state_root v) (vt_last_l2_height v) (i + 1) r2 h2 i2"
    from follows_next.IH [OF follows_next.prems(1) this follows_next.prems(3)] show ?thesis .
  qed
qed

lemma chain_transitions_complete:
  assumes "transitions_decode C b" "follows (lc_transitions C b) root height i root' height' i'" "lc_transitions C b (i' + 1) = None"
  shows "lc_exec (chain_transitions (2 ^ 32) C root height i) b = Some ((root', height', i'), b)"
proof -
  from chain_transitions_returns [OF assms(1,3) no_mismatch [OF assms(2,3)]] obtain r h j where
    run: "lc_exec (chain_transitions (2 ^ 32) C root height i) b = Some ((r, h, j), b)" by auto
  note f = chain_transitions_follows [OF run]
  then have "r = root' \<and> h = height' \<and> j = i'"
    by (intro follows_unique [OF assms(2,3)]) simp_all
  with run show ?thesis by simp
qed

lemma chain_transitions_stuck:
  assumes "transitions_decode C b" "lc_transitions C b (i + 1) = Some v" "vt_initial_state_root v \<noteq> root"
  shows "lc_exec (chain_transitions (2 ^ 32) C root height i) b = None"
  using assms(2,3) Transition_get_decoded [OF assms(1), of "i + 1"]
  by (subst chain_transitions.simps) (simp add: lc_simps)

subsection \<open>A block with a proof\<close>

lemma follows_roots:
  assumes "\<And>k. k < n \<Longrightarrow> \<exists>v. T (l + of_nat (k + 1)) = Some v \<and> vt_initial_state_root v = roots ! k
      \<and> vt_final_state_root v = roots ! (k + 1) \<and> (k + 1 = n \<longrightarrow> vt_last_l2_height v = last_height)"
    and "k < n"
  shows "follows T (roots ! k) height (l + of_nat k) (roots ! n) last_height (l + of_nat n)"
  using assms(2)
proof (induction "n - k" arbitrary: k height)
  case (Suc m)
  from assms(1) [OF Suc.prems] obtain v where v: "T (l + of_nat k + 1) = Some v" "vt_initial_state_root v = roots ! k"
    "vt_final_state_root v = roots ! (k + 1)" "k + 1 = n \<longrightarrow> vt_last_l2_height v = last_height"
    by (auto simp: ac_simps)
  have "follows T (roots ! (k + 1)) (vt_last_l2_height v) (l + of_nat (k + 1)) (roots ! n) last_height (l + of_nat n)"
  proof (cases "k + 1 = n")
    case True
    then show ?thesis
      using v(4) follows.follows_end by metis
  next
    case False
    then show ?thesis
      using Suc.hyps(2) Suc.prems by (intro Suc.hyps(1)) simp_all
  qed
  then have "follows T (vt_final_state_root v) (vt_last_l2_height v) (l + of_nat k + 1) (roots ! n) last_height (l + of_nat n)"
    using v(3) by (simp add: ac_simps)
  from follows.follows_next [of T, OF v(1,2) this] show ?case .
qed simp

text \<open>
  A proof for the commitments that come next: it meets the conditions of acceptance, has a state root more than commitments, and
  nothing is stored for its indices or the one after them.
\<close>

definition next_proof :: "lc_env \<Rightarrow> lc_params \<Rightarrow> base_state \<Rightarrow> u64 \<Rightarrow> u32 \<Rightarrow> bytes \<Rightarrow> batch_proof_circuit_output \<Rightarrow> bool" where
  "next_proof C P b height l zkp out \<longleftrightarrow> proof_accepted C (lp_network P) b height l zkp out
     \<and> length (output_state_roots out) = length (sequencer_commitment_hashes out) + 1 \<and> sequencer_commitment_hashes out \<noteq> []
     \<and> fst (sequencer_commitment_index_range out) = l + 1
     \<and> (\<forall>i \<in> set (output_indices out). lc_transitions C b i = None)
     \<and> lc_transitions C b (snd (sequencer_commitment_index_range out) + 1) = None"

lemma next_proof_transitions:
  assumes "lc_codec_laws C" "transitions_decode C b" "next_proof C P b height l zkp out"
  shows "\<exists>b'. lc_exec (process_complete_proof C (lp_network P) zkp height l) b = Some (Ok (), b') \<and> transitions_decode C b'
    \<and> follows (lc_transitions C b') (hd (output_state_roots out)) height l (last (output_state_roots out))
        (output_last_l2_height out) (snd (sequencer_commitment_index_range out))
    \<and> lc_transitions C b' (snd (sequencer_commitment_index_range out) + 1) = None
    \<and> (\<exists>v. lc_transitions C b' (l + 1) = Some v \<and> vt_initial_state_root v = hd (output_state_roots out))"
proof -
  obtain e where fe: "sequencer_commitment_index_range out = (l + 1, e)"
    using assms(3) by (cases "sequencer_commitment_index_range out") (simp add: next_proof_def)
  let ?hs = "sequencer_commitment_hashes out" and ?roots = "output_state_roots out" and ?is = "u32_range (l + 1) e"
  have acc: "proof_accepted C (lp_network P) b height l zkp out" "output_related C (lc_commitments C b) out" "l < e"
    and roots: "length ?roots = length ?hs + 1" "?hs \<noteq> []"
    and none: "\<forall>i \<in> set ?is. lc_transitions C b i = None" "lc_transitions C b (e + 1) = None"
    using assms(3) by (auto simp: next_proof_def proof_accepted_def fe output_indices_def)
  have rne: "?roots \<noteq> []"
    using roots(1) by auto
  have "l \<noteq> - 1"
    using acc(3) word_order.extremum_strict by metis
  then have suc: "unat (l + 1) = unat l + 1"
    by (simp add: unat_inc)
  then have l1: "l < l + 1"
    by (simp add: word_less_nat_alt)
  have ne: "?is \<noteq> []"
    using acc(3) suc by (simp add: u32_range_def word_less_nat_alt del: upt_Suc)
  have n: "unat (e - (l + 1) + 1) = length ?hs"
    using acc(2) by (auto simp: output_related_def fe)
  then have len: "length ?is = length ?hs"
    using u32_range_hashes ne roots(2) by simp
  from process_proof_complete [OF assms(1,2) acc(1) roots] ne obtain b' where
    run: "lc_exec (process_complete_proof C (lp_network P) zkp height l) b = Some (Ok (), b')"
    and ins: "lc_exec (insert_transitions C ?roots l 0 ?is) b = Some ((), b')" and dec: "transitions_decode C b'"
    by (auto simp: output_indices_def fe)
  have each: "\<exists>v. lc_transitions C b' (l + of_nat (k + 1)) = Some v \<and> vt_initial_state_root v = ?roots ! k
      \<and> vt_final_state_root v = ?roots ! (k + 1) \<and> (k + 1 = length ?hs \<longrightarrow> vt_last_l2_height v = output_last_l2_height out)"
    if k: "k < length ?hs" for k
  proof -
    have k': "k < length ?is" and i: "?is ! k = l + of_nat (k + 1)" "?is ! k = l + 1 + of_nat k"
      using k len u32_range_nth [of k "l + 1" e] by (simp_all add: ac_simps)
    from new_transitions [OF assms(1) ins l1 none(1) k'] obtain v c where
      v: "lc_transitions C b' (?is ! k) = Some v" "vt_initial_state_root v = ?roots ! k" "vt_final_state_root v = ?roots ! (k + 1)"
      "lc_commitments C b (?is ! k) = Some c" "vt_last_l2_height v = sc_l2_end_block_number c"
      by (elim exE conjE) (rule that)
    have "k + 1 = length ?hs \<longrightarrow> sc_l2_end_block_number c = output_last_l2_height out"
      using acc(2) k k' v(4) unfolding output_related_def fe fst_conv snd_conv i(2) by fastforce
    with v show ?thesis
      unfolding i(1) by (intro exI [of _ v]) simp
  qed
  have e: "l + of_nat (length ?hs) = e"
  proof -
    have "of_nat (length ?hs) = e - (l + 1) + 1"
      using n by (metis of_nat_unat ucast_id)
    then show ?thesis by (simp add: algebra_simps)
  qed
  have "follows (lc_transitions C b') (?roots ! 0) height (l + of_nat 0) (?roots ! length ?hs) (output_last_l2_height out)
      (l + of_nat (length ?hs))"
    using roots(2) by (intro follows_roots each) simp_all
  then have "follows (lc_transitions C b') (hd ?roots) height l (last ?roots) (output_last_l2_height out) e"
    using rne roots(1) by (simp add: e hd_conv_nth last_conv_nth)
  moreover have "e + 1 \<notin> set ?is"
    using u32_range_outside(2) [OF _ l1] by (metis in_set_conv_nth)
  then have "lc_transitions C b' (e + 1) = None"
    using old_transition [OF assms(1) ins] none(2) by simp
  moreover have "\<exists>v. lc_transitions C b' (l + 1) = Some v \<and> vt_initial_state_root v = hd ?roots"
    using each [of 0] roots(2) rne by (auto simp: hd_conv_nth)
  ultimately show ?thesis
    using run dec by (intro exI [of _ b']) (simp add: fe)
qed

text \<open>A transaction of the batch prover that carries the proof whole.\<close>

definition proof_blob :: "lc_env \<Rightarrow> lc_params \<Rightarrow> blob_with_sender \<Rightarrow> bytes \<Rightarrow> bool" where
  "proof_blob C P blob zkp \<longleftrightarrow> bw_sender blob = lp_batch_prover_da_public_key P
     \<and> (case dec_data (lc_codec C) (bw_blob blob) of Some (DaComplete body) \<Rightarrow> decompress_chunks C body = Some zkp | _ \<Rightarrow> False)"

lemma proof_blob_block:
  assumes "proof_blob C P blob zkp"
    and "lc_exec (process_complete_proof C (lp_network P) zkp (lo_last_l2_height prev) (lo_last_sequencer_commitment_index prev))
       (b(block_hash_key hash := Some [])) = Some (r, b')"
  shows "lc_exec (l1_block_prog C P [blob] hash (Some prev)) b = lc_exec (chain_transitions (2 ^ 32) C (lo_l2_state_root prev)
    (lo_last_l2_height prev) (lo_last_sequencer_commitment_index prev)) b'"
  using assms
  by (auto simp: proof_blob_def l1_block_prog_def lc_start_def BlockHash_insert_def process_compressed_proof_def lc_simps
      split: option.splits data_on_da.splits)

lemma transitions_decode_block_hash:
  "transitions_decode C b \<Longrightarrow> transitions_decode C (b(block_hash_key hash := x))"
  by (simp add: transitions_decode_def)

end
