(* ===== verification/Light_Client_Example.thy ===== *)
theory Light_Client_Example
  imports Light_Client_Progress
begin

section \<open>A light client to run\<close>

text \<open>
  Concrete functions for what the light client takes from other crates: an encoding of lists of numbers with its decoder, a
  tree of two states, and a proof system of one proof.
\<close>

subsection \<open>An encoding\<close>

fun pack_nats :: "nat list \<Rightarrow> bytes" where
  "pack_nats [] = []"
| "pack_nats (n # ns) = replicate n 1 @ 0 # pack_nats ns"

fun unpack_nats :: "nat \<Rightarrow> bytes \<Rightarrow> nat list" where
  "unpack_nats n [] = []"
| "unpack_nats n (b # bs) = (if b = 0 then n # unpack_nats 0 bs else unpack_nats (n + 1) bs)"

fun flat_lists :: "nat list list \<Rightarrow> nat list" where
  "flat_lists [] = []"
| "flat_lists (x # xs) = length x # x @ flat_lists xs"

function unflat_lists :: "nat list \<Rightarrow> nat list list" where
  "unflat_lists [] = []"
| "unflat_lists (n # xs) = take n xs # unflat_lists (drop n xs)"
  by pat_completeness auto
termination
  by (relation "measure length") auto

definition pack :: "nat list list \<Rightarrow> bytes" where
  "pack xs = pack_nats (flat_lists xs)"

definition unpack :: "bytes \<Rightarrow> nat list list" where
  "unpack bs = unflat_lists (unpack_nats 0 bs)"

definition nats_of :: "'a :: len word list \<Rightarrow> nat list" where
  "nats_of = map unat"

definition words_of :: "nat list \<Rightarrow> 'a :: len word list" where
  "words_of = map of_nat"

fun pairs_of :: "'a list \<Rightarrow> ('a \<times> 'a) list" where
  "pairs_of (x # y # xs) = (x, y) # pairs_of xs"
| "pairs_of _ = []"

definition pack_commitment :: "sequencer_commitment \<Rightarrow> nat list list" where
  "pack_commitment c = [nats_of [sc_index c], nats_of [sc_l2_end_block_number c], nats_of (sc_merkle_root c)]"

fun unpack_commitment :: "nat list list \<Rightarrow> sequencer_commitment option" where
  "unpack_commitment [[i], [e], m] = Some \<lparr> sc_merkle_root = words_of m, sc_index = of_nat i, sc_l2_end_block_number = of_nat e \<rparr>"
| "unpack_commitment _ = None"

definition pack_transition :: "verified_state_transition \<Rightarrow> bytes" where
  "pack_transition v = pack [nats_of (vt_initial_state_root v), nats_of (vt_final_state_root v), nats_of [vt_last_l2_height v]]"

fun unpack_transition :: "nat list list \<Rightarrow> verified_state_transition option" where
  "unpack_transition [a, b, [h]] =
     Some \<lparr> vt_initial_state_root = words_of a, vt_final_state_root = words_of b, vt_last_l2_height = of_nat h \<rparr>"
| "unpack_transition _ = None"

definition pack_method_ids :: "batch_proof_method_ids \<Rightarrow> bytes" where
  "pack_method_ids ids = pack (concat (map (\<lambda>(h, m). [nats_of [h], nats_of m]) ids))"

definition unpack_method_ids :: "nat list list \<Rightarrow> batch_proof_method_ids" where
  "unpack_method_ids xs = map (\<lambda>(h, m). (of_nat (hd h), words_of m)) (pairs_of xs)"

fun pack_data :: "data_on_da \<Rightarrow> nat list list" where
  "pack_data (DaComplete b) = [[0], nats_of b]"
| "pack_data (DaAggregate ts ws) = [1] # [length ts] # map nats_of ts @ map nats_of ws"
| "pack_data (DaChunk b) = [[2], nats_of b]"
| "pack_data (DaBatchProofMethodId m) = [3] # nats_of (mb_method_id (mi_body m)) # nats_of [mb_activation_l2_height (mi_body m)]
     # nats_of [mb_chain_id (mi_body m)] # concat (map (\<lambda>(s, i). [nats_of s, nats_of [i]]) (mi_signatures_with_index m))"
| "pack_data (DaSequencerCommitment c) = [4] # pack_commitment c"

fun unpack_data :: "nat list list \<Rightarrow> data_on_da option" where
  "unpack_data ([tag] # xs) =
     (if tag = 0 then (case xs of [b] \<Rightarrow> Some (DaComplete (words_of b)) | _ \<Rightarrow> None)
      else if tag = 1 then (case xs of [n] # ys \<Rightarrow> Some (DaAggregate (map words_of (take n ys)) (map words_of (drop n ys))) | _ \<Rightarrow> None)
      else if tag = 2 then (case xs of [b] \<Rightarrow> Some (DaChunk (words_of b)) | _ \<Rightarrow> None)
      else if tag = 3 then (case xs of
          m # [h] # [c] # ys \<Rightarrow> Some (DaBatchProofMethodId
            \<lparr> mi_body = \<lparr> mb_method_id = words_of m, mb_activation_l2_height = of_nat h, mb_chain_id = of_nat c \<rparr>,
              mi_signatures_with_index = map (\<lambda>(s, i). (words_of s, of_nat (hd i))) (pairs_of ys) \<rparr>)
        | _ \<Rightarrow> None)
      else map_option DaSequencerCommitment (unpack_commitment xs))"
| "unpack_data _ = None"

definition toy_codec :: da_codec where
  "toy_codec = \<lparr> enc_data = (\<lambda>d. pack (pack_data d)), dec_data = (\<lambda>b. unpack_data (unpack b)), brotli_write_all = Some,
     brotli_reads = (\<lambda>c. if c = [] then [] else [ReadInterrupted, ReadOk c]) \<rparr>"

definition toy_l2 :: l2_env where
  "toy_l2 = pad_l2_env \<lparr> borsh_commitment := \<lambda>c. pack (pack_commitment c) \<rparr>"

definition toy_commitment :: sequencer_commitment where
  "toy_commitment = \<lparr> sc_merkle_root = [1], sc_index = 1, sc_l2_end_block_number = 10 \<rparr>"

definition toy_output :: "hash32 \<Rightarrow> batch_proof_circuit_output" where
  "toy_output root = OutputV3 \<lparr> v3_state_roots = [root, [8]], v3_final_l2_block_hash = [6], v3_state_diff = [], v3_last_l2_height = 10,
     v3_sequencer_commitment_hashes = [serialize_and_calculate_sha_256 toy_l2 toy_commitment],
     v3_sequencer_commitment_index_range = (1, 1), v3_last_l1_hash_on_bitcoin_light_client_contract = [3],
     v3_previous_commitment_index = None, v3_previous_commitment_hash = None \<rparr>"

text \<open>One proof verifies, \<open>[root]\<close> for the root it starts at, under one method id; one member of the council, who signs with the message.\<close>

definition toy_lc :: lc_env where
  "toy_lc = \<lparr> lc_l2 = toy_l2, lc_codec = toy_codec, lc_extract_raw_output = Some,
     lc_deserialize_output = (\<lambda>j. Some (toy_output j)), lc_verify = (\<lambda>p m d. length p = 1 \<and> m = [5]),
     lc_verify_and_deserialize_output = (\<lambda>p m d. None), dec_commitment = (\<lambda>b. unpack_commitment (unpack b)),
     enc_transition = pack_transition, dec_transition = (\<lambda>b. unpack_transition (unpack b)),
     enc_method_ids = pack_method_ids, dec_method_ids = (\<lambda>b. Some (unpack_method_ids (unpack b))),
     serialize_method_id_body = (\<lambda>b. be_bytes 8 (mb_activation_l2_height b)), eip191_hash_message = id,
     verifying_key_from_sec1 = (\<lambda>k. length k = 1), ecdsa_signature_from_bytes = (\<lambda>s. s \<noteq> []),
     verify_prehash = (\<lambda>k h s. s = k @ h) \<rparr>"

definition toy_params :: lc_params where
  "toy_params = \<lparr> lp_network = Nightly, lp_l2_genesis_root = [7], lp_initial_batch_proof_method_ids = [(0, [5])],
     lp_batch_prover_da_public_key = [2], lp_sequencer_da_public_key = [3],
     lp_method_id_upgrade_authority_da_public_keys = [[10], [11], [12], [13], [14]] \<rparr>"

definition toy_da_state :: latest_da_state where
  "toy_da_state = \<lparr> block_hash = zeros 32, block_height = 1, total_work = zeros 32, current_target_bits = 0, epoch_start_time = 0,
     prev_11_timestamps = replicate 11 0 \<rparr>"

definition toy_prev :: light_client_circuit_output where
  "toy_prev = \<lparr> lo_l2_state_root = [7], lo_lcp_state_root = [1], lo_light_client_proof_method_id = [1],
     lo_latest_da_state = toy_da_state, lo_last_l2_height = 0, lo_last_sequencer_commitment_index = 0 \<rparr>"

definition toy_state :: base_state where
  "toy_state = (\<lambda>_. None)(commitment_key 1 := Some (borsh_commitment toy_l2 toy_commitment),
     method_ids_key := Some (pack_method_ids [(0, [5])]))"

definition toy_blob :: "hash32 \<Rightarrow> blob_with_sender" where
  "toy_blob root = blob_new (enc_data toy_codec (DaComplete root)) [2] (zeros 32) (zeros 32)"

lemma unpack_pack [simp]: "unpack (pack xs) = xs"
proof -
  have "unpack_nats n (replicate m 1 @ 0 # bs) = (n + m) # unpack_nats 0 bs" for n m bs
    by (induction m arbitrary: n) auto
  then have "unpack_nats 0 (pack_nats ns) = ns" for ns
    by (induction ns) simp_all
  moreover have "unflat_lists (flat_lists xs) = xs"
    by (induction xs) auto
  ultimately show ?thesis
    by (simp add: pack_def unpack_def)
qed

lemma words_nats [simp]: "words_of (nats_of xs) = xs"
  by (simp add: words_of_def nats_of_def comp_def)

lemma nats_of_single [simp]: "nats_of [w] = [unat w]"
  by (simp add: nats_of_def)

lemma unpack_pack_commitment: "unpack_commitment (pack_commitment c) = Some c"
  by (simp add: pack_commitment_def)

lemma unpack_pack_transition: "unpack_transition (unpack (pack_transition v)) = Some v"
  by (simp add: pack_transition_def)

lemma unpack_pack_method_ids: "unpack_method_ids (unpack (pack_method_ids ids)) = ids"
proof -
  have "map (\<lambda>(h, m). (of_nat (hd h), words_of m)) (pairs_of (concat (map (\<lambda>(h, m). [nats_of [h], nats_of m]) ids))) = ids"
    by (induction ids) auto
  then show ?thesis
    by (simp add: unpack_method_ids_def pack_method_ids_def)
qed

lemma unpack_pack_data: "unpack_data (pack_data d) = Some d"
proof (cases d)
  case (DaBatchProofMethodId m)
  have "map (\<lambda>(s, i). (words_of s, of_nat (hd i))) (pairs_of (concat (map (\<lambda>(s :: bytes, i :: u8). [nats_of s, nats_of [i]]) sigs))) = sigs" for sigs
    by (induction sigs) auto
  with DaBatchProofMethodId show ?thesis by simp
qed (simp_all add: unpack_pack_commitment comp_def)

lemma toy_lc_sel [simp]:
  "lc_l2 toy_lc = toy_l2" "lc_codec toy_lc = toy_codec" "enc_transition toy_lc = pack_transition" "enc_method_ids toy_lc = pack_method_ids"
  by (simp_all add: toy_lc_def)

lemma toy_laws: "lc_codec_laws toy_lc"
  by (simp add: lc_codec_laws_def toy_lc_def toy_l2_def unpack_pack_commitment unpack_pack_transition unpack_pack_method_ids)

lemma toy_codec_laws: "da_codec_laws toy_codec" "brotli_laws toy_codec"
  by (simp_all add: da_codec_laws_def brotli_laws_def toy_codec_def unpack_pack_data)

lemma toy_views:
  "lc_commitments toy_lc toy_state = [1 \<mapsto> toy_commitment]" "lc_transitions toy_lc toy_state = Map.empty"
  "lc_method_ids toy_lc toy_state = Some [(0, [5])]"
proof -
  have empty: "lc_commitments toy_lc (\<lambda>_. None) = Map.empty" "lc_transitions toy_lc (\<lambda>_. None) = Map.empty"
    by (simp_all add: lc_commitments_def lc_transitions_def fun_eq_iff)
  show "lc_commitments toy_lc toy_state = [1 \<mapsto> toy_commitment]" "lc_transitions toy_lc toy_state = Map.empty"
    "lc_method_ids toy_lc toy_state = Some [(0, [5])]"
    using lc_views_insert [OF toy_laws] by (simp_all add: toy_state_def empty)
qed

lemma toy_decodes: "transitions_decode toy_lc toy_state"
  by (simp add: transitions_decode_def toy_state_def)

lemma toy_decompress: "decompress_chunks toy_lc [r] = Some [r]"
  using decompress_compressed [OF toy_codec_laws(2), of "[r]" "[r]"]
  by (simp add: decompress_chunks_def compress_blob_def toy_codec_def MAX_DECOMPRESSED_BLOB_SIZE_def)

lemma toy_blob_proof: "proof_blob toy_lc toy_params (toy_blob [r]) [r]"
  using toy_codec_laws(1) toy_decompress by (simp add: proof_blob_def da_codec_laws_def toy_blob_def toy_params_def blob_new_def)

lemma toy_output_sel [simp]:
  "sequencer_commitment_index_range (toy_output root) = (1, 1)" "output_state_roots (toy_output root) = [root, [8]]"
  "sequencer_commitment_hashes (toy_output root) = [serialize_and_calculate_sha_256 toy_l2 toy_commitment]"
  "output_last_l2_height (toy_output root) = 10" "previous_commitment_index (toy_output root) = None"
  "last_l1_hash_on_bitcoin_light_client_contract (toy_output root) = [3]" "output_indices (toy_output root) = [1]"
  by (simp_all add: toy_output_def output_indices_def u32_range_def)

lemma toy_next: "next_proof toy_lc toy_params (toy_state(block_hash_key [3] := Some [])) 0 0 [r] (toy_output [r])"
  unfolding next_proof_def proof_accepted_def verified_output_def output_related_def lc_views_other toy_views
  by (simp add: toy_lc_def toy_commitment_def active_method_id_def index_def)

subsection \<open>A first block\<close>

definition toy_header :: header_wrapper where
  "toy_header = HeaderWrapper_new demo_env
     \<lparr> h_version = 1, h_prev_blockhash = zeros 32, h_merkle_root = 95 # zeros 31, h_time = 9, h_bits = 0x207FFFFF, h_nonce = 5 \<rparr>
     3 7 (209 # zeros 31)"

definition toy_batch :: key_batch where
  "toy_batch = [(block_hash_key (hw_hash toy_header), Some []), (method_ids_key, Some (pack_method_ids [(0, [5])]))]"

text \<open>A tree that is empty or holds what the first block writes.\<close>

definition toy_root :: "bool \<Rightarrow> hash32" where
  "toy_root t = (if t then [1] else LCP_JMT_GENESIS_ROOT)"

definition toy_get :: "bool \<Rightarrow> hash32 \<Rightarrow> storage_value option" where
  "toy_get t = (if t then apply_batch toy_batch (\<lambda>_. None) else (\<lambda>_. None))"

definition toy_verifier :: "(unit, unit) jmt_verifier" where
  "toy_verifier = \<lparr> key_hash = id, proof_verify = \<lambda>p r k v. r = LCP_JMT_GENESIS_ROOT \<and> v = None,
     verify_update = \<lambda>u r r' batch. r = LCP_JMT_GENESIS_ROOT \<and> r' = [1] \<and> batch = toy_batch \<rparr>"

definition toy_tree :: "(bool, unit, unit, unit) jmt_tree" where
  "toy_tree = \<lparr> get_root_hash_option = \<lambda>t _. Ok (Some (toy_root t)), put_empty = \<lambda>t _. Some t,
     get_root_hash = \<lambda>t _. Some (toy_root t), get_with_proof = \<lambda>t k _. if t then Err ProofInvalid else Ok (None, ()),
     put_value_set_with_proof = \<lambda>t batch _. if t \<or> batch \<noteq> toy_batch then None else Some ([1], (), ()) \<rparr>"

definition toy_storage :: "bool prover_storage" where
  "toy_storage = \<lparr> ps_read_state = \<lambda>_ k. Some None, ps_read_native = \<lambda>_ _. Some None,
     ps_tree = False, ps_init_version = 1, ps_version = 1, ps_committable = True \<rparr>"

lemma genesis_root_other: "LCP_JMT_GENESIS_ROOT \<noteq> [1]" "[1] \<noteq> LCP_JMT_GENESIS_ROOT"
  by (simp_all add: LCP_JMT_GENESIS_ROOT_def)

lemma toy_sound: "jmt_sound toy_verifier toy_root toy_get"
  by (auto simp: jmt_sound_def toy_verifier_def toy_root_def toy_get_def genesis_root_other intro: exI [of _ True])

lemma toy_complete: "jmt_complete toy_verifier toy_tree"
  by (auto simp: jmt_complete_def toy_verifier_def toy_tree_def toy_root_def split: if_splits)

lemma toy_keys: "inj_on (key_hash toy_verifier) A"
  by (simp add: toy_verifier_def)

lemma toy_header_ok:
  "verify_header_chain demo_env None toy_header Nightly = Some (Ok
     \<lparr> block_hash = hw_hash toy_header, block_height = 7, total_work = zeros 32, current_target_bits = 0x207FFFFF, epoch_start_time = 0,
       prev_11_timestamps = (replicate 11 0)[7 := 9] \<rparr>)"
  by code_simp

lemma toy_blobs: "verify_transactions demo_env demo_scripts [49] toy_header demo_incl [demo_chunk_tx] = Some (Ok [demo_blob])"
  by code_simp

lemma demo_blob_no_data: "dec_data toy_codec (bw_blob demo_blob) = None"
  by (simp add: toy_codec_def demo_blob_def blob_new_def unpack_def)

lemma run_lc_bind:
  "run_prog (lc_bind p f) ws = (case run_prog p ws of None \<Rightarrow> None | Some (None, ws') \<Rightarrow> Some (None, ws') | Some (Some a, ws') \<Rightarrow> run_prog (f a) ws')"
  by (auto simp: lc_bind_def run_prog_bind split: option.splits)

lemmas toy_run_defs = run_lc_bind l1_block_prog_def lc_start_def BlockHash_insert_def MethodIds_initialize_def MethodIds_get_def
  Transition_get_def unwrap_or_default_def lc_return_def lc_read_def lc_write_def lc_decode_def demo_blob_no_data toy_params_def
  chain_transitions.simps [of 4294967296]

lemma toy_native:
  "\<exists>res. run_l1_block toy_lc toy_params (prover_stf_storage tag_borsh toy_verifier toy_tree toy_storage (\<lambda>_ _ _. ())) []
      [demo_blob] (hw_hash toy_header) None = Some res
    \<and> rl_l2_state_root res = [7] \<and> rl_lcp_state_root res = [1] \<and> rl_last_l2_height res = 0
    \<and> rl_last_sequencer_commitment_index res = 0"
proof -
  have keys: "block_hash_key h < method_ids_key" "\<not> method_ids_key < block_hash_key h" "block_hash_key h \<noteq> method_ids_key"
    "method_ids_key \<noteq> block_hash_key h" "transition_key 1 \<noteq> method_ids_key" "transition_key 1 \<noteq> block_hash_key h" "block_hash_key h \<noteq> transition_key 1"
    "\<not> transition_key 1 < method_ids_key" "\<not> transition_key 1 < block_hash_key h" for h
    by (simp_all add: lc_key_defs)
  show ?thesis
    by (simp add: run_l1_block_def l1_block_run_def prover_stf_storage_def ws_with_empty_logs toy_run_defs block_defs keys
      tag_borsh_def empty_read_write_log_def toy_storage_def toy_tree_def toy_verifier_def toy_root_def toy_batch_def)
qed

text \<open>The circuit's input for the block, with the hints of the native run.\<close>

definition toy_input :: "storage_witness \<Rightarrow> light_client_circuit_input" where
  "toy_input w = \<lparr> li_previous_light_client_proof = None, li_light_client_proof_method_id = [1], li_da_block_header = toy_header,
     li_inclusion_proof = demo_incl, li_completeness_proof = [demo_chunk_tx], li_witness = w \<rparr>"

lemma toy_network: "lp_network toy_params = Nightly"
  by (simp add: toy_params_def)

lemma toy_run:
  "\<exists>w out. circuit_runs demo_env demo_scripts [49] toy_lc toy_params tag_borsh toy_verifier UNIV [toy_input w] [out]
     \<and> lo_l2_state_root out = [7]"
proof -
  from toy_native obtain res where
    nat: "run_l1_block toy_lc toy_params (prover_stf_storage tag_borsh toy_verifier toy_tree toy_storage (\<lambda>_ _ _. ())) []
      [demo_blob] (hw_hash toy_header) None = Some res" "rl_l2_state_root res = [7]" by blast
  note zk = light_client_replay [OF tag_borsh_roundtrip toy_complete nat(1), of "[]"]
  from zk obtain out where out: "run_circuit demo_env demo_scripts [49] toy_lc toy_params (zk_stf_storage tag_borsh toy_verifier)
      (toy_input (rl_witness res)) = Some (Ok out)" "lo_l2_state_root out = [7]"
    using nat(2) by (simp add: run_circuit_def toy_input_def previous_output_def toy_header_ok toy_blobs toy_network del: verify_header_chain.simps)
  then have "circuit_step demo_env demo_scripts [49] toy_lc toy_params tag_borsh toy_verifier UNIV None (toy_input (rl_witness res)) out"
    by (simp add: circuit_step_def toy_input_def previous_output_def)
  with out(2) show ?thesis
    by (intro exI [of _ "rl_witness res"] exI [of _ out]) (simp add: circuit_runs.first)
qed

end
