(* ===== verification/Light_Client_Correct.thy ===== *)
theory Light_Client_Correct
  imports Light_Client_Example
begin

section \<open>The light client is right\<close>

text \<open>
  The properties of the light client: what its outputs say, who decides on the method ids, that it takes the proofs
  it should, and that a proof comes out of the inscriptions the prover sends it in.
\<close>

subsection \<open>The council\<close>

lemma ascending_sorted: "ascending xs \<longleftrightarrow> sorted_wrt (<) xs"
proof (induction xs rule: ascending.induct)
  case (1 x y r)
  have "sorted_wrt (<) (x # y # r) \<longleftrightarrow> x < y \<and> sorted_wrt (<) (y # r)"
    by (auto simp: sorted_wrt.simps(2) intro: less_trans)
  with 1 show ?case by (auto simp: not_le)
qed simp_all

lemma verify_council_signatures_True:
  "verify_council_signatures C keys h sigs = Some True \<longleftrightarrow> (\<forall>(s, i) \<in> set sigs. unat i < length keys
     \<and> verifying_key_from_sec1 C (keys ! unat i) \<and> ecdsa_signature_from_bytes C s \<and> verify_prehash C (keys ! unat i) h s)"
  by (induction C keys h sigs rule: verify_council_signatures.induct) (auto simp: panic_simps)

lemma sorted_card: "sorted_wrt (<) (xs :: 'a :: linorder list) \<Longrightarrow> card (set xs) = length xs"
  by (simp add: strict_sorted_iff distinct_card)

subsection \<open>Chunks\<close>

text \<open>The state after the chunks of a proof have been stored.\<close>

definition store_chunks :: "(hash32 \<times> bytes) list \<Rightarrow> base_state \<Rightarrow> base_state" where
  "store_chunks cs b = fold (\<lambda>(w, c) b. b(chunk_key w := Some c)) cs b"

lemma store_chunks_simps [simp]:
  "store_chunks [] b = b" "store_chunks ((w, c) # cs) b = store_chunks cs (b(chunk_key w := Some c))"
  by (simp_all add: store_chunks_def)

lemma store_chunks_other: "w \<notin> fst ` set cs \<Longrightarrow> store_chunks cs b (chunk_key w) = b (chunk_key w)"
  by (induction cs arbitrary: b) (auto dest: chnk.key_inj)

lemma store_chunks_get: "distinct (map fst cs) \<Longrightarrow> (w, c) \<in> set cs \<Longrightarrow> store_chunks cs b (chunk_key w) = Some c"
  by (induction cs arbitrary: b) (auto simp: store_chunks_other)

lemma store_chunks_views:
  "lc_commitments C (store_chunks cs b) = lc_commitments C b" "lc_transitions C (store_chunks cs b) = lc_transitions C b"
  "lc_method_ids C (store_chunks cs b) = lc_method_ids C b"
  by (induction cs arbitrary: b) auto

lemma collect_chunks_all:
  assumes "\<forall>(w, c) \<in> set cs. b (chunk_key w) = Some c" "length acc + length (concat (map snd cs)) \<le> MAX_COMPRESSED_BLOB_SIZE"
  shows "lc_exec (collect_chunks acc (map fst cs)) b = Some (Some (acc @ concat (map snd cs)), b)"
  using assms by (induction cs arbitrary: acc) (auto simp: Chunk_get_def lc_simps)

lemma collect_chunks_bound:
  "lc_exec (collect_chunks acc ws) b = Some (Some x, b') \<Longrightarrow> length acc \<le> MAX_COMPRESSED_BLOB_SIZE \<Longrightarrow>
   length x \<le> MAX_COMPRESSED_BLOB_SIZE"
  by (induction acc ws rule: collect_chunks.induct)
    (auto simp: Chunk_get_def lc_simps split: if_splits option.splits)

lemma process_blobs_append:
  "lc_exec (process_blobs C P h l (xs @ ys)) b = Option.bind (lc_exec (process_blobs C P h l xs) b) (\<lambda>(_, b'). lc_exec (process_blobs C P h l ys) b')"
  by (induction C P h l xs arbitrary: b rule: process_blobs.induct) (auto simp: lc_simps case_prod_beta intro: Option.bind_cong)

lemma process_chunk_blobs:
  assumes "list_all2 (\<lambda>blob (w, c). bw_wtxid blob = w \<and> dec_data (lc_codec C) (bw_blob blob) = Some (DaChunk c)) blobs cs"
  shows "lc_exec (process_blobs C P h l blobs) b = Some ((), store_chunks cs b)"
  using assms by (induction arbitrary: b) (auto simp: lc_simps Chunk_insert_def)

text \<open>
  A proof as it is found on the data availability layer: whole, or in chunks that are followed by an aggregate of their
  transactions' ids, which together are what \<^const>\<open>split_proof\<close> made of it.
\<close>

definition proof_inscribed :: "lc_env \<Rightarrow> lc_params \<Rightarrow> bytes \<Rightarrow> blob_with_sender list \<Rightarrow> blob_with_sender \<Rightarrow> bool" where
  "proof_inscribed C P zkp chunk_blobs blob \<longleftrightarrow> bw_sender blob = lp_batch_prover_da_public_key P \<and>
     (case split_proof (lc_codec C) zkp of
        Inr (RawComplete body) \<Rightarrow> chunk_blobs = [] \<and> bw_blob blob = body
      | Inr (RawChunks bodies) \<Rightarrow> map bw_blob chunk_blobs = bodies \<and> distinct (map bw_wtxid chunk_blobs)
          \<and> (\<exists>txids. bw_blob blob = enc_data (lc_codec C) (DaAggregate txids (map bw_wtxid chunk_blobs)))
      | _ \<Rightarrow> False)"

lemma list_all2_chunk_blobs:
  "da_codec_laws D \<Longrightarrow> map bw_blob blobs = map (\<lambda>c. enc_data D (DaChunk c)) cs \<Longrightarrow>
   list_all2 (\<lambda>blob (w, c). bw_wtxid blob = w \<and> dec_data D (bw_blob blob) = Some (DaChunk c)) blobs (zip (map bw_wtxid blobs) cs)"
  by (induction blobs arbitrary: cs) (auto simp: da_codec_laws_def)

lemma proof_inscribed_process:
  assumes "da_codec_laws (lc_codec C)" "brotli_laws (lc_codec C)" "proof_inscribed C P zkp chunk_blobs blob"
    and "length zkp \<le> MAX_DECOMPRESSED_BLOB_SIZE"
    and "\<forall>c. compress_blob (lc_codec C) zkp = Some c \<longrightarrow> length c \<le> MAX_COMPRESSED_BLOB_SIZE"
  shows "\<exists>cs. lc_exec (process_blobs C P h l (chunk_blobs @ [blob])) b =
    map_option (\<lambda>(_, b'). ((), b')) (lc_exec (process_complete_proof C (lp_network P) zkp h l) (store_chunks cs b))"
proof -
  let ?D = "lc_codec C"
  from assms(3) obtain c where c: "compress_blob ?D zkp = Some c"
    by (auto simp: proof_inscribed_def split_proof_def split: option.splits)
  have dec: "decompress_chunks C c = Some zkp"
    using decompress_compressed [OF assms(2) c] assms(4) by (simp add: decompress_chunks_def)
  show ?thesis
  proof (cases "length c < MAX_TX_BODY_SIZE")
    case True
    with assms(1,3) c have "chunk_blobs = []" "dec_data ?D (bw_blob blob) = Some (DaComplete c)"
      "bw_sender blob = lp_batch_prover_da_public_key P"
      by (auto simp: proof_inscribed_def split_proof_def da_codec_laws_def)
    then show ?thesis
      by (intro exI [of _ "[]"]) (simp add: process_compressed_proof_def dec lc_simps map_option_case case_prod_beta split: option.splits)
  next
    case False
    let ?cs = "chunks MAX_TX_BODY_SIZE c" and ?ws = "map bw_wtxid chunk_blobs"
    from False assms(3) c have blobs: "map bw_blob chunk_blobs = map (\<lambda>c. enc_data ?D (DaChunk c)) ?cs"
      "distinct ?ws" "bw_sender blob = lp_batch_prover_da_public_key P"
      by (auto simp: proof_inscribed_def split_proof_def)
    from False assms(1,3) c obtain txids where agg: "dec_data ?D (bw_blob blob) = Some (DaAggregate txids ?ws)"
      by (auto simp: proof_inscribed_def split_proof_def da_codec_laws_def)
    have len: "length ?cs = length ?ws"
      using blobs(1) by (metis length_map)
    let ?st = "store_chunks (zip ?ws ?cs) b"
    have "\<forall>(w, x) \<in> set (zip ?ws ?cs). ?st (chunk_key w) = Some x"
      using blobs(2) len by (auto intro!: store_chunks_get)
    then have "lc_exec (collect_chunks [] ?ws) ?st = Some (Some c, ?st)"
      using collect_chunks_all [of "zip ?ws ?cs" ?st "[]"] assms(5) c len by (simp add: concat_chunks MAX_TX_BODY_SIZE_def)
    with agg blobs(3) process_chunk_blobs [OF list_all2_chunk_blobs [OF assms(1) blobs(1)]] show ?thesis
      by (intro exI [of _ "zip ?ws ?cs"])
        (simp add: process_blobs_append process_compressed_proof_def dec lc_simps map_option_case case_prod_beta split: option.splits)
  qed
qed

subsection \<open>The properties\<close>

text \<open>C2: What the outputs of the light client say. Let the circuit run on one L1 block after another, each run on the output of the one before and
  the first on none. Then the headers pass the rules of the network one after another and the last output names the last block;
  and behind the outputs there are trees, with the roots they name, such that in each: the method ids are the network's initial ones followed by
  ids of increasing height that the security council signed; every stored transition comes from a batch proof that verified
  under the method id of its height, whose commitments are those stored from the sequencer and whose state roots at the
  commitment are those of the transition; and the L2 state root is reached from the genesis root by the transitions of the commitments
  \<open>1, 2, \<dots>\<close> up to the last one, which has no successor. A later tree keeps every commitment and transition of an earlier one, and
  its output is reached from the earlier output. This holds whatever the hints of the prover are.\<close>

theorem light_client_chain:
  assumes "circuit_runs E S prefix C P B V K inputs outs" "lc_codec_laws C" "lp_initial_batch_proof_method_ids P \<noteq> []"
    and "jmt_sound V root_of tree_get" "root_of t0 = LCP_JMT_GENESIS_ROOT" "tree_get t0 = (\<lambda>_. None)"
    and "inj_on (key_hash V) K" "lc_index_keys \<subseteq> K"
  shows "header_run E (lp_network P) (da_start (lp_network P) (li_da_block_header (hd inputs))) (map li_da_block_header inputs)
      (lo_latest_da_state (last outs))
    \<and> (\<exists>ts. length ts = length outs \<and> lc_history C P root_of (state_of V tree_get) (zip ts outs))"
  using circuit_runs_headers [OF assms(1)] circuit_runs_history [OF assms(1-4,7,8,5,6)] by simp

theorem light_client_chain_witness:
  "\<exists>w out ts. circuit_runs demo_env demo_scripts [49] toy_lc toy_params tag_borsh toy_verifier UNIV [toy_input w] [out]
     \<and> length ts = 1 \<and> lc_history toy_lc toy_params toy_root (state_of toy_verifier toy_get) (zip ts [out])"
proof -
  obtain w out where run: "circuit_runs demo_env demo_scripts [49] toy_lc toy_params tag_borsh toy_verifier UNIV [toy_input w] [out]"
    using toy_run by blast
  have "lp_initial_batch_proof_method_ids toy_params \<noteq> []" "toy_root False = LCP_JMT_GENESIS_ROOT" "toy_get False = (\<lambda>_. None)"
    by (simp_all add: toy_params_def toy_root_def toy_get_def)
  from light_client_chain [OF run toy_laws this(1) toy_sound this(2,3) toy_keys] obtain ts where
    "length ts = 1" "lc_history toy_lc toy_params toy_root (state_of toy_verifier toy_get) (zip ts [out])"
    by auto
  with run show ?thesis by blast
qed

text \<open>C10: The quorum of the security council. With five valid keys, the check of a new method id's signatures never panics, and it answers true
  exactly if the indices of the signers increase strictly below five and each signature is valid for the key of its
  index and the hash of the message; three signatures are then of three members.\<close>

theorem security_council_quorum:
  assumes "length keys = SECURITY_COUNCIL_MEMBER_COUNT" "list_all (verifying_key_from_sec1 C) keys"
    and "length sigs = SECURITY_COUNCIL_SIGNATURE_THRESHOLD"
  shows "verify_method_id_security_council C keys msg sigs = Some (card (set (map snd sigs)) = 3 \<and> sorted (map snd sigs)
    \<and> list_all (\<lambda>(s, i). unat i < 5 \<and> ecdsa_signature_from_bytes C s \<and> verify_prehash C (keys ! unat i) (eip191_hash_message C msg) s) sigs)"
proof -
  have valid: "n < length keys" "verifying_key_from_sec1 C (keys ! n)" if "n < 5" for n
    using assms(1,2) that by (simp_all add: SECURITY_COUNCIL_MEMBER_COUNT_def list_all_length)
  have fin: "verify_council_signatures C keys h sigs = Some (list_all (\<lambda>(s, i). ecdsa_signature_from_bytes C s
      \<and> verify_prehash C (keys ! unat i) h s) sigs)"
    if "list_all (\<lambda>(_, i). i < 5) sigs" for h sigs
    using that by (induction sigs) (auto simp: index_def valid word_less_nat_alt)
  have "ascending (map snd sigs) \<longleftrightarrow> sorted (map snd sigs) \<and> card (set (map snd sigs)) = 3"
    using assms(3) card_distinct [of "map snd sigs"] distinct_card [of "map snd sigs"]
    by (auto simp: ascending_sorted strict_sorted_iff SECURITY_COUNCIL_SIGNATURE_THRESHOLD_def)
  with fin [of sigs] show ?thesis
    by (auto simp: verify_method_id_security_council_def Let_def list_all_iff word_less_nat_alt)
qed

theorem security_council_quorum_witness:
  "verify_method_id_security_council toy_lc [[10], [11], [12], [13], [14]] [6] [([10, 6], 0), ([12, 6], 2), ([14, 6], 4)] = Some True
   \<and> verify_method_id_security_council toy_lc [[10], [11], [12], [13], [14]] [6] [([10, 6], 0), ([12, 6], 2), ([12, 6], 2)] = Some False"
proof -
  let ?k = "[[10], [11], [12], [13], [14]] :: bytes list"
  have k: "length ?k = SECURITY_COUNCIL_MEMBER_COUNT" "list_all (verifying_key_from_sec1 toy_lc) ?k"
    by (simp_all add: SECURITY_COUNCIL_MEMBER_COUNT_def toy_lc_def)
  from security_council_quorum [OF k, of "[([10, 6], 0), ([12, 6], 2), ([14, 6], 4)]" "[6]"]
    security_council_quorum [OF k, of "[([10, 6], 0), ([12, 6], 2), ([12, 6], 2)]" "[6]"]
  show ?thesis
    by (simp add: SECURITY_COUNCIL_SIGNATURE_THRESHOLD_def toy_lc_def)
qed

text \<open>C7: The light client advances. A block after an output, whose one relevant transaction is a batch proof for the commitments that come
  next and that starts at the proved state root, makes the circuit return: at the last state root, the last height and the last
  commitment of the proof.\<close>

theorem next_proof_advances:
  assumes "lc_codec_laws C" "transitions_decode C b" "proof_blob C P blob zkp"
    and "next_proof C P (b(block_hash_key hash := Some [])) (lo_last_l2_height prev) (lo_last_sequencer_commitment_index prev) zkp out"
    and "hd (output_state_roots out) = lo_l2_state_root prev"
  shows "\<exists>b'. lc_exec (l1_block_prog C P [blob] hash (Some prev)) b = Some ((last (output_state_roots out),
    output_last_l2_height out, snd (sequencer_commitment_index_range out)), b')"
proof -
  from next_proof_transitions [OF assms(1) transitions_decode_block_hash [OF assms(2)] assms(4)] obtain b' where
    run: "lc_exec (process_complete_proof C (lp_network P) zkp (lo_last_l2_height prev) (lo_last_sequencer_commitment_index prev))
      (b(block_hash_key hash := Some [])) = Some (Ok (), b')" and dec: "transitions_decode C b'" and
    fol: "follows (lc_transitions C b') (hd (output_state_roots out)) (lo_last_l2_height prev) (lo_last_sequencer_commitment_index prev)
      (last (output_state_roots out)) (output_last_l2_height out) (snd (sequencer_commitment_index_range out))"
    "lc_transitions C b' (snd (sequencer_commitment_index_range out) + 1) = None"
    by (elim exE conjE) (rule that)
  from chain_transitions_complete [OF dec fol] show ?thesis
    unfolding proof_blob_block [OF assms(3) run] assms(5) by blast
qed

theorem next_proof_advances_witness:
  "\<exists>b'. lc_exec (l1_block_prog toy_lc toy_params [toy_blob [7]] [3] (Some toy_prev)) toy_state = Some (([8], 10, 1), b')"
proof -
  have prev: "lo_last_l2_height toy_prev = 0" "lo_last_sequencer_commitment_index toy_prev = 0" "lo_l2_state_root toy_prev = [7]"
    by (simp_all add: toy_prev_def)
  show ?thesis
    using next_proof_advances [OF toy_laws toy_decodes toy_blob_proof, where hash = "[3]" and prev = toy_prev and out = "toy_output [7]"] toy_next
    unfolding prev by simp
qed

text \<open>C11: A proof from another root stops the light client. If the proof of such a block is accepted, but does not start at the proved state
  root, then the circuit panics: for the first commitment nothing the circuit checks relates the proof's first root to the
  genesis root before the transition is stored.\<close>

theorem foreign_proof_panics:
  assumes "lc_codec_laws C" "transitions_decode C b" "proof_blob C P blob zkp"
    and "next_proof C P (b(block_hash_key hash := Some [])) (lo_last_l2_height prev) (lo_last_sequencer_commitment_index prev) zkp out"
    and "hd (output_state_roots out) \<noteq> lo_l2_state_root prev"
  shows "lc_exec (l1_block_prog C P [blob] hash (Some prev)) b = None"
proof -
  from next_proof_transitions [OF assms(1) transitions_decode_block_hash [OF assms(2)] assms(4)] obtain b' v where
    run: "lc_exec (process_complete_proof C (lp_network P) zkp (lo_last_l2_height prev) (lo_last_sequencer_commitment_index prev))
      (b(block_hash_key hash := Some [])) = Some (Ok (), b')" and dec: "transitions_decode C b'" and
    v: "lc_transitions C b' (lo_last_sequencer_commitment_index prev + 1) = Some v"
      "vt_initial_state_root v = hd (output_state_roots out)"
    by (elim exE conjE) (rule that)
  show ?thesis
    unfolding proof_blob_block [OF assms(3) run] using v assms(5) by (intro chain_transitions_stuck [OF dec v(1)]) simp
qed

theorem foreign_proof_panics_witness:
  "lc_exec (l1_block_prog toy_lc toy_params [toy_blob [9]] [3] (Some toy_prev)) toy_state = None"
proof -
  have prev: "lo_last_l2_height toy_prev = 0" "lo_last_sequencer_commitment_index toy_prev = 0" "lo_l2_state_root toy_prev = [7]"
    by (simp_all add: toy_prev_def)
  show ?thesis
    using foreign_proof_panics [OF toy_laws toy_decodes toy_blob_proof, where hash = "[3]" and prev = toy_prev and out = "toy_output [9]"] toy_next
    unfolding prev by simp
qed

text \<open>C12: A proof comes out of the inscriptions it went into. Where the service splits a proof into the body of one transaction, or into chunks
  that an aggregate then names in order, and the light client finds these transactions in a block, the aggregate from the batch
  prover, it processes exactly this proof, on a state that differs in stored chunks only; provided neither the
  proof nor its compressed form is larger than the decompressor's bound.\<close>

theorem proof_delivered:
  assumes "da_codec_laws (lc_codec C)" "brotli_laws (lc_codec C)" "proof_inscribed C P zkp chunk_blobs blob"
    and "length zkp \<le> MAX_DECOMPRESSED_BLOB_SIZE" "length (the (compress_blob (lc_codec C) zkp)) \<le> MAX_COMPRESSED_BLOB_SIZE"
  shows "\<exists>cs. lc_exec (process_blobs C P height idx (chunk_blobs @ [blob])) b =
    map_option (\<lambda>(_, b'). ((), b')) (lc_exec (process_complete_proof C (lp_network P) zkp height idx) (store_chunks cs b))"
  using assms(5) by (intro proof_inscribed_process [OF assms(1-4)]) auto

theorem proof_delivered_witness:
  "\<exists>cs. lc_exec (process_blobs toy_lc toy_params 0 0 ([] @ [toy_blob [7]])) toy_state =
    map_option (\<lambda>(_, b'). ((), b')) (lc_exec (process_complete_proof toy_lc (lp_network toy_params) [7] 0 0) (store_chunks cs toy_state))"
proof (rule proof_delivered)
  have c: "compress_blob toy_codec [7] = Some [7]"
    by (simp add: compress_blob_def toy_codec_def)
  then show "proof_inscribed toy_lc toy_params [7] [] (toy_blob [7])"
    by (simp add: proof_inscribed_def split_proof_def toy_blob_def blob_new_def toy_params_def MAX_TX_BODY_SIZE_def)
  show "length (the (compress_blob (lc_codec toy_lc) [7])) \<le> MAX_COMPRESSED_BLOB_SIZE"
    by (simp add: c MAX_COMPRESSED_BLOB_SIZE_def MAX_DECOMPRESSED_BLOB_SIZE_def)
qed (simp_all add: toy_codec_laws MAX_DECOMPRESSED_BLOB_SIZE_def)

text \<open>C34: What a block can make the light client hold. Whatever the chunks stored and whatever the decompressor answers, the compressed proof put
  together for an aggregate and the proof decompressed from any blob have at most 104857600 bytes.\<close>

theorem blob_sizes_bounded:
  "(lc_exec (collect_chunks [] wtxids) b = Some (Some compressed, b') \<longrightarrow> length compressed \<le> 104857600)
   \<and> (decompress_chunks C blob = Some zkp \<longrightarrow> length zkp \<le> 104857600)"
proof -
  have m: "MAX_DECOMPRESSED_BLOB_SIZE = 104857600" "MAX_COMPRESSED_BLOB_SIZE = 104857600"
    by (simp_all add: MAX_DECOMPRESSED_BLOB_SIZE_def MAX_COMPRESSED_BLOB_SIZE_def)
  show ?thesis
    using collect_chunks_bound [of "[]" wtxids b compressed b'] decompress_loop_bound [of "brotli_reads (lc_codec C) blob" "[]"]
    by (auto simp: m decompress_chunks_def decompress_blob_def split: sum.splits)
qed

theorem blob_sizes_bounded_witness:
  "lc_exec (collect_chunks [] [[4]]) (toy_state(chunk_key [4] := Some [1, 2])) = Some (Some [1, 2], toy_state(chunk_key [4] := Some [1, 2]))
   \<and> decompress_chunks toy_lc [7] = Some [7] \<and> length ([1, 2] :: bytes) \<le> 104857600 \<and> length ([7] :: bytes) \<le> 104857600"
proof -
  have c: "lc_exec (collect_chunks [] [[4]]) (toy_state(chunk_key [4] := Some [1, 2]))
      = Some (Some [1, 2], toy_state(chunk_key [4] := Some [1, 2]))"
    by (simp add: Chunk_get_def lc_simps MAX_COMPRESSED_BLOB_SIZE_def MAX_DECOMPRESSED_BLOB_SIZE_def)
  with toy_decompress [of 7] blob_sizes_bounded show ?thesis by blast
qed

text \<open>C35: The guest of the light client replays what the native run recorded. If the native code processes an L1 block on its storage, then the
  guest, given the hints it recorded, reaches the same state roots, height and commitment index and uses up exactly these hints.\<close>

theorem light_client_guest_replays:
  assumes "borsh_roundtrip B" "jmt_complete V T"
    and "run_l1_block C P (prover_stf_storage B V T s commit) [] txs hash prev = Some res"
  shows "run_l1_block C P (zk_stf_storage B V) (rl_witness res @ rest) txs hash prev =
    Some \<lparr> rl_l2_state_root = rl_l2_state_root res, rl_lcp_state_root = rl_lcp_state_root res,
      rl_last_l2_height = rl_last_l2_height res, rl_witness = rest, rl_change_set = (),
      rl_last_sequencer_commitment_index = rl_last_sequencer_commitment_index res \<rparr>"
  using light_client_replay [OF assms] .

theorem light_client_guest_replays_witness:
  "\<exists>w res. run_l1_block toy_lc toy_params (zk_stf_storage tag_borsh toy_verifier) (w @ [[42]]) [demo_blob] (hw_hash toy_header) None
     = Some res \<and> rl_witness res = [[42]] \<and> rl_lcp_state_root res = [1]"
proof -
  from toy_native obtain res where
    nat: "run_l1_block toy_lc toy_params (prover_stf_storage tag_borsh toy_verifier toy_tree toy_storage (\<lambda>_ _ _. ())) []
      [demo_blob] (hw_hash toy_header) None = Some res" "rl_lcp_state_root res = [1]" by blast
  from light_client_guest_replays [OF tag_borsh_roundtrip toy_complete nat(1), of "[[42]]"] nat(2) show ?thesis
    by (intro exI [of _ "rl_witness res"]) simp
qed

end
