(* ===== verification/Initial_Values.thy ===== *)
theory Initial_Values
  imports Light_Client_Example
begin

section \<open>The values compiled into the circuits\<close>

text \<open>
  Models \<^verbatim>\<open>light-client-prover/src/circuit/initial_values.rs\<close> and the guest programs that select from it. A constant given as a
  hexadecimal string is the bytes it denotes. What the build takes from its environment, and the method ids the build of the
  batch proof guest generates, are the record \<^verbatim>\<open>build_env\<close>.
\<close>

definition hex_bytes :: "nat \<Rightarrow> nat \<Rightarrow> bytes" where
  "hex_bytes n x = rev (map (\<lambda>i. of_nat (x div 256 ^ i)) [0..<n])"

fun decode_to_u32_array :: "bytes \<Rightarrow> method_id" where
  "decode_to_u32_array (a # b # c # d # bs) = of_nat (le_nat [a, b, c, d]) # decode_to_u32_array bs"
| "decode_to_u32_array _ = []"

record build_env =
  be_l2_genesis_root :: "hash32 option"
  be_batch_proof_method_id :: "bytes option"
  be_prover_da_pub_key :: "bytes option"
  be_sequencer_da_pub_key :: "bytes option"
  be_authority_keys :: "nat \<Rightarrow> bytes option"
  be_batch_proof_bitcoin_id :: method_id
  be_batch_proof_mock_id :: method_id

subsection \<open>The constants\<close>

definition mock_GENESIS_ROOT :: bytes where
  "mock_GENESIS_ROOT = hex_bytes 32 0x658E15EDBC2B4168AC974778A2B516955589122D1A8309A7AA5AFE8E22647C18"

definition mock_INITIAL_BATCH_PROOF_METHOD_IDS :: "build_env \<Rightarrow> batch_proof_method_ids" where
  "mock_INITIAL_BATCH_PROOF_METHOD_IDS be = [(0, be_batch_proof_mock_id be)]"

definition mock_BATCH_PROVER_DA_PUBLIC_KEY :: bytes where
  "mock_BATCH_PROVER_DA_PUBLIC_KEY = hex_bytes 33 0x03EEDAB888E45F3BDC3EC9918C491C11E5CF7AF0A91F38B97FBC1E135AE4056601"

definition mock_SEQUENCER_DA_PUBLIC_KEY :: bytes where
  "mock_SEQUENCER_DA_PUBLIC_KEY = hex_bytes 33 0x02588D202AFCC1EE4AB5254C7847EC25B9A135BBDA0F2BC69EE1A714749FD77DC9"

definition mock_METHOD_ID_UPGRADE_AUTHORITY_DA_PUBLIC_KEYS :: "bytes list" where
  "mock_METHOD_ID_UPGRADE_AUTHORITY_DA_PUBLIC_KEYS = [
     hex_bytes 33 0x0313C4FF65EB94999E0AC41CFE21592BAA52910F5A5ADA9074B816DE4F560189DB,
     hex_bytes 33 0x03B15DF91F38EC6E0520B71FCA528780820E75541F3371F6389A4F77AD0E5B823E,
     hex_bytes 33 0x03FB89FD189501B9F55863A8194A8DAFF5B684CC52C0C21092F02CE428374C59F7,
     hex_bytes 33 0x037D415A6027C2DC598C3EE52E6E93E0B61DABF9EA224895533A4DE34FEF4B91E0,
     hex_bytes 33 0x022FAD5142DA490BED9C86BEDA47FE8538EC184D12E39DB55EBF3EC41D180352D0]"

definition MAINNET_GENESIS_ROOT :: bytes where
  "MAINNET_GENESIS_ROOT = hex_bytes 32 0x0000000000000000000000000000000000000000000000000000000000000000"

definition TESTNET_GENESIS_ROOT :: bytes where
  "TESTNET_GENESIS_ROOT = hex_bytes 32 0x8292A2B07F40F9CEE43FDE4523567FAAB5261B1C1CF79AE56E1B4EF4B323735F"

definition DEVNET_GENESIS_ROOT :: bytes where
  "DEVNET_GENESIS_ROOT = hex_bytes 32 0xEE72838EFC878217D4A8150828F19AFA9E58C3270269413A3C757AEDDBAD05A6"

definition NIGHTLY_GENESIS_ROOT :: "build_env \<Rightarrow> bytes" where
  "NIGHTLY_GENESIS_ROOT be = or_else (be_l2_genesis_root be) (hex_bytes 32 0x10D1FEA99328A1B1A1A5DCD74A5B1F8D859926F6C95C7AF57FF429E4377A6C9E)"

definition TEST_NETWORK_WITH_FORKS_GENESIS_ROOT :: "build_env \<Rightarrow> bytes" where
  "TEST_NETWORK_WITH_FORKS_GENESIS_ROOT be = or_else (be_l2_genesis_root be) (hex_bytes 32 0x10D1FEA99328A1B1A1A5DCD74A5B1F8D859926F6C95C7AF57FF429E4377A6C9E)"

definition MAINNET_INITIAL_BATCH_PROOF_METHOD_IDS :: batch_proof_method_ids where
  "MAINNET_INITIAL_BATCH_PROOF_METHOD_IDS = [(0, replicate 8 0)]"

definition TESTNET_INITIAL_BATCH_PROOF_METHOD_IDS :: batch_proof_method_ids where
  "TESTNET_INITIAL_BATCH_PROOF_METHOD_IDS = [(0, decode_to_u32_array (hex_bytes 32 0x8D94F41179BBCD57066DADFDC4922A34FEA4F32F1EC1BA7CA82C8C644F437013))]"

definition DEVNET_INITIAL_BATCH_PROOF_METHOD_IDS :: batch_proof_method_ids where
  "DEVNET_INITIAL_BATCH_PROOF_METHOD_IDS = [(0, decode_to_u32_array (hex_bytes 32 0x1C13E18CD83C22EBA3F620E8619AF49363B240DE764F37501FAC5D65047146CA))]"

definition NIGHTLY_INITIAL_BATCH_PROOF_METHOD_IDS :: "build_env \<Rightarrow> batch_proof_method_ids" where
  "NIGHTLY_INITIAL_BATCH_PROOF_METHOD_IDS be = (case be_batch_proof_method_id be of
     Some hex_method_id \<Rightarrow> [(0, decode_to_u32_array hex_method_id)]
   | None \<Rightarrow> [(0, be_batch_proof_bitcoin_id be)])"

definition TEST_NETWORK_WITH_FORKS_INITIAL_BATCH_PROOF_METHOD_IDS :: "build_env \<Rightarrow> batch_proof_method_ids" where
  "TEST_NETWORK_WITH_FORKS_INITIAL_BATCH_PROOF_METHOD_IDS be = (case be_batch_proof_method_id be of
     Some hex_method_id \<Rightarrow> [(0, decode_to_u32_array hex_method_id)]
   | None \<Rightarrow> [
       (0, decode_to_u32_array (hex_bytes 32 0x382A4E434D1B4B0912604A9DE8876E75FF7603680C90107D78F6F71784EF1922)),
       (100, decode_to_u32_array (hex_bytes 32 0x7D28B6B03836AF95EEDD4C0AEDFE93ED89D28356F0714DD01009A0B892585C03)),
       (100, be_batch_proof_bitcoin_id be),
       (200, be_batch_proof_bitcoin_id be)])"

definition MAINNET_BATCH_PROVER_DA_PUBLIC_KEY :: bytes where
  "MAINNET_BATCH_PROVER_DA_PUBLIC_KEY = hex_bytes 33 0x030000000000000000000000000000000000000000000000000000000000000000"

definition TESTNET_BATCH_PROVER_DA_PUBLIC_KEY :: bytes where
  "TESTNET_BATCH_PROVER_DA_PUBLIC_KEY = hex_bytes 33 0x0357D255AB93638A2D880787EBAADFEFDFC9BB51A26B4A37E5D588E04E54C60A42"

definition DEVNET_BATCH_PROVER_DA_PUBLIC_KEY :: bytes where
  "DEVNET_BATCH_PROVER_DA_PUBLIC_KEY = hex_bytes 33 0x03FC6FB2EF68368009C895D2D4351DCCA4109EC2F5F327291A0553570CE769F5E5"

definition NIGHTLY_BATCH_PROVER_DA_PUBLIC_KEY :: "build_env \<Rightarrow> bytes" where
  "NIGHTLY_BATCH_PROVER_DA_PUBLIC_KEY be = or_else (be_prover_da_pub_key be) (hex_bytes 33 0x03EEDAB888E45F3BDC3EC9918C491C11E5CF7AF0A91F38B97FBC1E135AE4056601)"

definition TEST_NETWORK_WITH_FORKS_BATCH_PROVER_DA_PUBLIC_KEY :: "build_env \<Rightarrow> bytes" where
  "TEST_NETWORK_WITH_FORKS_BATCH_PROVER_DA_PUBLIC_KEY be = or_else (be_prover_da_pub_key be) (hex_bytes 33 0x03EEDAB888E45F3BDC3EC9918C491C11E5CF7AF0A91F38B97FBC1E135AE4056601)"

definition MAINNET_SEQUENCER_DA_PUBLIC_KEY :: bytes where
  "MAINNET_SEQUENCER_DA_PUBLIC_KEY = hex_bytes 33 0x030000000000000000000000000000000000000000000000000000000000000000"

definition TESTNET_SEQUENCER_DA_PUBLIC_KEY :: bytes where
  "TESTNET_SEQUENCER_DA_PUBLIC_KEY = hex_bytes 33 0x03015A7C4D2CC1C771198686E2EBEF6FE7004F4136D61F6225B061D1BB9B821B9B"

definition DEVNET_SEQUENCER_DA_PUBLIC_KEY :: bytes where
  "DEVNET_SEQUENCER_DA_PUBLIC_KEY = hex_bytes 33 0x039CD55F9B3DCF306C4D54F66CD7C4B27CC788632CD6FB73D80C99D303C6536486"

definition NIGHTLY_SEQUENCER_DA_PUBLIC_KEY :: "build_env \<Rightarrow> bytes" where
  "NIGHTLY_SEQUENCER_DA_PUBLIC_KEY be = or_else (be_sequencer_da_pub_key be) (hex_bytes 33 0x02588D202AFCC1EE4AB5254C7847EC25B9A135BBDA0F2BC69EE1A714749FD77DC9)"

definition TEST_NETWORK_WITH_FORKS_SEQUENCER_DA_PUBLIC_KEY :: "build_env \<Rightarrow> bytes" where
  "TEST_NETWORK_WITH_FORKS_SEQUENCER_DA_PUBLIC_KEY be = or_else (be_sequencer_da_pub_key be) (hex_bytes 33 0x02588D202AFCC1EE4AB5254C7847EC25B9A135BBDA0F2BC69EE1A714749FD77DC9)"

definition MAINNET_METHOD_ID_UPGRADE_AUTHORITY_DA_PUBLIC_KEYS :: "bytes list" where
  "MAINNET_METHOD_ID_UPGRADE_AUTHORITY_DA_PUBLIC_KEYS = [
     hex_bytes 33 0x000000000000000000000000000000000000000000000000000000000000000000,
     hex_bytes 33 0x000000000000000000000000000000000000000000000000000000000000000000,
     hex_bytes 33 0x000000000000000000000000000000000000000000000000000000000000000000,
     hex_bytes 33 0x000000000000000000000000000000000000000000000000000000000000000000,
     hex_bytes 33 0x000000000000000000000000000000000000000000000000000000000000000000]"

definition TESTNET_METHOD_ID_UPGRADE_AUTHORITY_DA_PUBLIC_KEYS :: "bytes list" where
  "TESTNET_METHOD_ID_UPGRADE_AUTHORITY_DA_PUBLIC_KEYS = [
     hex_bytes 33 0x000000000000000000000000000000000000000000000000000000000000000000,
     hex_bytes 33 0x000000000000000000000000000000000000000000000000000000000000000000,
     hex_bytes 33 0x000000000000000000000000000000000000000000000000000000000000000000,
     hex_bytes 33 0x000000000000000000000000000000000000000000000000000000000000000000,
     hex_bytes 33 0x000000000000000000000000000000000000000000000000000000000000000000]"

definition DEVNET_METHOD_ID_UPGRADE_AUTHORITY_DA_PUBLIC_KEYS :: "bytes list" where
  "DEVNET_METHOD_ID_UPGRADE_AUTHORITY_DA_PUBLIC_KEYS = [
     hex_bytes 33 0x03FD24A8555CD34585B80C826F25F7DF42862A4F97B6BDAF263A3D1BB368F09790,
     hex_bytes 33 0x02A23601CB326CC09F9DE3F542B4D8F49216DDF273CFE7E40F50F531A32FC2E78D,
     hex_bytes 33 0x033398B6E26DFA0AF531BDAB96EE926C10B934EA32B38910BA8D444F5F840EFD2D,
     hex_bytes 33 0x02666DBA8E07A8BD4AEB4D2B3B6CDA814F8B814E7052AC97A928B01A41A80ADEA4,
     hex_bytes 33 0x03F42D911BB7D9910B026621D20C133B1B193004F043797E472BB2C821E5703716]"

definition NIGHTLY_METHOD_ID_UPGRADE_AUTHORITY_DA_PUBLIC_KEYS :: "build_env \<Rightarrow> bytes list" where
  "NIGHTLY_METHOD_ID_UPGRADE_AUTHORITY_DA_PUBLIC_KEYS be = [
     or_else (be_authority_keys be 1) (hex_bytes 33 0x0313C4FF65EB94999E0AC41CFE21592BAA52910F5A5ADA9074B816DE4F560189DB),
     or_else (be_authority_keys be 2) (hex_bytes 33 0x03B15DF91F38EC6E0520B71FCA528780820E75541F3371F6389A4F77AD0E5B823E),
     or_else (be_authority_keys be 3) (hex_bytes 33 0x03FB89FD189501B9F55863A8194A8DAFF5B684CC52C0C21092F02CE428374C59F7),
     or_else (be_authority_keys be 4) (hex_bytes 33 0x037D415A6027C2DC598C3EE52E6E93E0B61DABF9EA224895533A4DE34FEF4B91E0),
     or_else (be_authority_keys be 5) (hex_bytes 33 0x022FAD5142DA490BED9C86BEDA47FE8538EC184D12E39DB55EBF3EC41D180352D0)]"

definition TEST_NETWORK_WITH_FORKS_METHOD_ID_UPGRADE_AUTHORITY_DA_PUBLIC_KEYS :: "build_env \<Rightarrow> bytes list" where
  "TEST_NETWORK_WITH_FORKS_METHOD_ID_UPGRADE_AUTHORITY_DA_PUBLIC_KEYS be = [
     or_else (be_authority_keys be 1) (hex_bytes 33 0x0313C4FF65EB94999E0AC41CFE21592BAA52910F5A5ADA9074B816DE4F560189DB),
     or_else (be_authority_keys be 2) (hex_bytes 33 0x03B15DF91F38EC6E0520B71FCA528780820E75541F3371F6389A4F77AD0E5B823E),
     or_else (be_authority_keys be 3) (hex_bytes 33 0x03FB89FD189501B9F55863A8194A8DAFF5B684CC52C0C21092F02CE428374C59F7),
     or_else (be_authority_keys be 4) (hex_bytes 33 0x037D415A6027C2DC598C3EE52E6E93E0B61DABF9EA224895533A4DE34FEF4B91E0),
     or_else (be_authority_keys be 5) (hex_bytes 33 0x022FAD5142DA490BED9C86BEDA47FE8538EC184D12E39DB55EBF3EC41D180352D0)]"

subsection \<open>The values of a network\<close>

fun get_l2_genesis_root :: "build_env \<Rightarrow> network \<Rightarrow> hash32" where
  "get_l2_genesis_root be Mainnet = MAINNET_GENESIS_ROOT"
| "get_l2_genesis_root be Testnet = TESTNET_GENESIS_ROOT"
| "get_l2_genesis_root be Devnet = DEVNET_GENESIS_ROOT"
| "get_l2_genesis_root be Nightly = NIGHTLY_GENESIS_ROOT be"
| "get_l2_genesis_root be TestNetworkWithForks = TEST_NETWORK_WITH_FORKS_GENESIS_ROOT be"

fun initial_batch_proof_method_ids :: "build_env \<Rightarrow> network \<Rightarrow> batch_proof_method_ids" where
  "initial_batch_proof_method_ids be Mainnet = MAINNET_INITIAL_BATCH_PROOF_METHOD_IDS"
| "initial_batch_proof_method_ids be Testnet = TESTNET_INITIAL_BATCH_PROOF_METHOD_IDS"
| "initial_batch_proof_method_ids be Devnet = DEVNET_INITIAL_BATCH_PROOF_METHOD_IDS"
| "initial_batch_proof_method_ids be Nightly = NIGHTLY_INITIAL_BATCH_PROOF_METHOD_IDS be"
| "initial_batch_proof_method_ids be TestNetworkWithForks = TEST_NETWORK_WITH_FORKS_INITIAL_BATCH_PROOF_METHOD_IDS be"

fun batch_prover_da_public_key :: "build_env \<Rightarrow> network \<Rightarrow> bytes" where
  "batch_prover_da_public_key be Mainnet = MAINNET_BATCH_PROVER_DA_PUBLIC_KEY"
| "batch_prover_da_public_key be Testnet = TESTNET_BATCH_PROVER_DA_PUBLIC_KEY"
| "batch_prover_da_public_key be Devnet = DEVNET_BATCH_PROVER_DA_PUBLIC_KEY"
| "batch_prover_da_public_key be Nightly = NIGHTLY_BATCH_PROVER_DA_PUBLIC_KEY be"
| "batch_prover_da_public_key be TestNetworkWithForks = TEST_NETWORK_WITH_FORKS_BATCH_PROVER_DA_PUBLIC_KEY be"

fun method_id_upgrade_authority_da_public_keys :: "build_env \<Rightarrow> network \<Rightarrow> bytes list" where
  "method_id_upgrade_authority_da_public_keys be Mainnet = MAINNET_METHOD_ID_UPGRADE_AUTHORITY_DA_PUBLIC_KEYS"
| "method_id_upgrade_authority_da_public_keys be Testnet = TESTNET_METHOD_ID_UPGRADE_AUTHORITY_DA_PUBLIC_KEYS"
| "method_id_upgrade_authority_da_public_keys be Devnet = DEVNET_METHOD_ID_UPGRADE_AUTHORITY_DA_PUBLIC_KEYS"
| "method_id_upgrade_authority_da_public_keys be Nightly = NIGHTLY_METHOD_ID_UPGRADE_AUTHORITY_DA_PUBLIC_KEYS be"
| "method_id_upgrade_authority_da_public_keys be TestNetworkWithForks = TEST_NETWORK_WITH_FORKS_METHOD_ID_UPGRADE_AUTHORITY_DA_PUBLIC_KEYS be"

fun sequencer_da_public_key :: "build_env \<Rightarrow> network \<Rightarrow> bytes" where
  "sequencer_da_public_key be Mainnet = MAINNET_SEQUENCER_DA_PUBLIC_KEY"
| "sequencer_da_public_key be Testnet = TESTNET_SEQUENCER_DA_PUBLIC_KEY"
| "sequencer_da_public_key be Devnet = DEVNET_SEQUENCER_DA_PUBLIC_KEY"
| "sequencer_da_public_key be Nightly = NIGHTLY_SEQUENCER_DA_PUBLIC_KEY be"
| "sequencer_da_public_key be TestNetworkWithForks = TEST_NETWORK_WITH_FORKS_SEQUENCER_DA_PUBLIC_KEY be"

definition mock_get_l2_genesis_root :: "build_env \<Rightarrow> network \<Rightarrow> hash32 option" where
  "mock_get_l2_genesis_root be net = do { assert_that (net = Nightly); Some (mock_GENESIS_ROOT) }"

definition mock_initial_batch_proof_method_ids :: "build_env \<Rightarrow> network \<Rightarrow> batch_proof_method_ids option" where
  "mock_initial_batch_proof_method_ids be net = do { assert_that (net = Nightly); Some (mock_INITIAL_BATCH_PROOF_METHOD_IDS be) }"

definition mock_batch_prover_da_public_key :: "build_env \<Rightarrow> network \<Rightarrow> bytes option" where
  "mock_batch_prover_da_public_key be net = do { assert_that (net = Nightly); Some (mock_BATCH_PROVER_DA_PUBLIC_KEY) }"

definition mock_method_id_upgrade_authority_da_public_keys :: "build_env \<Rightarrow> network \<Rightarrow> (bytes list) option" where
  "mock_method_id_upgrade_authority_da_public_keys be net = do { assert_that (net = Nightly); Some (mock_METHOD_ID_UPGRADE_AUTHORITY_DA_PUBLIC_KEYS) }"

definition mock_sequencer_da_public_key :: "build_env \<Rightarrow> network \<Rightarrow> bytes option" where
  "mock_sequencer_da_public_key be net = do { assert_that (net = Nightly); Some (mock_SEQUENCER_DA_PUBLIC_KEY) }"

text \<open>The constants the Bitcoin guest passes to the circuit, and its main function.\<close>

definition bitcoin_params :: "build_env \<Rightarrow> network \<Rightarrow> lc_params" where
  "bitcoin_params be net = \<lparr> lp_network = net, lp_l2_genesis_root = get_l2_genesis_root be net,
     lp_initial_batch_proof_method_ids = initial_batch_proof_method_ids be net,
     lp_batch_prover_da_public_key = batch_prover_da_public_key be net,
     lp_sequencer_da_public_key = sequencer_da_public_key be net,
     lp_method_id_upgrade_authority_da_public_keys = method_id_upgrade_authority_da_public_keys be net \<rparr>"

definition light_client_proof_bitcoin ::
  "build_env \<Rightarrow> network \<Rightarrow> bytes \<Rightarrow> btc_env \<Rightarrow> script_env \<Rightarrow> lc_env \<Rightarrow> ('p, 'u) borsh \<Rightarrow> ('p, 'u) jmt_verifier
    \<Rightarrow> light_client_circuit_input \<Rightarrow> light_client_circuit_output option" where
  "light_client_proof_bitcoin be net reveal_tx_prefix E S C B V input = do {
     r \<leftarrow> run_circuit E S reveal_tx_prefix C (bitcoin_params be net) (zk_stf_storage B V) input;
     (case r of Inl _ \<Rightarrow> None | Inr output \<Rightarrow> Some output)
   }"

subsection \<open>Properties\<close>

text \<open>The sizes the types of the code fix, and heights in order for the search of the active method id.\<close>

definition lc_params_wf :: "lc_params \<Rightarrow> bool" where
  "lc_params_wf P \<longleftrightarrow> length (lp_l2_genesis_root P) = 32 \<and> length (lp_batch_prover_da_public_key P) = 33
     \<and> length (lp_sequencer_da_public_key P) = 33
     \<and> length (lp_method_id_upgrade_authority_da_public_keys P) = SECURITY_COUNCIL_MEMBER_COUNT
     \<and> list_all (\<lambda>k. length k = 33) (lp_method_id_upgrade_authority_da_public_keys P)
     \<and> lp_initial_batch_proof_method_ids P \<noteq> [] \<and> list_all (\<lambda>(_, m). length m = 8) (lp_initial_batch_proof_method_ids P)
     \<and> sorted (map fst (lp_initial_batch_proof_method_ids P)) \<and> fst (hd (lp_initial_batch_proof_method_ids P)) = 0"

definition sized :: "nat \<Rightarrow> 'a list option \<Rightarrow> bool" where
  "sized n x \<longleftrightarrow> (case x of None \<Rightarrow> True | Some bs \<Rightarrow> length bs = n)"

definition build_env_wf :: "build_env \<Rightarrow> bool" where
  "build_env_wf be \<longleftrightarrow> sized 32 (be_l2_genesis_root be) \<and> sized 32 (be_batch_proof_method_id be)
     \<and> sized 33 (be_prover_da_pub_key be) \<and> sized 33 (be_sequencer_da_pub_key be)
     \<and> list_all (\<lambda>i. sized 33 (be_authority_keys be i)) [1, 2, 3, 4, 5]
     \<and> length (be_batch_proof_bitcoin_id be) = 8 \<and> length (be_batch_proof_mock_id be) = 8"

lemma length_hex_bytes [simp]: "length (hex_bytes n x) = n"
  by (simp add: hex_bytes_def)

lemma length_or_else [simp]: "sized n x \<Longrightarrow> length (or_else x (hex_bytes n y)) = n"
  by (simp add: sized_def or_else_def split: option.splits)

lemma length_decode_to_u32_array: "length (decode_to_u32_array bs) = length bs div 4"
  by (induction bs rule: decode_to_u32_array.induct) auto

lemmas constant_defs = MAINNET_GENESIS_ROOT_def TESTNET_GENESIS_ROOT_def DEVNET_GENESIS_ROOT_def NIGHTLY_GENESIS_ROOT_def
  TEST_NETWORK_WITH_FORKS_GENESIS_ROOT_def MAINNET_BATCH_PROVER_DA_PUBLIC_KEY_def TESTNET_BATCH_PROVER_DA_PUBLIC_KEY_def
  DEVNET_BATCH_PROVER_DA_PUBLIC_KEY_def NIGHTLY_BATCH_PROVER_DA_PUBLIC_KEY_def
  TEST_NETWORK_WITH_FORKS_BATCH_PROVER_DA_PUBLIC_KEY_def MAINNET_SEQUENCER_DA_PUBLIC_KEY_def TESTNET_SEQUENCER_DA_PUBLIC_KEY_def
  DEVNET_SEQUENCER_DA_PUBLIC_KEY_def NIGHTLY_SEQUENCER_DA_PUBLIC_KEY_def TEST_NETWORK_WITH_FORKS_SEQUENCER_DA_PUBLIC_KEY_def
  MAINNET_METHOD_ID_UPGRADE_AUTHORITY_DA_PUBLIC_KEYS_def TESTNET_METHOD_ID_UPGRADE_AUTHORITY_DA_PUBLIC_KEYS_def
  DEVNET_METHOD_ID_UPGRADE_AUTHORITY_DA_PUBLIC_KEYS_def NIGHTLY_METHOD_ID_UPGRADE_AUTHORITY_DA_PUBLIC_KEYS_def
  TEST_NETWORK_WITH_FORKS_METHOD_ID_UPGRADE_AUTHORITY_DA_PUBLIC_KEYS_def MAINNET_INITIAL_BATCH_PROOF_METHOD_IDS_def
  TESTNET_INITIAL_BATCH_PROOF_METHOD_IDS_def DEVNET_INITIAL_BATCH_PROOF_METHOD_IDS_def
  NIGHTLY_INITIAL_BATCH_PROOF_METHOD_IDS_def TEST_NETWORK_WITH_FORKS_INITIAL_BATCH_PROOF_METHOD_IDS_def

lemma hex_bytes_zero: "hex_bytes n 0 = replicate n 0"
  by (simp add: hex_bytes_def map_replicate_const)

lemma replicate_five: "replicate 5 x = [x, x, x, x, x]"
  by (simp add: eval_nat_numeral)

lemma unset_keys:
  "net \<in> {Mainnet, Testnet} \<Longrightarrow> method_id_upgrade_authority_da_public_keys be net = replicate 5 (replicate 33 0)"
  by (auto simp: MAINNET_METHOD_ID_UPGRADE_AUTHORITY_DA_PUBLIC_KEYS_def TESTNET_METHOD_ID_UPGRADE_AUTHORITY_DA_PUBLIC_KEYS_def
      hex_bytes_zero replicate_five)


text \<open>An environment that sets one key.\<close>

definition demo_build :: build_env where
  "demo_build = \<lparr> be_l2_genesis_root = None, be_batch_proof_method_id = None, be_prover_da_pub_key = Some (replicate 33 2),
     be_sequencer_da_pub_key = None, be_authority_keys = \<lambda>_. None, be_batch_proof_bitcoin_id = replicate 8 1,
     be_batch_proof_mock_id = replicate 8 2 \<rparr>"


text \<open>C36: Keys that are not set stop the light client. On mainnet and testnet all keys of the council are zero bytes, which are no public key. There,
  whoever sends it, an inscription with a method id of this chain, a height above the last one and signatures with increasing indices makes
  the circuit panic on its block: the key is read, and must be valid, before any signature is looked at.\<close>

theorem unset_council_panics:
  assumes "net \<in> {Mainnet, Testnet}" "\<not> verifying_key_from_sec1 C (replicate 33 0)"
    and "dec_data (lc_codec C) (bw_blob blob) = Some (DaBatchProofMethodId m)"
    and "lc_method_ids C b = Some ids" "ids \<noteq> []" "fst (last ids) < mb_activation_l2_height (mi_body m)"
    and "mb_chain_id (mi_body m) = citrea_network_to_chain_id net" "mi_signatures_with_index m \<noteq> []"
    and "list_all (\<lambda>(_, i). i < 5) (mi_signatures_with_index m)" "ascending (map snd (mi_signatures_with_index m))"
  shows "lc_exec (l1_block_prog C (bitcoin_params be net) (blob # rest) hash (Some prev)) b = None"
proof -
  let ?b = "b(block_hash_key hash := Some [])" and ?keys = "replicate 5 (replicate 33 0) :: bytes list"
  obtain s i sigs where sigs: "mi_signatures_with_index m = (s, i) # sigs" "unat i < 5"
    using assms(8,9) by (cases "mi_signatures_with_index m") (auto simp: word_less_nat_alt)
  have "verify_method_id_security_council C ?keys msg (mi_signatures_with_index m) = None" for msg
    using assms(2,9,10) sigs by (simp add: verify_method_id_security_council_def Let_def index_def del: replicate.simps)
  moreover have "lc_exec (MethodIds_get C) ?b = Some (Some ids, ?b)"
    using assms(4) by (intro exec_gets_Some) simp
  ultimately have "lc_exec (process_method_id C (bitcoin_params be net) m) ?b = None"
    using assms(5-7) unset_keys [OF assms(1)] by (simp add: process_method_id_def bitcoin_params_def lc_simps not_le)
  then show ?thesis
    using assms(3) by (simp add: l1_block_prog_def lc_start_def BlockHash_insert_def lc_simps)
qed

definition demo_method_id :: batch_proof_method_id where
  "demo_method_id = \<lparr> mi_body = \<lparr> mb_method_id = replicate 8 1, mb_activation_l2_height = 9, mb_chain_id = 5115 \<rparr>,
     mi_signatures_with_index = [([], 0), ([], 1), ([], 4)] \<rparr>"

theorem unset_council_panics_witness:
  "lc_exec (l1_block_prog toy_lc (bitcoin_params demo_build Testnet)
     [blob_new (enc_data toy_codec (DaBatchProofMethodId demo_method_id)) [99] (zeros 32) (zeros 32)] [3] (Some toy_prev)) toy_state = None"
  using toy_codec_laws(1)
  by (intro unset_council_panics [OF _ _ _ toy_views(3), of _ _ demo_method_id])
    (simp_all add: demo_method_id_def blob_new_def da_codec_laws_def toy_lc_def word_le_nat_alt)

end
