(* ===== verification/Ledger_Db.thy ===== *)
theory Ledger_Db
  imports Light_Client "HOL-Library.Product_Lexorder"
begin

section \<open>The ledger database of a node\<close>

text \<open>
  The operations of \<^verbatim>\<open>sov-db/src/ledger_db/mod.rs\<close> that the full node, the sequencer and the batch prover use. A column
  family is the sorted list of its entries: the tables that are iterated use the big-endian key codec, so the order of the encoded
  keys in RocksDB is the order of the keys. A \<^verbatim>\<open>SchemaBatch\<close> is written at once. Failures of the
  disk are not modelled: a read and a write succeed, and the \<^verbatim>\<open>anyhow::Result\<close> around them is left out. An iterator
  sees the table as it was when the iterator was made.
\<close>

subsection \<open>Stored types\<close>

type_synonym zk_proof = bytes
type_synonym uuid = bytes

record stored_transaction =
  stx_hash :: hash32
  stx_body :: "bytes option"

record stored_l2_block =
  sb_height :: u64
  sb_hash :: hash32
  sb_prev_hash :: hash32
  sb_txs :: "stored_transaction list"
  sb_state_root :: hash32
  sb_signature :: bytes
  sb_l1_fee_rate :: u128
  sb_timestamp :: u64
  sb_tx_merkle_root :: hash32

record l2_height_and_index =
  hi_height :: u64
  hi_commitment_index :: u32

definition hi_default :: l2_height_and_index where
  "hi_default = \<lparr> hi_height = 0, hi_commitment_index = 0 \<rparr>"

text \<open>The derived \<^verbatim>\<open>PartialOrd\<close> compares the fields in their order.\<close>

definition hi_less :: "l2_height_and_index \<Rightarrow> l2_height_and_index \<Rightarrow> bool" where
  "hi_less a b \<longleftrightarrow> hi_height a < hi_height b \<or> (hi_height a = hi_height b \<and> hi_commitment_index a < hi_commitment_index b)"

datatype l2_height_status = Committed | Proven

fun l2_height_status_u8 :: "l2_height_status \<Rightarrow> u8" where
  "l2_height_status_u8 Committed = 0"
| "l2_height_status_u8 Proven = 1"

instantiation l2_height_status :: linorder
begin

definition less_eq_l2_height_status :: "l2_height_status \<Rightarrow> l2_height_status \<Rightarrow> bool" where
  "less_eq_l2_height_status a b \<longleftrightarrow> l2_height_status_u8 a \<le> l2_height_status_u8 b"

definition less_l2_height_status :: "l2_height_status \<Rightarrow> l2_height_status \<Rightarrow> bool" where
  "less_l2_height_status a b \<longleftrightarrow> l2_height_status_u8 a < l2_height_status_u8 b"

instance
proof
  fix a b :: l2_height_status
  show "a \<le> b \<Longrightarrow> b \<le> a \<Longrightarrow> a = b"
    by (cases a; cases b) (auto simp: less_eq_l2_height_status_def)
qed (auto simp: less_eq_l2_height_status_def less_l2_height_status_def)

end

datatype stored_batch_proof_output = StoredV3 batch_proof_circuit_output_v3

fun stored_output :: "batch_proof_circuit_output \<Rightarrow> stored_batch_proof_output" where
  "stored_output (OutputV3 v) = StoredV3 v"

fun stored_last_l2_height :: "stored_batch_proof_output \<Rightarrow> u64" where
  "stored_last_l2_height (StoredV3 v) = v3_last_l2_height v"

record stored_batch_proof =
  bp_l1_tx_id :: "hash32 option"
  bp_proof :: zk_proof
  bp_proof_output :: stored_batch_proof_output

record stored_verified_proof =
  vp_proof :: zk_proof
  vp_proof_output :: stored_batch_proof_output

datatype job_status = Proving | Sending | Finished

datatype bonsai_session_kind = StarkSession string | SnarkSession string string

datatype receipt_type = Groth16 | Succinct

record bonsai_session =
  bo_kind :: bonsai_session_kind
  bo_image_id :: hash32
  bo_receipt_type :: receipt_type

text \<open>The tables, one field per column family.\<close>

record ledger_db =
  l2_block_by_number :: "(u64, stored_l2_block) bmap"
  l2_block_by_hash :: "(hash32, u64) bmap"
  l2_range_by_l1_height :: "(u64, u64 \<times> u64) bmap"
  l2_genesis_state_root :: "hash32 option"
  slot_by_hash :: "(hash32, u64) bmap"
  short_header_proof_by_slot_hash :: "(hash32, bytes) bmap"
  last_scanned_slot :: "u64 option"
  last_pruned_block :: "u64 option"
  commitments_by_number :: "(u64, sequencer_commitment list) bmap"
  sequencer_commitment_by_index :: "(u32, sequencer_commitment) bmap"
  commitment_merkle_roots :: "(hash32, u64 \<times> u64) bmap"
  l2_status_heights :: "(l2_height_status \<times> u64, l2_height_and_index) bmap"
  pending_sequencer_commitments :: "(u32, sequencer_commitment \<times> u64) bmap"
  pending_proofs :: "(u32 \<times> u32, zk_proof \<times> u64) bmap"
  verified_batch_proofs_by_slot_number :: "(u64, stored_verified_proof list) bmap"
  state_diff_by_block_number :: "(u64, state_diff) bmap"
  prover_state_diffs :: "(u64, state_diff) bmap"
  prover_pending_commitments :: "(u32, unit) bmap"
  commitment_indices_by_l1 :: "(u64, u32 list) bmap"
  commitment_indices_by_job_id :: "(uuid, u32 list) bmap"
  job_id_of_commitment :: "(u32, uuid) bmap"
  proof_by_job_id :: "(uuid, stored_batch_proof) bmap"
  pending_l1_submission_jobs :: "(uuid, unit) bmap"
  pending_bonsai_session_by_job_id :: "(uuid, bonsai_session) bmap"

definition empty_ledger_db :: ledger_db where
  "empty_ledger_db =
     \<lparr> l2_block_by_number = [], l2_block_by_hash = [], l2_range_by_l1_height = [], l2_genesis_state_root = None,
       slot_by_hash = [], short_header_proof_by_slot_hash = [], last_scanned_slot = None, last_pruned_block = None,
       commitments_by_number = [], sequencer_commitment_by_index = [], commitment_merkle_roots = [],
       l2_status_heights = [], pending_sequencer_commitments = [], pending_proofs = [],
       verified_batch_proofs_by_slot_number = [], state_diff_by_block_number = [], prover_state_diffs = [],
       prover_pending_commitments = [], commitment_indices_by_l1 = [], commitment_indices_by_job_id = [],
       job_id_of_commitment = [], proof_by_job_id = [], pending_l1_submission_jobs = [],
       pending_bonsai_session_by_job_id = [] \<rparr>"

subsection \<open>Tables\<close>

text \<open>\<^verbatim>\<open>delete\<close>, and the positions an iterator is moved to: \<^verbatim>\<open>seek\<close>, \<^verbatim>\<open>seek_to_last\<close> and, backwards, \<^verbatim>\<open>seek_for_prev\<close>.\<close>

definition bm_remove :: "'k \<Rightarrow> ('k, 'v) bmap \<Rightarrow> ('k, 'v) bmap" where
  "bm_remove k m = filter (\<lambda>(k', _). k' \<noteq> k) m"

definition bm_seek :: "'k::linorder \<Rightarrow> ('k, 'v) bmap \<Rightarrow> ('k, 'v) bmap" where
  "bm_seek k m = filter (\<lambda>(k', _). k \<le> k') m"

definition bm_last :: "('k, 'v) bmap \<Rightarrow> ('k \<times> 'v) option" where
  "bm_last m = (if m = [] then None else Some (last m))"

definition bm_seek_for_prev :: "'k::linorder \<Rightarrow> ('k, 'v) bmap \<Rightarrow> ('k \<times> 'v) option" where
  "bm_seek_for_prev k m = bm_last (filter (\<lambda>(k', _). k' \<le> k) m)"

text \<open>
  \<^verbatim>\<open>get_data_range\<close>: the vector is allocated for the whole range first, which panics when it would
  have more than \<^verbatim>\<open>isize::MAX\<close> bytes; then that many entries are read from the start of the range on.
\<close>

definition isize_MAX :: nat where "isize_MAX = 2 ^ 63 - 1"

definition get_data_range :: "nat \<Rightarrow> 'k::linorder \<Rightarrow> 'k \<Rightarrow> ('k \<Rightarrow> u64) \<Rightarrow> ('k, 'v) bmap \<Rightarrow> 'v list option" where
  "get_data_range item_size start end into m = do {
     let max_items = unat (into end - into start);
     assert_that (max_items * item_size \<le> isize_MAX);
     Some (map snd (take max_items (bm_seek start m)))
   }"

subsection \<open>Blocks\<close>

definition put_l2_block :: "stored_l2_block \<Rightarrow> ledger_db \<Rightarrow> ledger_db" where
  "put_l2_block b db = db
     \<lparr> l2_block_by_number := bm_insert (sb_height b) b (l2_block_by_number db),
       l2_block_by_hash := bm_insert (sb_hash b) (sb_height b) (l2_block_by_hash db) \<rparr>"

definition stored_txs :: "hash32 list \<Rightarrow> bytes list option \<Rightarrow> stored_transaction list option" where
  "stored_txs tx_hashes tx_bodies =
     (case tx_bodies of
        Some bodies \<Rightarrow> do {
          assert_that (length bodies = length tx_hashes);
          Some (map (\<lambda>(h, b). \<lparr> stx_hash = h, stx_body = Some b \<rparr>) (zip tx_hashes bodies))
        }
      | None \<Rightarrow> Some (map (\<lambda>h. \<lparr> stx_hash = h, stx_body = None \<rparr>) tx_hashes))"

definition commit_l2_block :: "l2_block \<Rightarrow> hash32 list \<Rightarrow> bytes list option \<Rightarrow> ledger_db \<Rightarrow> ledger_db option" where
  "commit_l2_block b tx_hashes tx_bodies db = do {
     txs \<leftarrow> stored_txs tx_hashes tx_bodies;
     Some (put_l2_block
       \<lparr> sb_height = lb_height b, sb_hash = lb_hash b, sb_prev_hash = lb_prev_hash b, sb_txs = txs,
         sb_state_root = lb_state_root b, sb_signature = sh_signature (lb_header b),
         sb_l1_fee_rate = l2_l1_fee_rate (lb_inner b), sb_timestamp = l2_timestamp (lb_inner b),
         sb_tx_merkle_root = lb_tx_merkle_root b \<rparr> db)
   }"

text \<open>\<^verbatim>\<open>L2Block::try_from(StoredL2Block)\<close>: a missing body panics, a body that does not decode is an error.\<close>

fun parse_stored_txs :: "(bytes \<Rightarrow> transaction option) \<Rightarrow> stored_transaction list \<Rightarrow> (unit + transaction list) option" where
  "parse_stored_txs dec [] = Some (Ok [])"
| "parse_stored_txs dec (t # ts) = do {
     body \<leftarrow> stx_body t;
     (case dec body of
        None \<Rightarrow> Some (Err ())
      | Some tx \<Rightarrow> map_option (map_ok (\<lambda>txs. tx # txs)) (parse_stored_txs dec ts))
   }"

definition l2_block_try_from :: "(bytes \<Rightarrow> transaction option) \<Rightarrow> stored_l2_block \<Rightarrow> (unit + l2_block) option" where
  "l2_block_try_from dec b = map_option (map_ok (\<lambda>txs.
     \<lparr> lb_header =
         \<lparr> sh_inner = \<lparr> l2_height = sb_height b, l2_prev_hash = sb_prev_hash b, l2_state_root = sb_state_root b,
             l2_l1_fee_rate = sb_l1_fee_rate b, l2_tx_merkle_root = sb_tx_merkle_root b, l2_timestamp = sb_timestamp b \<rparr>,
           sh_hash = sb_hash b, sh_signature = sb_signature b \<rparr>,
       lb_txs = txs \<rparr>)) (parse_stored_txs dec (sb_txs b))"

definition extend_l2_range_of_l1_slot :: "u64 \<Rightarrow> u64 \<Rightarrow> ledger_db \<Rightarrow> ledger_db" where
  "extend_l2_range_of_l1_slot l1_height height db =
     (let new_range = (case bm_get (l2_range_by_l1_height db) l1_height of
                         Some (a, _) \<Rightarrow> (a, height)
                       | None \<Rightarrow> (height, height))
      in db \<lparr> l2_range_by_l1_height := bm_insert l1_height new_range (l2_range_by_l1_height db) \<rparr>)"

definition set_l2_genesis_state_root :: "hash32 \<Rightarrow> ledger_db \<Rightarrow> ledger_db" where
  "set_l2_genesis_state_root r db = db \<lparr> l2_genesis_state_root := Some r \<rparr>"

definition get_l2_state_root :: "ledger_db \<Rightarrow> u64 \<Rightarrow> hash32 option" where
  "get_l2_state_root db height =
     (if height = 0 then l2_genesis_state_root db
      else map_option sb_state_root (bm_get (l2_block_by_number db) height))"

definition get_head_l2_block :: "ledger_db \<Rightarrow> (u64 \<times> stored_l2_block) option" where
  "get_head_l2_block db = bm_last (l2_block_by_number db)"

definition get_head_l2_block_height :: "ledger_db \<Rightarrow> u64 option" where
  "get_head_l2_block_height db = map_option fst (bm_last (l2_block_by_number db))"

text \<open>A \<^verbatim>\<open>StoredL2Block\<close> has 208 bytes and a \<^verbatim>\<open>SequencerCommitment\<close> 48 in memory.\<close>

definition get_l2_block_range :: "ledger_db \<Rightarrow> u64 \<Rightarrow> u64 \<Rightarrow> stored_l2_block list option" where
  "get_l2_block_range db start end = get_data_range 208 start (end + 1) id (l2_block_by_number db)"

definition get_l2_block_by_number :: "ledger_db \<Rightarrow> u64 \<Rightarrow> stored_l2_block option" where
  "get_l2_block_by_number db = bm_get (l2_block_by_number db)"

definition check_l2_block_exists :: "ledger_db \<Rightarrow> u64 \<Rightarrow> bool" where
  "check_l2_block_exists db height =
     (case get_head_l2_block_height db of None \<Rightarrow> False | Some h \<Rightarrow> height \<le> h)"

subsection \<open>L1 blocks\<close>

definition put_short_header_proof_by_l1_hash :: "hash32 \<Rightarrow> bytes \<Rightarrow> ledger_db \<Rightarrow> ledger_db" where
  "put_short_header_proof_by_l1_hash h shp db = db
     \<lparr> short_header_proof_by_slot_hash := bm_insert h shp (short_header_proof_by_slot_hash db) \<rparr>"

definition get_short_header_proof_by_l1_hash :: "ledger_db \<Rightarrow> hash32 \<Rightarrow> bytes option" where
  "get_short_header_proof_by_l1_hash db = bm_get (short_header_proof_by_slot_hash db)"

definition set_l1_height_of_l1_hash :: "hash32 \<Rightarrow> u64 \<Rightarrow> ledger_db \<Rightarrow> ledger_db" where
  "set_l1_height_of_l1_hash h height db = db \<lparr> slot_by_hash := bm_insert h height (slot_by_hash db) \<rparr>"

definition get_l1_height_of_l1_hash :: "ledger_db \<Rightarrow> hash32 \<Rightarrow> u64 option" where
  "get_l1_height_of_l1_hash db = bm_get (slot_by_hash db)"

definition set_last_scanned_l1_height :: "u64 \<Rightarrow> ledger_db \<Rightarrow> ledger_db" where
  "set_last_scanned_l1_height height db = db \<lparr> last_scanned_slot := Some height \<rparr>"

definition set_last_pruned_l2_height :: "u64 \<Rightarrow> ledger_db \<Rightarrow> ledger_db" where
  "set_last_pruned_l2_height height db = db \<lparr> last_pruned_block := Some height \<rparr>"

subsection \<open>Commitments\<close>

definition update_commitments_on_da_slot :: "u64 \<Rightarrow> sequencer_commitment \<Rightarrow> ledger_db \<Rightarrow> ledger_db" where
  "update_commitments_on_da_slot height c db =
     (case bm_get (commitments_by_number db) height of
        Some cs \<Rightarrow>
          (if c \<in> set cs then db
           else db \<lparr> commitments_by_number := bm_insert height (cs @ [c]) (commitments_by_number db) \<rparr>)
      | None \<Rightarrow> db \<lparr> commitments_by_number := bm_insert height [c] (commitments_by_number db) \<rparr>)"

definition get_commitments_on_da_slot :: "ledger_db \<Rightarrow> u64 \<Rightarrow> sequencer_commitment list option" where
  "get_commitments_on_da_slot db = bm_get (commitments_by_number db)"

definition get_last_commitment :: "ledger_db \<Rightarrow> sequencer_commitment option" where
  "get_last_commitment db = map_option snd (bm_last (sequencer_commitment_by_index db))"

definition set_l2_range_by_commitment_merkle_root :: "hash32 \<Rightarrow> u64 \<times> u64 \<Rightarrow> ledger_db \<Rightarrow> ledger_db" where
  "set_l2_range_by_commitment_merkle_root root rng db = db
     \<lparr> commitment_merkle_roots := bm_insert root rng (commitment_merkle_roots db) \<rparr>"

definition get_l2_range_by_commitment_merkle_root :: "ledger_db \<Rightarrow> hash32 \<Rightarrow> (u64 \<times> u64) option" where
  "get_l2_range_by_commitment_merkle_root db = bm_get (commitment_merkle_roots db)"

definition put_commitment_by_index :: "sequencer_commitment \<Rightarrow> ledger_db \<Rightarrow> ledger_db" where
  "put_commitment_by_index c db = db
     \<lparr> sequencer_commitment_by_index := bm_insert (sc_index c) c (sequencer_commitment_by_index db) \<rparr>"

definition get_commitment_by_index :: "ledger_db \<Rightarrow> u32 \<Rightarrow> sequencer_commitment option" where
  "get_commitment_by_index db = bm_get (sequencer_commitment_by_index db)"

definition get_commitment_by_range :: "ledger_db \<Rightarrow> u32 \<Rightarrow> u32 \<Rightarrow> sequencer_commitment list option" where
  "get_commitment_by_range db start end = get_data_range 48 start (end + 1) ucast (sequencer_commitment_by_index db)"

subsection \<open>What the full node keeps\<close>

definition get_highest_l2_height_for_status :: "ledger_db \<Rightarrow> l2_height_status \<Rightarrow> u64 option \<Rightarrow> l2_height_and_index option" where
  "get_highest_l2_height_for_status db status l1_height =
     (case bm_seek_for_prev (status, or_else l1_height (-1)) (l2_status_heights db) of
        Some ((s, _), v) \<Rightarrow> (if s = status then Some v else None)
      | None \<Rightarrow> None)"

definition set_l2_height_status :: "l2_height_status \<Rightarrow> u64 \<Rightarrow> l2_height_and_index \<Rightarrow> ledger_db \<Rightarrow> ledger_db" where
  "set_l2_height_status status l1_height v db = db
     \<lparr> l2_status_heights := bm_insert (status, l1_height) v (l2_status_heights db) \<rparr>"

definition get_l2_status_heights_by_l1_height :: "ledger_db \<Rightarrow> u64 \<Rightarrow> l2_height_and_index option \<times> l2_height_and_index option" where
  "get_l2_status_heights_by_l1_height db l1_height =
     (get_highest_l2_height_for_status db Committed (Some l1_height),
      get_highest_l2_height_for_status db Proven (Some l1_height))"

definition store_pending_commitment :: "sequencer_commitment \<Rightarrow> u64 \<Rightarrow> ledger_db \<Rightarrow> ledger_db" where
  "store_pending_commitment c found_in db = db
     \<lparr> pending_sequencer_commitments := bm_insert (sc_index c) (c, found_in) (pending_sequencer_commitments db) \<rparr>"

definition get_pending_commitment_by_index :: "ledger_db \<Rightarrow> u32 \<Rightarrow> (sequencer_commitment \<times> u64) option" where
  "get_pending_commitment_by_index db = bm_get (pending_sequencer_commitments db)"

definition remove_pending_commitment :: "u32 \<Rightarrow> ledger_db \<Rightarrow> ledger_db" where
  "remove_pending_commitment i db = db
     \<lparr> pending_sequencer_commitments := bm_remove i (pending_sequencer_commitments db) \<rparr>"

definition store_pending_proof :: "u32 \<Rightarrow> u32 \<Rightarrow> zk_proof \<Rightarrow> u64 \<Rightarrow> ledger_db \<Rightarrow> ledger_db" where
  "store_pending_proof a b p found_in db = db
     \<lparr> pending_proofs := bm_insert (a, b) (p, found_in) (pending_proofs db) \<rparr>"

definition remove_pending_proof :: "u32 \<Rightarrow> u32 \<Rightarrow> ledger_db \<Rightarrow> ledger_db" where
  "remove_pending_proof a b db = db \<lparr> pending_proofs := bm_remove (a, b) (pending_proofs db) \<rparr>"

definition update_verified_proof_data :: "u64 \<Rightarrow> zk_proof \<Rightarrow> stored_batch_proof_output \<Rightarrow> ledger_db \<Rightarrow> ledger_db" where
  "update_verified_proof_data l1_height p out db =
     (let stored = or_else (bm_get (verified_batch_proofs_by_slot_number db) l1_height) []
      in db \<lparr> verified_batch_proofs_by_slot_number :=
           bm_insert l1_height (stored @ [\<lparr> vp_proof = p, vp_proof_output = out \<rparr>])
             (verified_batch_proofs_by_slot_number db) \<rparr>)"

subsection \<open>What the sequencer keeps\<close>

definition set_state_diff :: "u64 \<Rightarrow> state_diff \<Rightarrow> ledger_db \<Rightarrow> ledger_db" where
  "set_state_diff height d db = db \<lparr> state_diff_by_block_number := bm_insert height d (state_diff_by_block_number db) \<rparr>"

definition get_state_diff :: "ledger_db \<Rightarrow> u64 \<Rightarrow> state_diff" where
  "get_state_diff db height = or_else (bm_get (state_diff_by_block_number db) height) []"

text \<open>The loop over \<^verbatim>\<open>start..=end\<close>, which is empty when the start is above the end.\<close>

definition u64_range :: "u64 \<Rightarrow> u64 \<Rightarrow> u64 list" where
  "u64_range a b = map of_nat [unat a..<Suc (unat b)]"

definition delete_state_diff_by_range :: "u64 \<Rightarrow> u64 \<Rightarrow> ledger_db \<Rightarrow> ledger_db" where
  "delete_state_diff_by_range a b db = db
     \<lparr> state_diff_by_block_number := fold bm_remove (u64_range a b) (state_diff_by_block_number db) \<rparr>"

subsection \<open>What the batch prover keeps\<close>

definition set_l2_state_diff :: "u64 \<Rightarrow> state_diff \<Rightarrow> ledger_db \<Rightarrow> ledger_db" where
  "set_l2_state_diff height d db = db \<lparr> prover_state_diffs := bm_insert height d (prover_state_diffs db) \<rparr>"

definition get_l2_state_diff :: "ledger_db \<Rightarrow> u64 \<Rightarrow> state_diff option" where
  "get_l2_state_diff db = bm_get (prover_state_diffs db)"

definition put_prover_pending_commitment :: "u32 \<Rightarrow> ledger_db \<Rightarrow> ledger_db" where
  "put_prover_pending_commitment i db = db \<lparr> prover_pending_commitments := bm_insert i () (prover_pending_commitments db) \<rparr>"

text \<open>The result is sorted, so the order in which the table is iterated does not matter.\<close>

definition get_prover_pending_commitments :: "ledger_db \<Rightarrow> sequencer_commitment list option" where
  "get_prover_pending_commitments db = do {
     cs \<leftarrow> those (map (\<lambda>(i, _). get_commitment_by_index db i) (prover_pending_commitments db));
     Some (sort_key sc_index cs)
   }"

definition delete_prover_pending_commitments :: "u32 list \<Rightarrow> ledger_db \<Rightarrow> ledger_db" where
  "delete_prover_pending_commitments is db = db
     \<lparr> prover_pending_commitments := fold bm_remove is (prover_pending_commitments db) \<rparr>"

definition put_commitment_index_by_l1 :: "u64 \<Rightarrow> u32 \<Rightarrow> ledger_db \<Rightarrow> ledger_db" where
  "put_commitment_index_by_l1 l1_height i db = db
     \<lparr> commitment_indices_by_l1 :=
         bm_insert l1_height (or_else (bm_get (commitment_indices_by_l1 db) l1_height) [] @ [i]) (commitment_indices_by_l1 db) \<rparr>"

definition insert_new_proving_job :: "uuid \<Rightarrow> u32 list \<Rightarrow> ledger_db \<Rightarrow> ledger_db" where
  "insert_new_proving_job job is db = db
     \<lparr> commitment_indices_by_job_id := bm_insert job is (commitment_indices_by_job_id db),
       job_id_of_commitment := fold (\<lambda>i. bm_insert i job) is (job_id_of_commitment db) \<rparr>"

definition put_proof_by_job_id :: "uuid \<Rightarrow> zk_proof \<Rightarrow> stored_batch_proof_output \<Rightarrow> ledger_db \<Rightarrow> ledger_db" where
  "put_proof_by_job_id job p out db = db
     \<lparr> pending_l1_submission_jobs := bm_insert job () (pending_l1_submission_jobs db),
       proof_by_job_id := bm_insert job \<lparr> bp_l1_tx_id = None, bp_proof = p, bp_proof_output = out \<rparr> (proof_by_job_id db) \<rparr>"

definition remove_proving_job_by_id :: "uuid \<Rightarrow> ledger_db \<Rightarrow> ledger_db option" where
  "remove_proving_job_by_id job db = do {
     is \<leftarrow> bm_get (commitment_indices_by_job_id db) job;
     Some (db
       \<lparr> job_id_of_commitment := fold bm_remove is (job_id_of_commitment db),
         proof_by_job_id := bm_remove job (proof_by_job_id db),
         commitment_indices_by_job_id := bm_remove job (commitment_indices_by_job_id db),
         pending_l1_submission_jobs := bm_remove job (pending_l1_submission_jobs db),
         pending_bonsai_session_by_job_id := bm_remove job (pending_bonsai_session_by_job_id db) \<rparr>)
   }"

definition finalize_proving_job :: "uuid \<Rightarrow> hash32 \<Rightarrow> ledger_db \<Rightarrow> ledger_db option" where
  "finalize_proving_job job l1_tx_id db = do {
     stored \<leftarrow> bm_get (proof_by_job_id db) job;
     assert_that (bp_l1_tx_id stored = None);
     Some (db
       \<lparr> pending_l1_submission_jobs := bm_remove job (pending_l1_submission_jobs db),
         proof_by_job_id := bm_insert job (stored \<lparr> bp_l1_tx_id := Some l1_tx_id \<rparr>) (proof_by_job_id db) \<rparr>)
   }"

definition get_pending_l1_submission_jobs :: "ledger_db \<Rightarrow> uuid list" where
  "get_pending_l1_submission_jobs db = map fst (pending_l1_submission_jobs db)"

definition ledger_job_status :: "ledger_db \<Rightarrow> uuid \<Rightarrow> job_status" where
  "ledger_job_status db job =
     (case bm_get (proof_by_job_id db) job of
        Some el \<Rightarrow> (if bp_l1_tx_id el \<noteq> None then Finished else Sending)
      | None \<Rightarrow> Proving)"

definition get_latest_jobs :: "ledger_db \<Rightarrow> nat \<Rightarrow> nat \<Rightarrow> (uuid \<times> job_status) list" where
  "get_latest_jobs db limit skip =
     map (\<lambda>(job, _). (job, ledger_job_status db job)) (take limit (drop skip (rev (commitment_indices_by_job_id db))))"

definition upsert_pending_bonsai_session :: "uuid \<Rightarrow> bonsai_session \<Rightarrow> ledger_db \<Rightarrow> ledger_db" where
  "upsert_pending_bonsai_session job s db = db
     \<lparr> pending_bonsai_session_by_job_id := bm_insert job s (pending_bonsai_session_by_job_id db) \<rparr>"

definition remove_pending_bonsai_session :: "uuid \<Rightarrow> ledger_db \<Rightarrow> ledger_db" where
  "remove_pending_bonsai_session job db = db
     \<lparr> pending_bonsai_session_by_job_id := bm_remove job (pending_bonsai_session_by_job_id db) \<rparr>"

subsection \<open>Tables with removal and seeking\<close>

locale seekable_map = ordered_map empty insert get entries inv
  for empty :: 'm and insert :: "'k::linorder \<Rightarrow> 'v \<Rightarrow> 'm \<Rightarrow> 'm" and get and entries and inv +
  fixes remove :: "'k \<Rightarrow> 'm \<Rightarrow> 'm"
    and seek_for_prev :: "'k \<Rightarrow> 'm \<Rightarrow> ('k \<times> 'v) option"
  assumes inv_remove: "inv m \<Longrightarrow> inv (remove k m)"
    and get_remove: "inv m \<Longrightarrow> get (remove k m) = (get m)(k := None)"
    and seek_prev_Some: "inv m \<Longrightarrow> seek_for_prev k m = Some (k', v) \<longleftrightarrow>
      get m k' = Some v \<and> k' \<le> k \<and> (\<forall>j \<in> dom (get m). j \<le> k \<longrightarrow> j \<le> k')"
begin

lemma seek_prev_None: "inv m \<Longrightarrow> seek_for_prev k m = None \<longleftrightarrow> (\<forall>j \<in> dom (get m). \<not> j \<le> k)"
proof -
  assume m: "inv m"
  have "\<exists>x. seek_for_prev k m = Some x" if "j \<in> dom (get m)" "j \<le> k" for j
  proof -
    let ?S = "{j \<in> dom (get m). j \<le> k}"
    have fin: "finite ?S" "?S \<noteq> {}"
      using m that finite_dom_map_of [of "entries m"] by (auto simp: get_entries)
    then have "Max ?S \<in> ?S" by (rule Max_in)
    moreover from this obtain v where "get m (Max ?S) = Some v" by auto
    moreover have "\<forall>j \<in> dom (get m). j \<le> k \<longrightarrow> j \<le> Max ?S" using fin by (auto intro: Max_ge)
    ultimately show ?thesis using seek_prev_Some [OF m, of k "Max ?S" v] by auto
  qed
  moreover have "seek_for_prev k m = Some x \<Longrightarrow> \<exists>j \<in> dom (get m). j \<le> k" for x
    using seek_prev_Some [OF m, of k "fst x" "snd x"] by auto
  ultimately show ?thesis by (cases "seek_for_prev k m") auto
qed

lemma seek_prev_insert_top:
  assumes "inv m" "\<forall>j \<in> dom (get m). j \<le> k \<longrightarrow> j \<le> k'" "k' \<le> k"
  shows "seek_for_prev k (insert k' v m) = Some (k', v)"
  using assms by (subst seek_prev_Some) (auto simp: inv_insert get_insert)

lemma inv_fold_remove: "inv m \<Longrightarrow> inv (fold remove ks m)"
  by (induction ks arbitrary: m) (auto simp: inv_remove)

lemma get_fold_remove: "inv m \<Longrightarrow> get (fold remove ks m) = (\<lambda>k. if k \<in> set ks then None else get m k)"
  by (induction ks arbitrary: m) (auto simp: inv_remove get_remove fun_eq_iff)

end

lemma bm_get_last:
  assumes "bm_inv m"
  shows "bm_last m = Some (k, v) \<longleftrightarrow> bm_get m k = Some v \<and> (\<forall>j \<in> dom (bm_get m). j \<le> k)"
proof (cases m rule: rev_cases)
  case (snoc xs x)
  obtain k' v' where x: "x = (k', v')" by (cases x)
  have less: "j < k'" if "(j, w) \<in> set xs" for j w
    using assms that by (auto simp: snoc x bm_inv_def sorted_wrt_append)
  have dom: "bm_get m j = Some w \<longleftrightarrow> (j, w) \<in> set xs \<or> (j = k' \<and> w = v')" for j w
    using assms bm.in_entries_iff [of m j w] by (auto simp: snoc x)
  have "bm_last m = Some (k', v')" by (simp add: bm_last_def snoc x)
  moreover have "k = k'" if "bm_get m k = Some v" "\<forall>j \<in> dom (bm_get m). j \<le> k"
  proof -
    have "k' \<in> dom (bm_get m)" using dom [of k' v'] by auto
    then have "k' \<le> k" using that by blast
    then show ?thesis using less dom [of k v] that by fastforce
  qed
  ultimately show ?thesis using less dom by (auto simp: less_imp_le)
qed (auto simp: bm_last_def bm_get_def)

interpretation tbl: seekable_map "[]" "bm_insert :: 'k::linorder \<Rightarrow> 'v \<Rightarrow> _" bm_get "\<lambda>m. m" bm_inv bm_remove bm_seek_for_prev
proof unfold_locales
  fix m :: "('k, 'v) bmap" and k k' :: 'k and v :: 'v
  assume m: "bm_inv m"
  then show "bm_inv (bm_remove k m)" by (simp add: bm_remove_def)
  show "bm_get (bm_remove k m) = (bm_get m)(k := None)"
    using m bm_get_filter [of m "\<lambda>j. j \<noteq> k"] by (auto simp: bm_remove_def fun_eq_iff)
  have "bm_get (filter (\<lambda>(k', _). k' \<le> k) m) = (\<lambda>j. if j \<le> k then bm_get m j else None)"
    using m bm_get_filter [of m "\<lambda>j. j \<le> k"] by (auto simp: fun_eq_iff)
  then show "bm_seek_for_prev k m = Some (k', v) \<longleftrightarrow>
      bm_get m k' = Some v \<and> k' \<le> k \<and> (\<forall>j \<in> dom (bm_get m). j \<le> k \<longrightarrow> j \<le> k')"
    unfolding bm_seek_for_prev_def using m by (subst bm_get_last) (auto split: if_splits)
qed

lemmas tbl_laws [simp] = tbl.inv_remove tbl.get_remove tbl.inv_fold_remove tbl.get_fold_remove

subsection \<open>Ranges\<close>

lemma set_u64_range [simp]: "set (u64_range a b) = {a..b}"
proof -
  have "w \<in> of_nat ` {unat a..<Suc (unat b)}" if "a \<le> w" "w \<le> b" for w :: u64
    using that by (intro image_eqI [of _ _ "unat w"]) (auto simp: word_le_nat_alt less_Suc_eq_le)
  moreover have "a \<le> of_nat n \<and> of_nat n \<le> b" if "unat a \<le> n" "n \<le> unat b" for n
  proof -
    have "n < 2 ^ 64" using that(2) unsigned_less [of b, where ?'a = nat] by simp
    then have "unat (of_nat n :: u64) = n" by (simp add: unat_of_nat take_bit_nat_eq_self_iff)
    then show ?thesis using that by (simp add: word_le_nat_alt)
  qed
  moreover have "set (u64_range a b) = of_nat ` {unat a..<Suc (unat b)}"
    by (simp only: u64_range_def set_map set_upt)
  ultimately show ?thesis by (fastforce simp del: set_upt atLeastLessThanSuc)
qed

lemma sorted_u64_range: "sorted_wrt (<) (u64_range a b)"
proof -
  have "(of_nat i :: u64) < of_nat j" if "i < j" "j \<le> unat b" for i j
  proof -
    have "j < 2 ^ 64" using that(2) unsigned_less [of b, where ?'a = nat] by simp
    then have "unat (of_nat i :: u64) = i" "unat (of_nat j :: u64) = j"
      using that by (simp_all add: unat_of_nat take_bit_nat_eq_self_iff)
    then show ?thesis using that by (simp add: word_less_nat_alt)
  qed
  then have "sorted_wrt (\<lambda>i j. (of_nat i :: u64) < of_nat j) [unat a..<Suc (unat b)]"
    by (intro sorted_wrt_mono_rel [OF _ sorted_wrt_upt]) auto
  then show ?thesis by (simp add: u64_range_def sorted_wrt_map)
qed

lemma length_u64_range: "length (u64_range a b) = Suc (unat b) - unat a"
  by (simp add: u64_range_def del: upt_Suc)

lemma bm_filter_le_append:
  "bm_inv m \<Longrightarrow> filter (\<lambda>(k, _). k \<le> b) m @ filter (\<lambda>(k, _). \<not> k \<le> b) m = m"
proof (induction m)
  case (Cons x m)
  show ?case
  proof (cases "fst x \<le> b")
    case False
    then have "\<forall>y \<in> set m. \<not> fst y \<le> b" using Cons.prems by (auto simp: bm_inv_Cons)
    then have "filter (\<lambda>(k, _). k \<le> b) m = []" "filter (\<lambda>(k, _). \<not> k \<le> b) m = m"
      by (auto simp: filter_empty_conv filter_id_conv)
    then show ?thesis using False by (cases x) simp
  next
    case True
    then show ?thesis using Cons by (cases x) (simp add: bm_inv_Cons)
  qed
qed simp

text \<open>A range without gaps is read as it is.\<close>

lemma get_l2_block_range_stored:
  assumes "bm_inv (l2_block_by_number db)" "a \<le> b" "b < - 1"
    and stored: "\<And>h. a \<le> h \<Longrightarrow> h \<le> b \<Longrightarrow> bm_get (l2_block_by_number db) h = Some (f h)"
    and size: "(Suc (unat b) - unat a) * 208 \<le> isize_MAX"
  shows "get_l2_block_range db a b = Some (map f (u64_range a b))"
proof -
  define m where "m = l2_block_by_number db"
  define L where "L = map (\<lambda>h. (h, f h)) (u64_range a b)"
  have inv: "bm_inv m" "bm_inv L"
    using assms(1) sorted_u64_range by (auto simp: m_def L_def bm_inv_def comp_def)
  have "bm_get (filter (\<lambda>(k, _). k \<le> b) (bm_seek a m)) h = (if a \<le> h \<and> h \<le> b then bm_get m h else None)" for h
    using inv(1) bm_get_filter [of "bm_seek a m" "\<lambda>k. k \<le> b" h] bm_get_filter [of m "\<lambda>k. a \<le> k" h]
    by (simp add: bm_seek_def)
  moreover have "bm_get L h = (if a \<le> h \<and> h \<le> b then Some (f h) else None)" for h
    by (auto simp: bm_get_def L_def map_of_map_keys restrict_map_def [symmetric] map_of_eq_None_iff map_of_map_restrict restrict_map_def)
  ultimately have "bm_get (filter (\<lambda>(k, _). k \<le> b) (bm_seek a m)) = bm_get L"
    using stored by (auto simp: m_def fun_eq_iff)
  then have "filter (\<lambda>(k, _). k \<le> b) (bm_seek a m) = L"
    using inv by (intro bm.entries_ext) (auto simp: bm_seek_def)
  then have seek: "bm_seek a m = L @ filter (\<lambda>(k, _). \<not> k \<le> b) (bm_seek a m)"
    using bm_filter_le_append [of "bm_seek a m" b] inv(1) by (simp add: bm_seek_def)
  have "b + 1 \<noteq> 0" using assms(3) by (metis add_eq_0_iff2 word_not_simps(1) order_less_irrefl add.commute)
  then have "unat (b + 1) = Suc (unat b)" by (simp add: unatSuc add.commute)
  then have n: "unat (b + 1 - a) = length L"
    using assms(2) by (simp add: L_def length_u64_range unat_sub word_le_nat_alt)
  have "take (length L) (bm_seek a m) = L" by (subst seek) simp
  then show ?thesis
    using size by (simp add: get_l2_block_range_def get_data_range_def n m_def [symmetric] Let_def)
      (simp add: L_def length_u64_range comp_def)
qed

end
