(* ===== verification/Full_Node.thy ===== *)
theory Full_Node
  imports Ledger_Db
begin

section \<open>The L1 block handler of the full node\<close>

text \<open>
  \<^verbatim>\<open>fullnode/src/da_block_handler.rs\<close>: a node that has executed the L2 blocks itself reads the sequencer commitments and
  batch proofs of each L1 block, checks them against its own blocks and keeps the highest committed and
  proven heights. The state is the ledger database; an operation that may panic is an option, and a
  \<^verbatim>\<open>Result\<close> comes with the database as the operation left it. The DA service and the zkVM are interfaces of the code, so
  they are the records \<^verbatim>\<open>da_service\<close> and \<^verbatim>\<open>node_env\<close>. Logs, metrics, timers and the lock of
  the backup manager are left out.
\<close>

subsection \<open>Errors\<close>

datatype proof_error =
    SequencerCommitmentMissingForProof u32
  | UnknownL1Hash
  | PreStateRootMismatch hash32 hash32
  | SequencerCommitmentHashMismatch hash32 hash32
  | ProofErrorOther string

datatype commitment_error = MerkleRootMismatch hash32 hash32 | CommitmentErrorOther string

datatype halting_error = HaltingProof proof_error | HaltingCommitment commitment_error

datatype skippable_error = SkippableProof proof_error | SkippableCommitment commitment_error

datatype processing_error = HaltingError halting_error | SkippableError skippable_error | ProcessingOther string

datatype processing_result = Success | Discarded | Pending

type_synonym 'a node_result = "(ledger_db \<times> (processing_error + 'a)) option"

subsection \<open>Interfaces\<close>

datatype proof_or_commitment = ProofItem zk_proof | CommitmentItem sequencer_commitment

record 'b da_service =
  da_header_height :: "'b \<Rightarrow> u64"
  da_header_hash :: "'b \<Rightarrow> hash32"
  da_short_header_proof :: "'b \<Rightarrow> bytes"
  extract_relevant_zk_proofs :: "'b \<Rightarrow> bytes \<Rightarrow> (nat \<times> zk_proof) list"
  extract_relevant_sequencer_commitments :: "'b \<Rightarrow> bytes \<Rightarrow> (nat \<times> sequencer_commitment) list"

record node_env =
  n_l2 :: l2_env
  n_forks :: forks_cell
  n_network :: network
  n_sequencer_da_pub_key :: bytes
  n_prover_da_pub_key :: bytes
  n_code_commitments_by_spec :: "spec_id \<Rightarrow> method_id option"
  n_extract_output :: "zk_proof \<Rightarrow> batch_proof_circuit_output option"
  n_verify :: "zk_proof \<Rightarrow> method_id \<Rightarrow> bool \<Rightarrow> bool"

text \<open>
  \<^verbatim>\<open>common/src/da.rs\<close>: what a block carries, in the order of its transactions; \<^verbatim>\<open>sort_by_key\<close> is stable. The
  batch prover takes the commitments alone, in the order of their indices.
\<close>

definition extract_zk_proofs_and_sequencer_commitments :: "'b da_service \<Rightarrow> 'b \<Rightarrow> bytes \<Rightarrow> bytes \<Rightarrow> proof_or_commitment list" where
  "extract_zk_proofs_and_sequencer_commitments D b prover_key sequencer_key =
     map snd (sort_key fst
       (map (\<lambda>(i, p). (i, ProofItem p)) (extract_relevant_zk_proofs D b prover_key)
        @ map (\<lambda>(i, c). (i, CommitmentItem c)) (extract_relevant_sequencer_commitments D b sequencer_key)))"

definition extract_sequencer_commitments :: "'b da_service \<Rightarrow> 'b \<Rightarrow> bytes \<Rightarrow> sequencer_commitment list" where
  "extract_sequencer_commitments D b sequencer_key =
     sort_key sc_index (map snd (extract_relevant_sequencer_commitments D b sequencer_key))"

subsection \<open>Commitments\<close>

text \<open>The first L2 height of a commitment: \<^const>\<open>None\<close> inside when its predecessor is not stored.\<close>

definition commitment_start :: "node_env \<Rightarrow> ledger_db \<Rightarrow> sequencer_commitment \<Rightarrow> u64 option option" where
  "commitment_start N db c =
     (if sc_index c = 1 then map_option Some (get_tangerine_activation_height_non_zero (n_forks N))
      else Some (map_option (\<lambda>p. sc_l2_end_block_number p + 1) (get_commitment_by_index db (sc_index c - 1))))"

text \<open>A commitment is stale if it does not exceed the highest committed height and index.\<close>

definition commitment_stale :: "ledger_db \<Rightarrow> sequencer_commitment \<Rightarrow> bool" where
  "commitment_stale db c =
     (case get_highest_l2_height_for_status db Committed None of
        Some h \<Rightarrow> sc_l2_end_block_number c \<le> hi_height h \<or> sc_index c \<le> hi_commitment_index h
      | None \<Rightarrow> False)"

text \<open>The state after a commitment whose root has been checked.\<close>

definition store_commitment :: "u64 \<Rightarrow> u64 \<Rightarrow> u64 \<Rightarrow> sequencer_commitment \<Rightarrow> ledger_db \<Rightarrow> ledger_db" where
  "store_commitment current found_in start c db =
     set_l2_height_status Committed current \<lparr> hi_height = sc_l2_end_block_number c, hi_commitment_index = sc_index c \<rparr>
       (put_commitment_by_index c
         (set_l2_range_by_commitment_merkle_root (sc_merkle_root c) (start, sc_l2_end_block_number c)
           (update_commitments_on_da_slot found_in c db)))"

definition check_commitment_root :: "node_env \<Rightarrow> ledger_db \<Rightarrow> u64 \<Rightarrow> sequencer_commitment \<Rightarrow> (processing_error + unit) option" where
  "check_commitment_root N db start c = do {
     blocks \<leftarrow> get_l2_block_range db start (sc_l2_end_block_number c);
     let root = rs_merkle_root (n_l2 N) (l2_sha256 (n_l2 N)) (map sb_hash blocks);
     Some (if root = Some (sc_merkle_root c) then Ok ()
       else case root of
              Some r \<Rightarrow> Err (HaltingError (HaltingCommitment (MerkleRootMismatch r (sc_merkle_root c))))
            | None \<Rightarrow> Err (ProcessingOther ''Could not calculate l2 block tree root''))
   }"

definition process_sequencer_commitment ::
  "node_env \<Rightarrow> u64 \<Rightarrow> u64 \<Rightarrow> sequencer_commitment \<Rightarrow> ledger_db \<Rightarrow> processing_result node_result" where
  "process_sequencer_commitment N current found_in c db =
     (if get_commitment_by_index db (sc_index c) \<noteq> None \<or> commitment_stale db c then Some (db, Ok Discarded)
      else do {
        start \<leftarrow> commitment_start N db c;
        (case start of
           None \<Rightarrow> Some (store_pending_commitment c found_in db, Ok Pending)
         | Some s \<Rightarrow>
             if or_else (get_head_l2_block_height db) 0 < sc_l2_end_block_number c then
               Some (if get_pending_commitment_by_index db (sc_index c) = None
                     then store_pending_commitment c found_in db else db, Ok Pending)
             else do {
               r \<leftarrow> check_commitment_root N db s c;
               (case r of
                  Inl e \<Rightarrow> Some (db, Err e)
                | Inr _ \<Rightarrow> Some (store_commitment current found_in s c db, Ok Success))
             })
      })"

text \<open>The loop over the pending commitments, as the table was when it began.\<close>

definition pending_processable :: "ledger_db \<Rightarrow> u32 \<Rightarrow> sequencer_commitment \<Rightarrow> bool" where
  "pending_processable db i c =
     (if i = 1 then sc_l2_end_block_number c \<le> or_else (get_head_l2_block_height db) 0
      else get_commitment_by_index db (i - 1) \<noteq> None)"

fun pending_commitments_loop ::
  "node_env \<Rightarrow> u64 \<Rightarrow> (u32 \<times> sequencer_commitment \<times> u64) list \<Rightarrow> ledger_db \<Rightarrow> unit node_result" where
  "pending_commitments_loop N current [] db = Some (db, Ok ())"
| "pending_commitments_loop N current ((i, c, found_in) # rest) db =
     (if \<not> pending_processable db i c then Some (db, Ok ())
      else do {
        (db1, r) \<leftarrow> process_sequencer_commitment N current found_in c db;
        (case r of
           Inl (HaltingError (HaltingCommitment e)) \<Rightarrow> Some (db1, Err (HaltingError (HaltingCommitment e)))
         | Inl _ \<Rightarrow> Some (db1, Ok ())
         | Inr Pending \<Rightarrow> pending_commitments_loop N current rest db1
         | Inr _ \<Rightarrow> pending_commitments_loop N current rest (remove_pending_commitment i db1))
      })"

definition process_pending_commitments :: "node_env \<Rightarrow> u64 \<Rightarrow> ledger_db \<Rightarrow> unit node_result" where
  "process_pending_commitments N current db = pending_commitments_loop N current (pending_sequencer_commitments db) db"

subsection \<open>Proofs\<close>

text \<open>The end height of the commitment, and whether it is still pending.\<close>

definition verify_sequencer_commitment_hash_by_index ::
  "node_env \<Rightarrow> ledger_db \<Rightarrow> u32 \<Rightarrow> hash32 \<Rightarrow> processing_error + u64 \<times> bool" where
  "verify_sequencer_commitment_hash_by_index N db i expected =
     (let check = (\<lambda>c pending.
            if serialize_and_calculate_sha_256 (n_l2 N) c \<noteq> expected
            then Err (SkippableError (SkippableProof
                   (SequencerCommitmentHashMismatch (serialize_and_calculate_sha_256 (n_l2 N) c) expected)))
            else Ok (sc_l2_end_block_number c, pending))
      in case get_commitment_by_index db i of
           Some c \<Rightarrow> check c False
         | None \<Rightarrow>
             (case get_pending_commitment_by_index db i of
                Some (c, _) \<Rightarrow> check c True
              | None \<Rightarrow> Err (SkippableError (SkippableProof (SequencerCommitmentMissingForProof i)))))"

fun verify_commitment_hashes :: "node_env \<Rightarrow> ledger_db \<Rightarrow> (u32 \<times> hash32) list \<Rightarrow> bool \<Rightarrow> processing_error + bool" where
  "verify_commitment_hashes N db [] pending = Ok pending"
| "verify_commitment_hashes N db ((i, h) # rest) pending =
     and_then (verify_sequencer_commitment_hash_by_index N db i h)
       (\<lambda>(_, p). verify_commitment_hashes N db rest (pending \<or> p))"

text \<open>The height before the first block of a proof; the hash of the previous commitment is expected where its index is given.\<close>

definition previous_l2_end ::
  "node_env \<Rightarrow> ledger_db \<Rightarrow> batch_proof_circuit_output \<Rightarrow> (processing_error + u64 \<times> bool) option" where
  "previous_l2_end N db out =
     (case previous_commitment_index out of
        Some i \<Rightarrow> do {
          h \<leftarrow> previous_commitment_hash out;
          Some (verify_sequencer_commitment_hash_by_index N db i h)
        }
      | None \<Rightarrow> do {
          t \<leftarrow> get_tangerine_activation_height_non_zero (n_forks N);
          Some (Ok (t - 1, False))
        })"

text \<open>The end of the function: the state root the proof starts from, the gap check and the updates.\<close>

definition conclude_proof ::
  "u64 \<Rightarrow> u64 \<Rightarrow> hash32 \<Rightarrow> zk_proof \<Rightarrow> batch_proof_circuit_output \<Rightarrow> l2_height_and_index \<Rightarrow> u64 \<Rightarrow> bool \<Rightarrow> ledger_db \<Rightarrow>
   ledger_db \<times> (processing_error + processing_result)" where
  "conclude_proof current found_in initial_root p out proven previous_end pending db =
     (let (first, lst) = sequencer_commitment_index_range out in
      if pending then (store_pending_proof first lst p found_in db, Ok Pending)
      else case get_l2_state_root db previous_end of
             None \<Rightarrow> (db, Err (ProcessingOther ''Proof verification: Could not find state root for L2 height''))
           | Some start_root \<Rightarrow>
               if start_root \<noteq> initial_root
               then (db, Err (SkippableError (SkippableProof (PreStateRootMismatch initial_root start_root))))
               else if hi_commitment_index proven + 1 < first
               then (store_pending_proof first lst p found_in db, Ok Pending)
               else (set_l2_height_status Proven current
                       \<lparr> hi_height = output_last_l2_height out, hi_commitment_index = lst \<rparr>
                       (update_verified_proof_data found_in p (stored_output out) db), Ok Success))"

definition process_tangerine_zk_proof ::
  "node_env \<Rightarrow> u64 \<Rightarrow> u64 \<Rightarrow> hash32 \<Rightarrow> zk_proof \<Rightarrow> batch_proof_circuit_output \<Rightarrow> ledger_db \<Rightarrow> processing_result node_result" where
  "process_tangerine_zk_proof N current found_in initial_root p out db =
     (if get_l1_height_of_l1_hash db (last_l1_hash_on_bitcoin_light_client_contract out) = None
      then Some (db, Err (SkippableError (SkippableProof UnknownL1Hash)))
      else
        let (first, lst) = sequencer_commitment_index_range out;
            proven = or_else (get_highest_l2_height_for_status db Proven None) hi_default;
            committed = or_else (get_highest_l2_height_for_status db Committed None) hi_default
        in if output_last_l2_height out \<le> hi_height proven \<or> lst \<le> hi_commitment_index proven
           then Some (db, Ok Discarded)
           else do {
             assert_that (\<not> hi_less committed proven);
             prev \<leftarrow> previous_l2_end N db out;
             Some (case and_then prev (\<lambda>(previous_end, pending).
                     map_ok (\<lambda>pending'. (previous_end, pending'))
                       (verify_commitment_hashes N db (zip (u32_range first lst) (sequencer_commitment_hashes out)) pending)) of
                 Inl e \<Rightarrow> (db, Err e)
               | Inr (previous_end, pending) \<Rightarrow>
                   conclude_proof current found_in initial_root p out proven previous_end pending db)
           })"

definition process_zk_proof :: "node_env \<Rightarrow> u64 \<Rightarrow> u64 \<Rightarrow> zk_proof \<Rightarrow> ledger_db \<Rightarrow> processing_result node_result" where
  "process_zk_proof N current found_in p db =
     (case n_extract_output N p of
        None \<Rightarrow> Some (db, Ok Discarded)
      | Some out \<Rightarrow> do {
          f \<leftarrow> fork_from_block_number (n_forks N) (output_last_l2_height out);
          code_commitment \<leftarrow> n_code_commitments_by_spec N (fork_spec_id f);
          if \<not> n_verify N p code_commitment (network_to_dev_mode (n_network N)) then Some (db, Ok Discarded)
          else do {
            initial_root \<leftarrow> output_initial_state_root out;
            process_tangerine_zk_proof N current found_in initial_root p out db
          }
        })"

fun pending_proofs_loop ::
  "node_env \<Rightarrow> u64 \<Rightarrow> ((u32 \<times> u32) \<times> zk_proof \<times> u64) list \<Rightarrow> ledger_db \<Rightarrow> ledger_db option" where
  "pending_proofs_loop N current [] db = Some db"
| "pending_proofs_loop N current (((a, b), p, found_in) # rest) db = do {
     (db1, r) \<leftarrow> process_zk_proof N current found_in p db;
     (case r of
        Inl _ \<Rightarrow> Some db1
      | Inr Pending \<Rightarrow> Some db1
      | Inr _ \<Rightarrow> pending_proofs_loop N current rest (remove_pending_proof a b db1))
   }"

definition process_pending_proofs :: "node_env \<Rightarrow> u64 \<Rightarrow> ledger_db \<Rightarrow> ledger_db option" where
  "process_pending_proofs N current db = pending_proofs_loop N current (pending_proofs db) db"

subsection \<open>Blocks\<close>

text \<open>
  The loop over what a block carries: a commitment whose root differs stops the handler, any other
  error of a commitment is \<^verbatim>\<open>unreachable!\<close>, errors of a proof are skipped.
\<close>

fun process_items :: "node_env \<Rightarrow> u64 \<Rightarrow> proof_or_commitment list \<Rightarrow> ledger_db \<Rightarrow> (ledger_db \<times> (halting_error + unit)) option" where
  "process_items N height [] db = Some (db, Ok ())"
| "process_items N height (CommitmentItem c # rest) db =
     (if sc_index c = 0 then process_items N height rest db
      else do {
        (db1, r) \<leftarrow> process_sequencer_commitment N height height c db;
        (case r of
           Inl (HaltingError (HaltingCommitment e)) \<Rightarrow> Some (db1, Err (HaltingCommitment e))
         | Inl _ \<Rightarrow> None
         | Inr _ \<Rightarrow> process_items N height rest db1)
      })"
| "process_items N height (ProofItem p # rest) db = do {
     (db1, r) \<leftarrow> process_zk_proof N height height p db;
     (case r of
        Inl (HaltingError (HaltingProof _)) \<Rightarrow> None
      | _ \<Rightarrow> process_items N height rest db1)
   }"

definition process_l1_block :: "node_env \<Rightarrow> 'b da_service \<Rightarrow> 'b \<Rightarrow> ledger_db \<Rightarrow> (ledger_db \<times> (halting_error + unit)) option" where
  "process_l1_block N D b db = do {
     let db1 = put_short_header_proof_by_l1_hash (da_header_hash D b) (da_short_header_proof D b) db;
     let height = da_header_height D b;
     let db2 = set_l1_height_of_l1_hash (da_header_hash D b) height db1;
     (db3, r) \<leftarrow> process_items N height
       (extract_zk_proofs_and_sequencer_commitments D b (n_prover_da_pub_key N) (n_sequencer_da_pub_key N)) db2;
     (case r of
        Inl e \<Rightarrow> Some (db3, Err e)
      | Inr _ \<Rightarrow> do {
          (db4, r') \<leftarrow> process_pending_commitments N height db3;
          (case r' of
             Inl (HaltingError (HaltingCommitment e)) \<Rightarrow> Some (db4, Err (HaltingCommitment e))
           | Inl _ \<Rightarrow> None
           | Inr _ \<Rightarrow> do {
               db5 \<leftarrow> process_pending_proofs N height db4;
               Some (set_last_scanned_l1_height height db5, Ok ())
             })
        })
   }"

text \<open>The queue: a block leaves it once it has been processed.\<close>

fun process_queued_l1_blocks :: "node_env \<Rightarrow> 'b da_service \<Rightarrow> 'b list \<Rightarrow> ledger_db \<Rightarrow> (ledger_db \<times> 'b list \<times> (halting_error + unit)) option" where
  "process_queued_l1_blocks N D [] db = Some (db, [], Ok ())"
| "process_queued_l1_blocks N D (b # queue) db = do {
     (db1, r) \<leftarrow> process_l1_block N D b db;
     (case r of
        Inl e \<Rightarrow> Some (db1, b # queue, Err e)
      | Inr _ \<Rightarrow> process_queued_l1_blocks N D queue db1)
   }"

end
