(* ===== verification/Full_Node_Inv.thy ===== *)
theory Full_Node_Inv
  imports Full_Node
begin

section \<open>The invariant of the full node\<close>

text \<open>
  What the ledger of a full node satisfies while L1 blocks are processed and L2 blocks are added: commitments are stored without
  gaps from index 1 on, each covers the blocks after its predecessor's and has their Merkle root, the
  committed height is the last commitment's end, the proven height the end of a stored commitment, and every
  stored proof was verified and starts from the node's own state.
\<close>

subsection \<open>Views of the database\<close>

definition node_blocks :: "ledger_db \<Rightarrow> u64 \<Rightarrow> stored_l2_block option" where
  "node_blocks db = bm_get (l2_block_by_number db)"

definition node_head :: "ledger_db \<Rightarrow> u64" where
  "node_head db = or_else (get_head_l2_block_height db) 0"

definition block_hashes :: "ledger_db \<Rightarrow> u64 \<Rightarrow> u64 \<Rightarrow> hash32 list" where
  "block_hashes db a b = map (\<lambda>h. sb_hash (the (node_blocks db h))) (u64_range a b)"

abbreviation highest :: "ledger_db \<Rightarrow> l2_height_status \<Rightarrow> l2_height_and_index option" where
  "highest db s \<equiv> get_highest_l2_height_for_status db s None"

text \<open>The first height a commitment covers.\<close>

definition start_of :: "u64 \<Rightarrow> ledger_db \<Rightarrow> u32 \<Rightarrow> u64" where
  "start_of t db i = (if i = 1 then t else
     (case get_commitment_by_index db (i - 1) of Some p \<Rightarrow> sc_l2_end_block_number p + 1 | None \<Rightarrow> 0))"

definition tables_sorted :: "ledger_db \<Rightarrow> bool" where
  "tables_sorted db \<longleftrightarrow> bm_inv (l2_block_by_number db) \<and> bm_inv (sequencer_commitment_by_index db)
     \<and> bm_inv (l2_status_heights db) \<and> bm_inv (pending_sequencer_commitments db) \<and> bm_inv (pending_proofs db)
     \<and> bm_inv (verified_batch_proofs_by_slot_number db)"

definition blocks_inv :: "ledger_db \<Rightarrow> bool" where
  "blocks_inv db \<longleftrightarrow> dom (node_blocks db) = {1..node_head db} \<and> unat (node_head db) < 2 ^ 55"

definition commitments_inv :: "node_env \<Rightarrow> u64 \<Rightarrow> sequencer_commitment set \<Rightarrow> ledger_db \<Rightarrow> bool" where
  "commitments_inv N t U db \<longleftrightarrow> (\<forall>i c. get_commitment_by_index db i = Some c \<longrightarrow>
     c \<in> U \<and> sc_index c = i \<and> i \<noteq> 0 \<and> (i \<noteq> 1 \<longrightarrow> get_commitment_by_index db (i - 1) \<noteq> None)
     \<and> start_of t db i \<le> sc_l2_end_block_number c \<and> sc_l2_end_block_number c \<le> node_head db
     \<and> rs_merkle_root (n_l2 N) (l2_sha256 (n_l2 N)) (block_hashes db (start_of t db i) (sc_l2_end_block_number c))
         = Some (sc_merkle_root c))"

definition status_upto :: "u64 \<Rightarrow> ledger_db \<Rightarrow> bool" where
  "status_upto L db \<longleftrightarrow> (\<forall>s h. bm_get (l2_status_heights db) (s, h) \<noteq> None \<longrightarrow> h \<le> L)"

definition status_inv :: "ledger_db \<Rightarrow> bool" where
  "status_inv db \<longleftrightarrow>
     (highest db Committed = None \<longrightarrow> (\<forall>i. get_commitment_by_index db i = None))
     \<and> (\<forall>v. highest db Committed = Some v \<longrightarrow>
          (\<exists>c. get_commitment_by_index db (hi_commitment_index v) = Some c \<and> sc_l2_end_block_number c = hi_height v)
          \<and> (\<forall>i. get_commitment_by_index db i \<noteq> None \<longrightarrow> i \<le> hi_commitment_index v))
     \<and> (\<forall>v. highest db Proven = Some v \<longrightarrow>
          (\<exists>c. get_commitment_by_index db (hi_commitment_index v) = Some c \<and> sc_l2_end_block_number c = hi_height v))"

definition pending_inv :: "u64 \<Rightarrow> sequencer_commitment set \<Rightarrow> ledger_db \<Rightarrow> bool" where
  "pending_inv t U db \<longleftrightarrow> (\<forall>i c f. get_pending_commitment_by_index db i = Some (c, f) \<longrightarrow>
     c \<in> U \<and> sc_index c = i \<and> i \<noteq> 0 \<and> (i = 1 \<longrightarrow> t \<le> sc_l2_end_block_number c))"

text \<open>What was checked of a proof: the zkVM, the stored commitments and the state it starts from.\<close>

definition zk_verified :: "node_env \<Rightarrow> zk_proof \<Rightarrow> batch_proof_circuit_output \<Rightarrow> bool" where
  "zk_verified N p out \<longleftrightarrow> n_extract_output N p = Some out
     \<and> (\<exists>f m. fork_from_block_number (n_forks N) (output_last_l2_height out) = Some f
          \<and> n_code_commitments_by_spec N (fork_spec_id f) = Some m \<and> n_verify N p m (network_to_dev_mode (n_network N)))"

definition output_commitments :: "batch_proof_circuit_output \<Rightarrow> (u32 \<times> hash32) list" where
  "output_commitments out = zip (u32_range (fst (sequencer_commitment_index_range out)) (snd (sequencer_commitment_index_range out)))
     (sequencer_commitment_hashes out)"

definition hashes_stored :: "node_env \<Rightarrow> ledger_db \<Rightarrow> (u32 \<times> hash32) list \<Rightarrow> bool" where
  "hashes_stored N db ps \<longleftrightarrow> (\<forall>i h. (i, h) \<in> set ps \<longrightarrow>
     (\<exists>c. get_commitment_by_index db i = Some c \<and> serialize_and_calculate_sha_256 (n_l2 N) c = h))"

definition previous_known :: "node_env \<Rightarrow> u64 \<Rightarrow> ledger_db \<Rightarrow> batch_proof_circuit_output \<Rightarrow> u64 \<Rightarrow> bool" where
  "previous_known N t db out e \<longleftrightarrow>
     (case previous_commitment_index out of
        None \<Rightarrow> e = t - 1
      | Some i \<Rightarrow> \<exists>c. get_commitment_by_index db i = Some c
          \<and> previous_commitment_hash out = Some (serialize_and_calculate_sha_256 (n_l2 N) c)
          \<and> e = sc_l2_end_block_number c)"

definition proof_checked :: "node_env \<Rightarrow> u64 \<Rightarrow> ledger_db \<Rightarrow> zk_proof \<Rightarrow> batch_proof_circuit_output \<Rightarrow> bool" where
  "proof_checked N t db p out \<longleftrightarrow> zk_verified N p out \<and> hashes_stored N db (output_commitments out)
     \<and> (\<exists>e r. get_l2_state_root db e = Some r \<and> output_initial_state_root out = Some r \<and> previous_known N t db out e)"

definition proofs_inv :: "node_env \<Rightarrow> u64 \<Rightarrow> ledger_db \<Rightarrow> bool" where
  "proofs_inv N t db \<longleftrightarrow> (\<forall>h vps. bm_get (verified_batch_proofs_by_slot_number db) h = Some vps \<longrightarrow>
     (\<forall>vp \<in> set vps. \<exists>out. proof_checked N t db (vp_proof vp) out \<and> vp_proof_output vp = stored_output out))"

definition node_inv :: "node_env \<Rightarrow> u64 \<Rightarrow> sequencer_commitment set \<Rightarrow> u64 \<Rightarrow> ledger_db \<Rightarrow> bool" where
  "node_inv N t U L db \<longleftrightarrow> tables_sorted db \<and> blocks_inv db \<and> commitments_inv N t U db \<and> status_upto L db
     \<and> status_inv db \<and> pending_inv t U db \<and> proofs_inv N t db"

text \<open>Nothing is taken back: blocks and commitments stay, the two heights do not fall.\<close>

definition node_extends :: "ledger_db \<Rightarrow> ledger_db \<Rightarrow> bool" where
  "node_extends db db' \<longleftrightarrow> node_blocks db \<subseteq>\<^sub>m node_blocks db' \<and> get_commitment_by_index db \<subseteq>\<^sub>m get_commitment_by_index db'
     \<and> l2_genesis_state_root db' = l2_genesis_state_root db
     \<and> (\<forall>s v. highest db s = Some v \<longrightarrow> (\<exists>v'. highest db' s = Some v' \<and> hi_height v \<le> hi_height v'
          \<and> hi_commitment_index v \<le> hi_commitment_index v'))"

lemma node_extends_refl [simp]: "node_extends db db"
  by (auto simp: node_extends_def)

lemma node_extends_trans: "node_extends a b \<Longrightarrow> node_extends b c \<Longrightarrow> node_extends a c"
  unfolding node_extends_def by (fastforce intro: map_le_trans order_trans)

subsection \<open>Statuses\<close>

lemma highest_iff:
  assumes "bm_inv (l2_status_heights db)"
  shows "highest db s = Some v \<longleftrightarrow> (\<exists>h. bm_get (l2_status_heights db) (s, h) = Some v
     \<and> (\<forall>h'. bm_get (l2_status_heights db) (s, h') \<noteq> None \<longrightarrow> h' \<le> h))"
proof -
  let ?m = "l2_status_heights db"
  have le: "(a, b) \<le> (s, h) \<longleftrightarrow> a < s \<or> a = s \<and> b \<le> h" for a and b h :: u64
    by (auto simp: less_eq_prod_def)
  have key: "bm_seek_for_prev (s, - 1) ?m = Some ((s, h), v) \<longleftrightarrow>
      bm_get ?m (s, h) = Some v \<and> (\<forall>h'. bm_get ?m (s, h') \<noteq> None \<longrightarrow> h' \<le> h)" for h
    by (subst tbl.seek_prev_Some [OF assms])
      (auto simp: le dom_def word_order.extremum simp del: less_eq_prod_simp)
  have "highest db s = Some v \<longleftrightarrow> (\<exists>h. bm_seek_for_prev (s, - 1) ?m = Some ((s, h), v))"
    by (auto simp: get_highest_l2_height_for_status_def or_else_def split: option.splits if_splits)
  then show ?thesis by (simp only: key)
qed

lemma highest_set_other:
  assumes "bm_inv (l2_status_heights db)" "s' \<noteq> s"
  shows "highest (set_l2_height_status s h v db) s' = highest db s'"
proof -
  have "highest (set_l2_height_status s h v db) s' = Some w \<longleftrightarrow> highest db s' = Some w" for w
    using assms by (subst (1 2) highest_iff) (auto simp: set_l2_height_status_def)
  then show ?thesis by (metis option.exhaust)
qed

lemma highest_set_same:
  assumes "bm_inv (l2_status_heights db)" "\<forall>h'. bm_get (l2_status_heights db) (s, h') \<noteq> None \<longrightarrow> h' \<le> h"
  shows "highest (set_l2_height_status s h v db) s = Some v"
  using assms by (subst highest_iff) (auto simp: set_l2_height_status_def)

subsection \<open>Blocks\<close>

lemma node_head_eq:
  assumes "bm_inv (l2_block_by_number db)" "dom (node_blocks db) = {1..h}"
  shows "node_head db = h"
proof (cases "h = 0")
  case True
  then have "node_blocks db = Map.empty" using assms(2) by simp
  then have "l2_block_by_number db = []"
    using bm.entries_ext [of "l2_block_by_number db" "[]"] assms(1) by (simp add: node_blocks_def)
  then show ?thesis using True by (simp add: node_head_def get_head_l2_block_height_def bm_last_def or_else_def)
next
  case False
  then have "h \<in> dom (node_blocks db)" using assms(2) by (simp add: word_le_nat_alt unat_gt_0 Suc_le_eq)
  then obtain b where "node_blocks db h = Some b" by auto
  then have "bm_last (l2_block_by_number db) = Some (h, b)"
    using assms by (subst bm_get_last) (auto simp: node_blocks_def [symmetric])
  then show ?thesis by (simp add: node_head_def get_head_l2_block_height_def or_else_def)
qed

lemma block_range:
  assumes "tables_sorted db" "blocks_inv db" "1 \<le> a" "a \<le> b" "b \<le> node_head db"
  shows "get_l2_block_range db a b = Some (map (\<lambda>h. the (node_blocks db h)) (u64_range a b))"
proof (rule get_l2_block_range_stored)
  have "unat b < 2 ^ 55" using assms(2,5) by (auto simp: blocks_inv_def word_le_nat_alt)
  then have n: "(Suc (unat b) - unat a) * 208 \<le> (2 ^ 55) * 208" by (intro mult_le_mono1) simp
  then show "(Suc (unat b) - unat a) * 208 \<le> isize_MAX" by (simp add: isize_MAX_def)
  show "b < - 1" using \<open>unat b < 2 ^ 55\<close> by (simp add: word_less_nat_alt unsigned_minus_1_eq_mask mask_eq_exp_minus_1)
  show "bm_get (l2_block_by_number db) h = Some (the (node_blocks db h))" if "a \<le> h" "h \<le> b" for h
  proof -
    have "h \<in> dom (node_blocks db)" using assms(2,3,5) that by (auto simp: blocks_inv_def)
    then show ?thesis by (auto simp: node_blocks_def)
  qed
qed (use assms in \<open>auto simp: tables_sorted_def\<close>)

subsection \<open>Commitments\<close>

lemma word_sub1_less: "i \<noteq> 0 \<Longrightarrow> unat (i - 1) = unat i - 1" for i :: "'a::len word"
  by (simp add: unat_sub word_le_nat_alt unat_gt_0 Suc_le_eq)

lemma commitments_mono:
  assumes "blocks_inv db" "commitments_inv N t U db" "get_commitment_by_index db i = Some c"
  shows "get_commitment_by_index db j = Some d \<Longrightarrow> i \<le> j \<Longrightarrow> sc_l2_end_block_number c \<le> sc_l2_end_block_number d"
proof (induction "unat j - unat i" arbitrary: j d)
  case 0
  then have "i = j" by (simp add: word_le_nat_alt word_eq_unat)
  then show ?case using 0 assms(3) by simp
next
  case (Suc n)
  have i0: "i \<noteq> 0" and j0: "j \<noteq> 0" and step: "j \<noteq> 1 \<longrightarrow> get_commitment_by_index db (j - 1) \<noteq> None"
    and start: "start_of t db j \<le> sc_l2_end_block_number d"
    using assms(2,3) Suc.prems(1) by (auto simp: commitments_inv_def)
  have j1: "j \<noteq> 1" using Suc.hyps(2) i0 by (metis Suc_neq_Zero diff_is_0_eq' le_SucI le_numeral_extra(4) not_less_eq_eq unat_1 unat_gt_0 Suc_leI One_nat_def)
  then obtain p where p: "get_commitment_by_index db (j - 1) = Some p" using step by auto
  have "n = unat (j - 1) - unat i" "i \<le> j - 1"
    using Suc.hyps(2) word_sub1_less [OF j0] by (auto simp: word_le_nat_alt)
  from Suc.hyps(1) [OF this(1) p this(2)] have "sc_l2_end_block_number c \<le> sc_l2_end_block_number p" .
  moreover have "sc_l2_end_block_number p \<le> sc_l2_end_block_number p + 1"
  proof -
    have "sc_l2_end_block_number p \<le> node_head db" using assms(2) p by (auto simp: commitments_inv_def)
    then have "unat (sc_l2_end_block_number p) < 2 ^ 55" using assms(1) by (auto simp: blocks_inv_def word_le_nat_alt)
    then show ?thesis by (simp add: word_le_nat_alt unat_word_ariths)
  qed
  ultimately show ?case using start j1 by (simp add: start_of_def p)
qed

text \<open>What the checks of a commitment leave: it is the next one, and its blocks follow those of its predecessor.\<close>

definition next_commitment :: "u64 \<Rightarrow> ledger_db \<Rightarrow> sequencer_commitment \<Rightarrow> bool" where
  "next_commitment t db c \<longleftrightarrow> get_commitment_by_index db (sc_index c) = None \<and> sc_index c \<noteq> 0
     \<and> (sc_index c \<noteq> 1 \<longrightarrow> get_commitment_by_index db (sc_index c - 1) \<noteq> None)
     \<and> \<not> commitment_stale db c \<and> start_of t db (sc_index c) \<le> sc_l2_end_block_number c
     \<and> sc_l2_end_block_number c \<le> node_head db"

lemma start_after_previous:
  assumes "blocks_inv db" "commitments_inv N t U db" "status_inv db" "get_commitment_by_index db i = Some p"
    "\<not> commitment_stale db c" "sc_index c = i + 1"
  shows "sc_l2_end_block_number p < sc_l2_end_block_number c"
proof -
  have "highest db Committed \<noteq> None" using assms(3,4) by (auto simp: status_inv_def)
  then obtain v where v: "highest db Committed = Some v" by auto
  with assms(3,4) obtain d where d: "get_commitment_by_index db (hi_commitment_index v) = Some d"
    "sc_l2_end_block_number d = hi_height v" "i \<le> hi_commitment_index v" by (auto simp: status_inv_def)
  then have "sc_l2_end_block_number p \<le> hi_height v" using commitments_mono [OF assms(1,2,4) d(1,3)] by simp
  then show ?thesis using assms(5) v by (auto simp: commitment_stale_def)
qed

lemma store_commitment_views [simp]:
  "tables_sorted db \<Longrightarrow> get_commitment_by_index (store_commitment cur f s c db) = (get_commitment_by_index db)(sc_index c \<mapsto> c)"
  "node_blocks (store_commitment cur f s c db) = node_blocks db"
  "node_head (store_commitment cur f s c db) = node_head db"
  "block_hashes (store_commitment cur f s c db) = block_hashes db"
  "get_pending_commitment_by_index (store_commitment cur f s c db) = get_pending_commitment_by_index db"
  "get_l2_state_root (store_commitment cur f s c db) = get_l2_state_root db"
  "verified_batch_proofs_by_slot_number (store_commitment cur f s c db) = verified_batch_proofs_by_slot_number db"
  "l2_genesis_state_root (store_commitment cur f s c db) = l2_genesis_state_root db"
  by (auto simp: store_commitment_def set_l2_height_status_def put_commitment_by_index_def
      set_l2_range_by_commitment_merkle_root_def update_commitments_on_da_slot_def get_commitment_by_index_def
      node_blocks_def node_head_def get_head_l2_block_height_def block_hashes_def get_pending_commitment_by_index_def
      get_l2_state_root_def tables_sorted_def fun_eq_iff split: option.splits)

lemma store_commitment_tables [simp]:
  "tables_sorted db \<Longrightarrow> tables_sorted (store_commitment cur f s c db)"
  by (auto simp: store_commitment_def set_l2_height_status_def put_commitment_by_index_def
      set_l2_range_by_commitment_merkle_root_def update_commitments_on_da_slot_def tables_sorted_def split: option.splits)

lemma store_commitment_highest:
  assumes "tables_sorted db" "status_upto L db" "L \<le> cur"
  shows "highest (store_commitment cur f s c db) Committed
      = Some \<lparr> hi_height = sc_l2_end_block_number c, hi_commitment_index = sc_index c \<rparr>"
    "highest (store_commitment cur f s c db) Proven = highest db Proven"
    "bm_get (l2_status_heights (store_commitment cur f s c db)) (x, h) \<noteq> None \<Longrightarrow> h \<le> cur"
proof -
  let ?db = "put_commitment_by_index c (set_l2_range_by_commitment_merkle_root (sc_merkle_root c) (s, sc_l2_end_block_number c)
       (update_commitments_on_da_slot f c db))"
  have st: "l2_status_heights ?db = l2_status_heights db"
    by (auto simp: put_commitment_by_index_def set_l2_range_by_commitment_merkle_root_def
        update_commitments_on_da_slot_def split: option.splits)
  then have same: "highest ?db Proven = highest db Proven" and inv: "bm_inv (l2_status_heights ?db)"
    using assms(1) by (simp_all add: get_highest_l2_height_for_status_def tables_sorted_def)
  have le: "bm_get (l2_status_heights db) (x, h) \<noteq> None \<Longrightarrow> h \<le> cur" for x h
    using assms(2,3) by (auto simp: status_upto_def intro: order_trans)
  show "highest (store_commitment cur f s c db) Committed
      = Some \<lparr> hi_height = sc_l2_end_block_number c, hi_commitment_index = sc_index c \<rparr>"
    unfolding store_commitment_def by (rule highest_set_same [OF inv]) (use le st in auto)
  show "highest (store_commitment cur f s c db) Proven = highest db Proven"
    unfolding store_commitment_def using highest_set_other [OF inv] same by simp
  show "bm_get (l2_status_heights (store_commitment cur f s c db)) (x, h) \<noteq> None \<Longrightarrow> h \<le> cur"
    using inv st le by (auto simp: store_commitment_def set_l2_height_status_def split: if_splits)
qed

text \<open>Adding the next commitment to the table.\<close>

lemma commitments_inv_update:
  assumes views: "get_commitment_by_index db' = (get_commitment_by_index db)(sc_index c \<mapsto> c)" "node_blocks db' = node_blocks db"
      "node_head db' = node_head db"
    and inv: "commitments_inv N t U db"
    and new: "get_commitment_by_index db (sc_index c) = None" "sc_index c \<noteq> 0"
      "sc_index c \<noteq> 1 \<longrightarrow> get_commitment_by_index db (sc_index c - 1) \<noteq> None"
      "start_of t db (sc_index c) \<le> sc_l2_end_block_number c" "sc_l2_end_block_number c \<le> node_head db" "c \<in> U"
      "rs_merkle_root (n_l2 N) (l2_sha256 (n_l2 N)) (block_hashes db (start_of t db (sc_index c)) (sc_l2_end_block_number c))
        = Some (sc_merkle_root c)"
  shows "commitments_inv N t U db'"
  unfolding commitments_inv_def
proof (intro allI impI)
  fix i d
  assume d: "get_commitment_by_index db' i = Some d"
  have hashes: "block_hashes db' = block_hashes db" by (simp add: block_hashes_def views fun_eq_iff)
  have start: "start_of t db' j = start_of t db j" if "j \<noteq> 1 \<longrightarrow> get_commitment_by_index db (j - 1) \<noteq> None" for j
    using that new(1) by (auto simp: start_of_def views)
  show "d \<in> U \<and> sc_index d = i \<and> i \<noteq> 0 \<and> (i \<noteq> 1 \<longrightarrow> get_commitment_by_index db' (i - 1) \<noteq> None) \<and>
     start_of t db' i \<le> sc_l2_end_block_number d \<and> sc_l2_end_block_number d \<le> node_head db' \<and>
     rs_merkle_root (n_l2 N) (l2_sha256 (n_l2 N)) (block_hashes db' (start_of t db' i) (sc_l2_end_block_number d))
       = Some (sc_merkle_root d)"
  proof (cases "i = sc_index c")
    case True
    then have "d = c" using d by (simp add: views)
    then show ?thesis using True new start [OF new(3)] by (auto simp: views hashes)
  next
    case False
    then have old: "get_commitment_by_index db i = Some d" using d by (simp add: views)
    then have *: "i \<noteq> 1 \<longrightarrow> get_commitment_by_index db (i - 1) \<noteq> None" using inv by (auto simp: commitments_inv_def)
    from inv old have "d \<in> U \<and> sc_index d = i \<and> i \<noteq> 0 \<and> start_of t db i \<le> sc_l2_end_block_number d
      \<and> sc_l2_end_block_number d \<le> node_head db
      \<and> rs_merkle_root (n_l2 N) (l2_sha256 (n_l2 N)) (block_hashes db (start_of t db i) (sc_l2_end_block_number d))
          = Some (sc_merkle_root d)"
      by (auto simp: commitments_inv_def)
    then show ?thesis using start [OF *] * by (auto simp: views hashes)
  qed
qed

lemma commitments_inv_store:
  assumes "tables_sorted db" "commitments_inv N t U db" "next_commitment t db c" "c \<in> U"
    "rs_merkle_root (n_l2 N) (l2_sha256 (n_l2 N)) (block_hashes db (start_of t db (sc_index c)) (sc_l2_end_block_number c))
      = Some (sc_merkle_root c)"
  shows "commitments_inv N t U (store_commitment cur f s c db)"
proof (rule commitments_inv_update [where db = db])
  show "get_commitment_by_index (store_commitment cur f s c db) = (get_commitment_by_index db)(sc_index c \<mapsto> c)"
    using assms(1) by simp
qed (use assms in \<open>simp_all add: next_commitment_def\<close>)

lemma status_inv_store:
  assumes "tables_sorted db" "status_inv db" "next_commitment t db c" "status_upto L db" "L \<le> cur"
  shows "status_inv (store_commitment cur f s c db) \<and> status_upto cur (store_commitment cur f s c db)"
proof -
  have "i \<le> sc_index c" if "get_commitment_by_index db i \<noteq> None" for i
  proof -
    have "highest db Committed \<noteq> None" using assms(2) that by (auto simp: status_inv_def)
    then obtain v where v: "highest db Committed = Some v" by auto
    then have "i \<le> hi_commitment_index v" using assms(2) that unfolding status_inv_def by blast
    moreover have "\<not> sc_index c \<le> hi_commitment_index v"
      using assms(3) v by (simp add: next_commitment_def commitment_stale_def)
    ultimately show ?thesis by (meson le_cases order_trans)
  qed
  then have max: "\<And>i. get_commitment_by_index (store_commitment cur f s c db) i \<noteq> None \<Longrightarrow> i \<le> sc_index c"
    using assms(1) by (auto split: if_splits)
  have old: "get_commitment_by_index (store_commitment cur f s c db) i = Some d" if "get_commitment_by_index db i = Some d" for i d
    using that assms(1,3) by (auto simp: next_commitment_def)
  have new: "get_commitment_by_index (store_commitment cur f s c db) (sc_index c) = Some c" using assms(1) by simp
  note h = store_commitment_highest [OF assms(1,4,5), of f s c]
  have "status_upto cur (store_commitment cur f s c db)" unfolding status_upto_def using h(3) by blast
  moreover have "\<exists>d. get_commitment_by_index (store_commitment cur f s c db) (hi_commitment_index v) = Some d
      \<and> sc_l2_end_block_number d = hi_height v" if "highest db Proven = Some v" for v
    using assms(2) that old unfolding status_inv_def by blast
  ultimately show ?thesis
    unfolding status_inv_def h(1,2) using max new by auto
qed

subsection \<open>What stays checked\<close>

lemma map_leD: "m \<subseteq>\<^sub>m m' \<Longrightarrow> m k = Some v \<Longrightarrow> m' k = Some v"
  by (metis domI map_le_def)

lemma commitment_extends:
  "node_extends db db' \<Longrightarrow> get_commitment_by_index db i = Some c \<Longrightarrow> get_commitment_by_index db' i = Some c"
  unfolding node_extends_def by (blast intro: map_leD)

lemma block_extends: "node_extends db db' \<Longrightarrow> node_blocks db h = Some b \<Longrightarrow> node_blocks db' h = Some b"
  unfolding node_extends_def by (blast intro: map_leD)

lemma state_root_extends:
  assumes "node_extends db db'" "get_l2_state_root db h = Some r"
  shows "get_l2_state_root db' h = Some r"
proof -
  have "l2_genesis_state_root db' = l2_genesis_state_root db" using assms(1) by (simp add: node_extends_def)
  then show ?thesis
    using assms(2) block_extends [OF assms(1), of h] by (auto simp: get_l2_state_root_def node_blocks_def split: if_splits)
qed

lemma proof_checked_extends:
  assumes "node_extends db db'" "proof_checked N t db p out"
  shows "proof_checked N t db' p out"
proof -
  have "hashes_stored N db ps \<Longrightarrow> hashes_stored N db' ps" for ps
    unfolding hashes_stored_def using commitment_extends [OF assms(1)] by blast
  moreover have "previous_known N t db out e \<Longrightarrow> previous_known N t db' out e" for e
    using commitment_extends [OF assms(1)] by (auto simp: previous_known_def split: option.splits)
  ultimately show ?thesis
    using assms(2) state_root_extends [OF assms(1)] unfolding proof_checked_def by blast
qed

lemma proofs_inv_extends:
  assumes "node_extends db db'" "proofs_inv N t db"
    "verified_batch_proofs_by_slot_number db' = verified_batch_proofs_by_slot_number db"
  shows "proofs_inv N t db'"
  using assms(2,3) proof_checked_extends [OF assms(1)] unfolding proofs_inv_def by metis

text \<open>Tables that the invariant does not mention, and pending entries.\<close>

lemma node_inv_frame:
  assumes "node_inv N t U L db" "l2_block_by_number db' = l2_block_by_number db"
    "sequencer_commitment_by_index db' = sequencer_commitment_by_index db" "l2_status_heights db' = l2_status_heights db"
    "verified_batch_proofs_by_slot_number db' = verified_batch_proofs_by_slot_number db"
    "l2_genesis_state_root db' = l2_genesis_state_root db"
    "bm_inv (pending_sequencer_commitments db')" "bm_inv (pending_proofs db')" "pending_inv t U db'"
  shows "node_inv N t U L db' \<and> node_extends db db'"
proof -
  have views: "node_blocks db' = node_blocks db" "node_head db' = node_head db" "block_hashes db' = block_hashes db"
    "get_commitment_by_index db' = get_commitment_by_index db" "start_of t db' = start_of t db"
    "highest db' s = highest db s" for s
    using assms(2-6) by (simp_all add: node_blocks_def node_head_def get_head_l2_block_height_def block_hashes_def
        get_commitment_by_index_def start_of_def get_highest_l2_height_for_status_def fun_eq_iff)
  then have "node_extends db db'" using assms(6) by (simp add: node_extends_def)
  moreover from this have "proofs_inv N t db'" using assms(1,5) by (auto simp: node_inv_def intro: proofs_inv_extends)
  ultimately show ?thesis
    using assms unfolding node_inv_def tables_sorted_def blocks_inv_def commitments_inv_def status_inv_def status_upto_def
    by (simp add: views)
qed

lemma node_inv_store_pending:
  assumes "node_inv N t U L db" "c \<in> U" "sc_index c \<noteq> 0" "sc_index c = 1 \<longrightarrow> t \<le> sc_l2_end_block_number c"
  shows "node_inv N t U L (store_pending_commitment c f db) \<and> node_extends db (store_pending_commitment c f db)"
  using assms by (intro node_inv_frame)
    (auto simp: store_pending_commitment_def node_inv_def tables_sorted_def pending_inv_def get_pending_commitment_by_index_def)

lemma node_inv_remove_pending:
  assumes "node_inv N t U L db"
  shows "node_inv N t U L (remove_pending_commitment i db) \<and> node_extends db (remove_pending_commitment i db)"
  using assms by (intro node_inv_frame)
    (auto simp: remove_pending_commitment_def node_inv_def tables_sorted_def pending_inv_def get_pending_commitment_by_index_def)

lemma node_inv_pending_proof:
  assumes "node_inv N t U L db"
  shows "node_inv N t U L (store_pending_proof a b p f db) \<and> node_extends db (store_pending_proof a b p f db)"
    "node_inv N t U L (remove_pending_proof a b db) \<and> node_extends db (remove_pending_proof a b db)"
  using assms by (intro node_inv_frame; auto simp: store_pending_proof_def remove_pending_proof_def node_inv_def
      tables_sorted_def pending_inv_def get_pending_commitment_by_index_def)+

lemma node_inv_l1_tables:
  assumes "node_inv N t U L db"
  shows "node_inv N t U L (put_short_header_proof_by_l1_hash h p db) \<and> node_extends db (put_short_header_proof_by_l1_hash h p db)"
    "node_inv N t U L (set_l1_height_of_l1_hash h n db) \<and> node_extends db (set_l1_height_of_l1_hash h n db)"
    "node_inv N t U L (set_last_scanned_l1_height n db) \<and> node_extends db (set_last_scanned_l1_height n db)"
  using assms by (intro node_inv_frame; auto simp: put_short_header_proof_by_l1_hash_def set_l1_height_of_l1_hash_def
      set_last_scanned_l1_height_def node_inv_def tables_sorted_def pending_inv_def get_pending_commitment_by_index_def)+

lemma node_inv_later: "node_inv N t U L db \<Longrightarrow> L \<le> L' \<Longrightarrow> node_inv N t U L' db"
  by (auto simp: node_inv_def status_upto_def intro: order_trans)

text \<open>A commitment that passed the checks.\<close>

lemma node_inv_store:
  assumes inv: "node_inv N t U L db" and nxt: "next_commitment t db c" and "c \<in> U" "L \<le> cur"
    and root: "rs_merkle_root (n_l2 N) (l2_sha256 (n_l2 N))
      (block_hashes db (start_of t db (sc_index c)) (sc_l2_end_block_number c)) = Some (sc_merkle_root c)"
  shows "node_inv N t U cur (store_commitment cur f s c db) \<and> node_extends db (store_commitment cur f s c db)"
proof -
  let ?db = "store_commitment cur f s c db"
  note i = inv [unfolded node_inv_def]
  have "\<exists>v'. highest ?db x = Some v' \<and> hi_height v \<le> hi_height v' \<and> hi_commitment_index v \<le> hi_commitment_index v'"
    if "highest db x = Some v" for x v
    using that nxt i store_commitment_highest [of db L cur f s c] \<open>L \<le> cur\<close>
    by (cases x) (auto simp: next_commitment_def commitment_stale_def)
  then have ext: "node_extends db ?db"
    using nxt i by (auto simp: node_extends_def next_commitment_def map_le_def)
  then have "proofs_inv N t ?db" using i by (auto intro: proofs_inv_extends)
  moreover have "blocks_inv ?db" "pending_inv t U ?db" using i by (auto simp: blocks_inv_def pending_inv_def)
  ultimately show ?thesis
    using i ext commitments_inv_store [OF _ _ nxt \<open>c \<in> U\<close> root] status_inv_store [OF _ _ nxt _ \<open>L \<le> cur\<close>]
    by (auto simp: node_inv_def)
qed

end
