(* ===== verification/Full_Node_Correct.thy ===== *)
theory Full_Node_Correct
  imports Full_Node_Inv
begin

section \<open>Correctness of the full node\<close>

text \<open>
  Every operation of the L1 block handler keeps the invariant and takes nothing back, and none of its panics is reached as long as
  verified proofs come from the circuit with consecutive commitments and the first commitment does not end before its range starts.
\<close>

subsection \<open>What the node relies on\<close>

text \<open>
  The output of a batch proof over consecutive commitments; \<^verbatim>\<open>apply_l2_blocks_from_sequencer_commitments\<close> builds the hashes, the range and
  the last height in this way.
\<close>

definition output_ok :: "l2_env \<Rightarrow> sequencer_commitment set \<Rightarrow> batch_proof_circuit_output \<Rightarrow> bool" where
  "output_ok E U out \<longleftrightarrow> output_state_roots out \<noteq> []
     \<and> (previous_commitment_index out \<noteq> None \<longrightarrow> previous_commitment_hash out \<noteq> None)
     \<and> (\<exists>cs. cs \<noteq> [] \<and> set cs \<subseteq> U
          \<and> sequencer_commitment_hashes out = map (serialize_and_calculate_sha_256 E) cs
          \<and> map sc_index cs = u32_range (fst (sequencer_commitment_index_range out)) (snd (sequencer_commitment_index_range out))
          \<and> output_last_l2_height out = sc_l2_end_block_number (last cs))"

text \<open>
  The first L2 height, a Merkle root for every list of leaves but the empty one, no collision among the commitments that occur, sound
  proofs, and a code commitment for every fork.
\<close>

definition node_env_ok :: "node_env \<Rightarrow> u64 \<Rightarrow> sequencer_commitment set \<Rightarrow> bool" where
  "node_env_ok N t U \<longleftrightarrow> get_tangerine_activation_height_non_zero (n_forks N) = Some t
     \<and> (\<forall>leaves. leaves \<noteq> [] \<longrightarrow> rs_merkle_root (n_l2 N) (l2_sha256 (n_l2 N)) leaves \<noteq> None)
     \<and> inj_on (serialize_and_calculate_sha_256 (n_l2 N)) U
     \<and> (\<forall>p out. zk_verified N p out \<longrightarrow> output_ok (n_l2 N) U out)
     \<and> (\<forall>h. \<exists>f m. fork_from_block_number (n_forks N) h = Some f \<and> n_code_commitments_by_spec N (fork_spec_id f) = Some m)"

definition commitment_ok :: "u64 \<Rightarrow> sequencer_commitment set \<Rightarrow> sequencer_commitment \<Rightarrow> bool" where
  "commitment_ok t U c \<longleftrightarrow> c \<in> U \<and> (sc_index c = 1 \<longrightarrow> t \<le> sc_l2_end_block_number c)"

lemma tangerine_height_pos: "get_tangerine_activation_height_non_zero cell = Some t \<Longrightarrow> 1 \<le> t"
  by (auto simp: get_tangerine_activation_height_non_zero_def panic_simps word_le_nat_alt unat_gt_0 Suc_le_eq split: if_splits)

subsection \<open>A commitment\<close>

lemma start_bounds:
  assumes env: "node_env_ok N t U" and inv: "node_inv N t U L db" and ok: "commitment_ok t U c" "sc_index c \<noteq> 0"
    and fresh: "\<not> commitment_stale db c" and start: "commitment_start N db c = Some (Some s)"
  shows "s = start_of t db (sc_index c)" "1 \<le> s" "s \<le> sc_l2_end_block_number c"
    "sc_index c \<noteq> 1 \<longrightarrow> get_commitment_by_index db (sc_index c - 1) \<noteq> None"
proof -
  note i = inv [unfolded node_inv_def]
  have t: "get_tangerine_activation_height_non_zero (n_forks N) = Some t" using env by (simp add: node_env_ok_def)
  show s: "s = start_of t db (sc_index c)"
    using start t by (auto simp: commitment_start_def start_of_def split: if_splits)
  show "sc_index c \<noteq> 1 \<longrightarrow> get_commitment_by_index db (sc_index c - 1) \<noteq> None"
    using start by (auto simp: commitment_start_def)
  have "1 \<le> s \<and> s \<le> sc_l2_end_block_number c"
  proof (cases "sc_index c = 1")
    case True
    then show ?thesis using s ok tangerine_height_pos [OF t] by (simp add: start_of_def commitment_ok_def)
  next
    case False
    then obtain p where p: "get_commitment_by_index db (sc_index c - 1) = Some p" "s = sc_l2_end_block_number p + 1"
      using start by (auto simp: commitment_start_def)
    have "sc_l2_end_block_number p < sc_l2_end_block_number c"
      using start_after_previous [of db N t U "sc_index c - 1" p c] i p(1) fresh by auto
    moreover have "unat (sc_l2_end_block_number p) < 2 ^ 55"
    proof -
      have "sc_l2_end_block_number p \<le> node_head db" using i p(1) by (auto simp: commitments_inv_def)
      then show ?thesis using i by (auto simp: blocks_inv_def word_le_nat_alt)
    qed
    ultimately show ?thesis
      using p(2) by (auto simp: word_le_nat_alt word_less_nat_alt unat_word_ariths)
  qed
  then show "1 \<le> s" "s \<le> sc_l2_end_block_number c" by auto
qed

lemma check_commitment_root_ok:
  assumes env: "node_env_ok N t U" and inv: "node_inv N t U L db"
    and "1 \<le> s" "s \<le> sc_l2_end_block_number c" "sc_l2_end_block_number c \<le> node_head db"
  obtains "rs_merkle_root (n_l2 N) (l2_sha256 (n_l2 N)) (block_hashes db s (sc_l2_end_block_number c)) = Some (sc_merkle_root c)"
      "check_commitment_root N db s c = Some (Ok ())"
  | r where "check_commitment_root N db s c
      = Some (Err (HaltingError (HaltingCommitment (MerkleRootMismatch r (sc_merkle_root c)))))"
proof -
  let ?root = "rs_merkle_root (n_l2 N) (l2_sha256 (n_l2 N)) (block_hashes db s (sc_l2_end_block_number c))"
  have "get_l2_block_range db s (sc_l2_end_block_number c)
      = Some (map (\<lambda>h. the (node_blocks db h)) (u64_range s (sc_l2_end_block_number c)))"
    using inv assms(3-5) by (intro block_range) (auto simp: node_inv_def)
  then have check: "check_commitment_root N db s c = Some (if ?root = Some (sc_merkle_root c) then Ok ()
       else case ?root of
              Some r \<Rightarrow> Err (HaltingError (HaltingCommitment (MerkleRootMismatch r (sc_merkle_root c))))
            | None \<Rightarrow> Err (ProcessingOther ''Could not calculate l2 block tree root''))"
    by (simp add: check_commitment_root_def block_hashes_def comp_def)
  have "s \<in> set (u64_range s (sc_l2_end_block_number c))" using assms(4) by simp
  then have "0 < length (u64_range s (sc_l2_end_block_number c))" by (rule length_pos_if_in_set)
  then have "block_hashes db s (sc_l2_end_block_number c) \<noteq> []" by (simp add: block_hashes_def)
  then obtain r where "?root = Some r" using env by (auto simp: node_env_ok_def)
  then show thesis using that check by (cases "r = sc_merkle_root c") auto
qed

text \<open>A commitment is discarded, kept for later, stored, or stops the handler; nothing else can happen.\<close>

definition halts_on_root :: "processing_error \<Rightarrow> bool" where
  "halts_on_root e \<longleftrightarrow> (\<exists>r r'. e = HaltingError (HaltingCommitment (MerkleRootMismatch r r')))"

lemma process_sequencer_commitment_ok:
  assumes env: "node_env_ok N t U" and inv: "node_inv N t U L db" and ok: "commitment_ok t U c" "sc_index c \<noteq> 0"
    and cur: "L \<le> cur"
  obtains db' r where "process_sequencer_commitment N cur f c db = Some (db', r)" "node_inv N t U cur db'"
    "node_extends db db'" "\<And>e. r = Err e \<Longrightarrow> halts_on_root e"
proof -
  note later = node_inv_later [OF _ cur]
  consider "get_commitment_by_index db (sc_index c) \<noteq> None \<or> commitment_stale db c"
    | "get_commitment_by_index db (sc_index c) = None" "\<not> commitment_stale db c" "commitment_start N db c = Some None"
    | s where "get_commitment_by_index db (sc_index c) = None" "\<not> commitment_stale db c" "commitment_start N db c = Some (Some s)"
    using env by (fastforce simp: commitment_start_def node_env_ok_def split: if_splits)
  then show thesis
  proof cases
    case 1
    then show thesis using that [of db "Ok Discarded"] later inv by (auto simp: process_sequencer_commitment_def)
  next
    case 2
    then show thesis
      using that [of "store_pending_commitment c f db" "Ok Pending"] later node_inv_store_pending [OF inv, of c f] ok
      by (auto simp: process_sequencer_commitment_def commitment_ok_def)
  next
    case (3 s)
    note b = start_bounds [OF env inv ok 3(2,3)]
    show thesis
    proof (cases "node_head db < sc_l2_end_block_number c")
      case True
      let ?db = "if get_pending_commitment_by_index db (sc_index c) = None then store_pending_commitment c f db else db"
      have "node_inv N t U L ?db \<and> node_extends db ?db"
        using node_inv_store_pending [OF inv, of c f] ok inv by (auto simp: commitment_ok_def)
      then show thesis using that [of ?db "Ok Pending"] later 3 True
        by (auto simp: process_sequencer_commitment_def node_head_def)
    next
      case False
      then have le: "sc_l2_end_block_number c \<le> node_head db" by simp
      then have n: "next_commitment t db c" using 3 b ok(2) by (auto simp: next_commitment_def)
      from env inv b(2,3) le show thesis
      proof (cases rule: check_commitment_root_ok)
        case 1
        then show thesis
          using that [of "store_commitment cur f s c db" "Ok Success"] node_inv_store [OF inv n _ cur, of f s] b(1) ok(1) 3 False
          by (auto simp: process_sequencer_commitment_def node_head_def commitment_ok_def)
      next
        case (2 r)
        then show thesis using that [of db] later [OF inv] 3 False
          by (auto simp: process_sequencer_commitment_def node_head_def halts_on_root_def)
      qed
    qed
  qed
qed

lemma pending_commitments_loop_ok:
  assumes env: "node_env_ok N t U"
  shows "node_inv N t U cur db \<Longrightarrow> \<forall>(i, c, f) \<in> set es. commitment_ok t U c \<and> sc_index c \<noteq> 0 \<Longrightarrow>
    \<exists>db' r. pending_commitments_loop N cur es db = Some (db', r) \<and> node_inv N t U cur db' \<and> node_extends db db'
      \<and> (\<forall>e. r = Err e \<longrightarrow> halts_on_root e)"
proof (induction es arbitrary: db)
  case (Cons e es)
  obtain i c f where e: "e = (i, c, f)" by (cases e)
  show ?case
  proof (cases "pending_processable db i c")
    case True
    have c: "commitment_ok t U c" "sc_index c \<noteq> 0" and es: "\<forall>(i, c, f) \<in> set es. commitment_ok t U c \<and> sc_index c \<noteq> 0"
      using Cons.prems(2) e by auto
    obtain db1 r where r: "process_sequencer_commitment N cur f c db = Some (db1, r)" "node_inv N t U cur db1"
      "node_extends db db1" "\<And>e. r = Err e \<Longrightarrow> halts_on_root e"
      by (rule process_sequencer_commitment_ok [where f = f, OF env Cons.prems(1) c order_refl]) (rule that)
    have IH: "\<exists>db' r. pending_commitments_loop N cur es db2 = Some (db', r) \<and> node_inv N t U cur db' \<and> node_extends db db'
        \<and> (\<forall>e. r = Err e \<longrightarrow> halts_on_root e)" if "node_inv N t U cur db2 \<and> node_extends db1 db2" for db2
      using Cons.IH [OF conjunct1 [OF that] es] node_extends_trans [OF r(3) node_extends_trans [OF conjunct2 [OF that]]] by blast
    have IH': "\<exists>db' r. pending_commitments_loop N cur es db1 = Some (db', r) \<and> node_inv N t U cur db' \<and> node_extends db db'
        \<and> (\<forall>e. r = Err e \<longrightarrow> halts_on_root e)" using IH [of db1] r(2) by simp
    note IH'' = IH [OF node_inv_remove_pending [OF r(2), of i]]
    show ?thesis
    proof (cases r)
      case (Inl x)
      then obtain a b where "x = HaltingError (HaltingCommitment (MerkleRootMismatch a b))"
        using r(4) by (auto simp: halts_on_root_def)
      then show ?thesis using r(1-3) True e Inl by (simp add: halts_on_root_def)
    next
      case (Inr x)
      then show ?thesis using r(1) True e IH' IH'' by (cases x) simp_all
    qed
  qed (use Cons.prems e in auto)
qed simp

lemma process_pending_commitments_ok:
  assumes "node_env_ok N t U" "node_inv N t U cur db"
  obtains db' r where "process_pending_commitments N cur db = Some (db', r)" "node_inv N t U cur db'"
    "node_extends db db'" "\<And>e. r = Err e \<Longrightarrow> halts_on_root e"
proof -
  have "commitment_ok t U c \<and> sc_index c \<noteq> 0" if "(i, c, f) \<in> set (pending_sequencer_commitments db)" for i c f
  proof -
    have "get_pending_commitment_by_index db i = Some (c, f)"
      using that assms(2) bm.in_entries_iff [of "pending_sequencer_commitments db" i "(c, f)"]
      by (simp add: node_inv_def tables_sorted_def get_pending_commitment_by_index_def)
    then show ?thesis using assms(2) by (auto simp: node_inv_def pending_inv_def commitment_ok_def)
  qed
  then show thesis
    using pending_commitments_loop_ok [OF assms, of "pending_sequencer_commitments db"] that
    unfolding process_pending_commitments_def by fast
qed

subsection \<open>A proof\<close>

lemma verify_hash_Ok:
  assumes "verify_sequencer_commitment_hash_by_index N db i h = Ok (e, False)"
  obtains c where "get_commitment_by_index db i = Some c" "serialize_and_calculate_sha_256 (n_l2 N) c = h"
    "e = sc_l2_end_block_number c"
  using assms by (auto simp: verify_sequencer_commitment_hash_by_index_def Let_def split: option.splits if_splits)

lemma verify_hash_Err:
  "verify_sequencer_commitment_hash_by_index N db i h = Err e \<Longrightarrow> \<exists>x. e = SkippableError x"
  by (auto simp: verify_sequencer_commitment_hash_by_index_def Let_def split: option.splits if_splits)

lemma verify_hashes_pending: "verify_commitment_hashes N db ps b = Ok False \<Longrightarrow> \<not> b"
proof (induction ps arbitrary: b)
  case (Cons x ps)
  then obtain p where "verify_commitment_hashes N db ps (b \<or> p) = Ok False"
    by (cases x) (auto simp: and_then_Ok)
  from Cons.IH [OF this] show ?case by simp
qed simp

lemma verify_hashes_Ok: "verify_commitment_hashes N db ps b = Ok False \<Longrightarrow> hashes_stored N db ps"
proof (induction ps arbitrary: b)
  case (Cons x ps)
  obtain i h where x: "x = (i, h)" by (cases x)
  from Cons.prems obtain e p where v: "verify_sequencer_commitment_hash_by_index N db i h = Ok (e, p)"
    and r: "verify_commitment_hashes N db ps (b \<or> p) = Ok False"
    by (auto simp: x and_then_Ok)
  then have "p = False" using verify_hashes_pending by blast
  then show ?case
    using Cons.IH [OF r] v by (auto simp: x hashes_stored_def elim!: verify_hash_Ok)
qed (simp add: hashes_stored_def)

lemma verify_hashes_Err: "verify_commitment_hashes N db ps b = Err e \<Longrightarrow> \<exists>x. e = SkippableError x"
proof (induction ps arbitrary: b)
  case (Cons x ps)
  obtain i h where x: "x = (i, h)" by (cases x)
  show ?case
    using Cons verify_hash_Err [of N db i h] by (cases "verify_sequencer_commitment_hash_by_index N db i h") (auto simp: x)
qed simp

text \<open>The commitment at the end of a proof's range is the one its last height is taken from.\<close>

lemma output_last_commitment:
  assumes env: "node_env_ok N t U" and inv: "commitments_inv N t U db" and "zk_verified N p out"
    and st: "hashes_stored N db (output_commitments out)"
  obtains c where "get_commitment_by_index db (snd (sequencer_commitment_index_range out)) = Some c"
    "sc_l2_end_block_number c = output_last_l2_height out"
proof -
  obtain a b where ab: "sequencer_commitment_index_range out = (a, b)" by (cases "sequencer_commitment_index_range out")
  from env assms(3) have "output_ok (n_l2 N) U out" unfolding node_env_ok_def by blast
  then obtain cs where cs: "cs \<noteq> []" "set cs \<subseteq> U" "sequencer_commitment_hashes out = map (serialize_and_calculate_sha_256 (n_l2 N)) cs"
    "map sc_index cs = u32_range a b" "output_last_l2_height out = sc_l2_end_block_number (last cs)"
    by (auto simp: output_ok_def ab)
  have "output_commitments out = map (\<lambda>c. (sc_index c, serialize_and_calculate_sha_256 (n_l2 N) c)) cs"
    by (simp add: output_commitments_def ab cs(3) cs(4) [symmetric] zip_map_map zip_same_conv_map)
  then have "(sc_index (last cs), serialize_and_calculate_sha_256 (n_l2 N) (last cs)) \<in> set (output_commitments out)"
    using cs(1) by simp
  then obtain c where c: "get_commitment_by_index db (sc_index (last cs)) = Some c"
    "serialize_and_calculate_sha_256 (n_l2 N) c = serialize_and_calculate_sha_256 (n_l2 N) (last cs)"
    using st unfolding hashes_stored_def by blast
  have "c \<in> U" "last cs \<in> U" using inv c(1) cs(1,2) by (auto simp: commitments_inv_def)
  then have "c = last cs" using c(2) env by (auto simp: node_env_ok_def inj_on_eq_iff)
  moreover have "sc_index (last cs) = b"
  proof -
    have "sc_index (last cs) = last (u32_range a b)" using cs(1) cs(4) by (metis last_map)
    moreover have "u32_range a b \<noteq> []" using cs(1,4) by auto
    ultimately show ?thesis by (auto simp: u32_range_def split: if_splits)
  qed
  ultimately show thesis using that [of c] c(1) cs(5) by (simp add: ab)
qed

lemma proven_not_above_committed:
  assumes "blocks_inv db" "commitments_inv N t U db" "status_inv db"
  shows "\<not> hi_less (or_else (highest db Committed) hi_default) (or_else (highest db Proven) hi_default)"
proof (cases "highest db Proven")
  case None
  then show ?thesis by (simp add: or_else_def hi_less_def hi_default_def)
next
  case (Some v)
  then obtain c where c: "get_commitment_by_index db (hi_commitment_index v) = Some c" "sc_l2_end_block_number c = hi_height v"
    using assms(3) unfolding status_inv_def by blast
  then have "highest db Committed \<noteq> None" using assms(3) by (auto simp: status_inv_def)
  then obtain w where w: "highest db Committed = Some w" by auto
  then obtain d where d: "get_commitment_by_index db (hi_commitment_index w) = Some d" "sc_l2_end_block_number d = hi_height w"
    using assms(3) unfolding status_inv_def by blast
  have le: "hi_commitment_index v \<le> hi_commitment_index w"
    using assms(3) w c(1) unfolding status_inv_def by (metis option.distinct(1))
  have "hi_height v \<le> hi_height w" using commitments_mono [OF assms(1,2) c(1) d(1) le] c(2) d(2) by simp
  then show ?thesis using Some w le by (auto simp: or_else_def hi_less_def)
qed

definition store_proof :: "u64 \<Rightarrow> u64 \<Rightarrow> zk_proof \<Rightarrow> batch_proof_circuit_output \<Rightarrow> ledger_db \<Rightarrow> ledger_db" where
  "store_proof cur f p out db = set_l2_height_status Proven cur
     \<lparr> hi_height = output_last_l2_height out, hi_commitment_index = snd (sequencer_commitment_index_range out) \<rparr>
     (update_verified_proof_data f p (stored_output out) db)"

lemma store_proof_views [simp]:
  "get_commitment_by_index (store_proof cur f p out db) = get_commitment_by_index db"
  "node_blocks (store_proof cur f p out db) = node_blocks db"
  "node_head (store_proof cur f p out db) = node_head db"
  "block_hashes (store_proof cur f p out db) = block_hashes db"
  "start_of t (store_proof cur f p out db) = start_of t db"
  "get_pending_commitment_by_index (store_proof cur f p out db) = get_pending_commitment_by_index db"
  "l2_genesis_state_root (store_proof cur f p out db) = l2_genesis_state_root db"
  "tables_sorted db \<Longrightarrow> tables_sorted (store_proof cur f p out db)"
  "tables_sorted db \<Longrightarrow> bm_get (verified_batch_proofs_by_slot_number (store_proof cur f p out db))
     = (bm_get (verified_batch_proofs_by_slot_number db))(f \<mapsto>
          or_else (bm_get (verified_batch_proofs_by_slot_number db) f) [] @ [\<lparr> vp_proof = p, vp_proof_output = stored_output out \<rparr>])"
  by (auto simp: store_proof_def set_l2_height_status_def update_verified_proof_data_def get_commitment_by_index_def
      node_blocks_def node_head_def get_head_l2_block_height_def block_hashes_def get_pending_commitment_by_index_def
      tables_sorted_def start_of_def fun_eq_iff Let_def)

lemma store_proof_highest:
  assumes "tables_sorted db" "status_upto L db" "L \<le> cur"
  shows "highest (store_proof cur f p out db) Proven
      = Some \<lparr> hi_height = output_last_l2_height out, hi_commitment_index = snd (sequencer_commitment_index_range out) \<rparr>"
    "highest (store_proof cur f p out db) Committed = highest db Committed"
    "status_upto cur (store_proof cur f p out db)"
proof -
  let ?db = "update_verified_proof_data f p (stored_output out) db"
  have st: "l2_status_heights ?db = l2_status_heights db" by (simp add: update_verified_proof_data_def Let_def)
  then have same: "highest ?db Committed = highest db Committed" and inv: "bm_inv (l2_status_heights ?db)"
    using assms(1) by (simp_all add: get_highest_l2_height_for_status_def tables_sorted_def)
  have le: "bm_get (l2_status_heights db) (x, h) \<noteq> None \<Longrightarrow> h \<le> cur" for x h
    using assms(2,3) by (auto simp: status_upto_def intro: order_trans)
  show "highest (store_proof cur f p out db) Proven
      = Some \<lparr> hi_height = output_last_l2_height out, hi_commitment_index = snd (sequencer_commitment_index_range out) \<rparr>"
    unfolding store_proof_def by (rule highest_set_same [OF inv]) (use le st in auto)
  show "highest (store_proof cur f p out db) Committed = highest db Committed"
    unfolding store_proof_def using highest_set_other [OF inv] same by simp
  show "status_upto cur (store_proof cur f p out db)"
    using inv st le by (auto simp: status_upto_def store_proof_def set_l2_height_status_def split: if_splits)
qed

lemma node_inv_store_proof:
  assumes env: "node_env_ok N t U" and inv: "node_inv N t U L db" and cur: "L \<le> cur"
    and chk: "proof_checked N t db p out"
    and up: "hi_height (or_else (highest db Proven) hi_default) \<le> output_last_l2_height out"
      "hi_commitment_index (or_else (highest db Proven) hi_default) \<le> snd (sequencer_commitment_index_range out)"
  shows "node_inv N t U cur (store_proof cur f p out db) \<and> node_extends db (store_proof cur f p out db)"
proof -
  let ?db = "store_proof cur f p out db"
  note i = inv [unfolded node_inv_def]
  note h = store_proof_highest [of db L cur f p out, OF _ _ cur]
  have "\<exists>v'. highest ?db x = Some v' \<and> hi_height v \<le> hi_height v' \<and> hi_commitment_index v \<le> hi_commitment_index v'"
    if "highest db x = Some v" for x v
    using that up i h by (cases x) (auto simp: or_else_def)
  then have ext: "node_extends db ?db" by (auto simp: node_extends_def)
  from chk obtain c where c: "get_commitment_by_index db (snd (sequencer_commitment_index_range out)) = Some c"
    "sc_l2_end_block_number c = output_last_l2_height out"
    using output_last_commitment [OF env, of db p out] i unfolding proof_checked_def by blast
  have "status_inv ?db" using i h c by (auto simp: status_inv_def)
  moreover have "proofs_inv N t ?db"
    unfolding proofs_inv_def
  proof (intro allI impI ballI)
    fix s vps vp
    assume vps: "bm_get (verified_batch_proofs_by_slot_number ?db) s = Some vps" "vp \<in> set vps"
    then consider "vp = \<lparr> vp_proof = p, vp_proof_output = stored_output out \<rparr>"
      | s' vps' where "bm_get (verified_batch_proofs_by_slot_number db) s' = Some vps'" "vp \<in> set vps'"
      using i by (auto simp: or_else_def split: if_splits option.splits)
    then show "\<exists>out. proof_checked N t ?db (vp_proof vp) out \<and> vp_proof_output vp = stored_output out"
    proof cases
      case 1
      then show ?thesis using proof_checked_extends [OF ext chk] by auto
    next
      case 2
      then show ?thesis using i proof_checked_extends [OF ext] unfolding proofs_inv_def by blast
    qed
  qed
  ultimately show ?thesis
    using i ext h(3) by (auto simp: node_inv_def blocks_inv_def commitments_inv_def pending_inv_def)
qed

lemma conclude_proof_ok:
  assumes env: "node_env_ok N t U" and inv: "node_inv N t U L db" and cur: "L \<le> cur" and zk: "zk_verified N p out"
    and root: "output_initial_state_root out = Some root"
    and new: "\<not> output_last_l2_height out \<le> hi_height proven" "\<not> snd (sequencer_commitment_index_range out) \<le> hi_commitment_index proven"
    and proven: "proven = or_else (highest db Proven) hi_default"
    and checked: "\<not> b \<Longrightarrow> hashes_stored N db (output_commitments out) \<and> previous_known N t db out e"
  shows "\<exists>db' r. conclude_proof cur f root p out proven e b db = (db', r) \<and> node_inv N t U cur db' \<and> node_extends db db'
      \<and> (\<forall>x. r \<noteq> Err (HaltingError x))"
proof -
  obtain first lst where range: "sequencer_commitment_index_range out = (first, lst)"
    by (cases "sequencer_commitment_index_range out")
  have pend: "node_inv N t U cur (store_pending_proof first lst p f db) \<and> node_extends db (store_pending_proof first lst p f db)"
    using node_inv_pending_proof(1) [OF node_inv_later [OF inv cur]] .
  show ?thesis
  proof (cases "\<not> b \<and> get_l2_state_root db e = Some root \<and> \<not> hi_commitment_index proven + 1 < first")
    case True
    then have "proof_checked N t db p out" using zk root checked unfolding proof_checked_def by blast
    then have "node_inv N t U cur (store_proof cur f p out db) \<and> node_extends db (store_proof cur f p out db)"
      using new proven by (intro node_inv_store_proof [OF env inv cur]) auto
    moreover have "conclude_proof cur f root p out proven e b db = (store_proof cur f p out db, Ok Success)"
      using True by (simp add: conclude_proof_def store_proof_def range)
    ultimately show ?thesis by simp
  next
    case False
    then show ?thesis
      using pend node_inv_later [OF inv cur] by (auto simp: conclude_proof_def range split: option.splits)
  qed
qed

lemma previous_l2_end_ok:
  assumes env: "node_env_ok N t U" and "zk_verified N p out"
  obtains r where "previous_l2_end N db out = Some r"
    "\<And>e. r = Ok (e, False) \<Longrightarrow> previous_known N t db out e" "\<And>x. r = Err x \<Longrightarrow> \<exists>y. x = SkippableError y"
proof (cases "previous_commitment_index out")
  case None
  then show thesis
    using that [of "Ok (t - 1, False)"] env by (auto simp: previous_l2_end_def node_env_ok_def previous_known_def)
next
  case (Some i)
  have "output_ok (n_l2 N) U out" using assms unfolding node_env_ok_def by blast
  then obtain h where h: "previous_commitment_hash out = Some h" using Some by (auto simp: output_ok_def)
  let ?r = "verify_sequencer_commitment_hash_by_index N db i h"
  have "previous_known N t db out e" if "?r = Ok (e, False)" for e
    using verify_hash_Ok [OF that] Some h by (auto simp: previous_known_def)
  moreover have "previous_l2_end N db out = Some ?r" using Some h by (simp add: previous_l2_end_def)
  ultimately show thesis using that [of ?r] verify_hash_Err [of N db i h] by blast
qed

lemma process_tangerine_zk_proof_ok:
  assumes env: "node_env_ok N t U" and inv: "node_inv N t U L db" and cur: "L \<le> cur" and zk: "zk_verified N p out"
    and root: "output_initial_state_root out = Some root"
  shows "\<exists>db' r. process_tangerine_zk_proof N cur f root p out db = Some (db', r) \<and> node_inv N t U cur db' \<and> node_extends db db'
      \<and> (\<forall>x. r \<noteq> Err (HaltingError x))"
proof -
  define proven where "proven = or_else (highest db Proven) hi_default"
  obtain first lst where range: "sequencer_commitment_index_range out = (first, lst)"
    by (cases "sequencer_commitment_index_range out")
  note stays = node_inv_later [OF inv cur]
  consider "get_l1_height_of_l1_hash db (last_l1_hash_on_bitcoin_light_client_contract out) = None
      \<or> output_last_l2_height out \<le> hi_height proven \<or> lst \<le> hi_commitment_index proven"
    | "get_l1_height_of_l1_hash db (last_l1_hash_on_bitcoin_light_client_contract out) \<noteq> None"
      "\<not> output_last_l2_height out \<le> hi_height proven" "\<not> lst \<le> hi_commitment_index proven" by blast
  then show ?thesis
  proof cases
    case 1
    then show ?thesis using stays by (auto simp: process_tangerine_zk_proof_def range proven_def Let_def)
  next
    case 2
    obtain r where r: "previous_l2_end N db out = Some r" "\<And>e. r = Ok (e, False) \<Longrightarrow> previous_known N t db out e"
      "\<And>x. r = Err x \<Longrightarrow> \<exists>y. x = SkippableError y"
      by (rule previous_l2_end_ok [OF env zk]) (rule that)
    have below: "\<not> hi_less (or_else (highest db Committed) hi_default) proven"
      unfolding proven_def using inv by (intro proven_not_above_committed) (auto simp: node_inv_def)
    let ?v = "and_then r (\<lambda>(e, b). map_ok (\<lambda>b'. (e, b')) (verify_commitment_hashes N db (output_commitments out) b))"
    have run: "process_tangerine_zk_proof N cur f root p out db = Some (case ?v of Inl e \<Rightarrow> (db, Err e)
        | Inr (e, b) \<Rightarrow> conclude_proof cur f root p out proven e b db)"
      using 2 below r(1) by (auto simp: process_tangerine_zk_proof_def range Let_def output_commitments_def proven_def [symmetric])
    show ?thesis
    proof (cases ?v)
      case (Inl x)
      then have "\<exists>y. x = SkippableError y"
        using r(3) verify_hashes_Err by (cases r) (auto simp: map_ok_def split: sum.splits prod.splits)
      then show ?thesis using run stays Inl by auto
    next
      case (Inr eb)
      obtain e b where eb: "eb = (e, b)" by (cases eb)
      then obtain b0 where v: "r = Ok (e, b0)" "verify_commitment_hashes N db (output_commitments out) b0 = Ok b"
        using Inr by (cases r) (auto simp: map_ok_Ok)
      have "hashes_stored N db (output_commitments out) \<and> previous_known N t db out e" if "\<not> b"
        using verify_hashes_Ok [of N db _ b0] verify_hashes_pending [of N db _ b0] v r(2) that by auto
      then show ?thesis
        using conclude_proof_ok [OF env inv cur zk root, of proven b e f] 2 run Inr eb by (simp add: range proven_def)
    qed
  qed
qed

lemma process_zk_proof_ok:
  assumes env: "node_env_ok N t U" and inv: "node_inv N t U L db" and cur: "L \<le> cur"
  obtains db' r where "process_zk_proof N cur f p db = Some (db', r)" "node_inv N t U cur db'" "node_extends db db'"
    "\<And>x. r \<noteq> Err (HaltingError x)"
proof (cases "\<exists>out. zk_verified N p out")
  case True
  then obtain out g m where out: "zk_verified N p out" "n_extract_output N p = Some out"
    "fork_from_block_number (n_forks N) (output_last_l2_height out) = Some g"
    "n_code_commitments_by_spec N (fork_spec_id g) = Some m" "n_verify N p m (network_to_dev_mode (n_network N))"
    by (auto simp: zk_verified_def)
  then have "output_state_roots out \<noteq> []" using env unfolding node_env_ok_def output_ok_def by blast
  then obtain root where root: "output_initial_state_root out = Some root" by (cases out) auto
  then have "process_zk_proof N cur f p db = process_tangerine_zk_proof N cur f root p out db"
    using out by (simp add: process_zk_proof_def)
  then show thesis using that process_tangerine_zk_proof_ok [OF env inv cur out(1) root, of f] by fastforce
next
  case False
  have "process_zk_proof N cur f p db = Some (db, Ok Discarded)"
  proof (cases "n_extract_output N p")
    case (Some out)
    obtain g m where "fork_from_block_number (n_forks N) (output_last_l2_height out) = Some g"
      "n_code_commitments_by_spec N (fork_spec_id g) = Some m" using env unfolding node_env_ok_def by blast
    moreover from this have "\<not> n_verify N p m (network_to_dev_mode (n_network N))"
      using False Some by (auto simp: zk_verified_def)
    ultimately show ?thesis using Some by (simp add: process_zk_proof_def)
  qed (simp add: process_zk_proof_def)
  then show thesis using that node_inv_later [OF inv cur] by fastforce
qed

lemma pending_proofs_loop_ok:
  assumes env: "node_env_ok N t U"
  shows "node_inv N t U cur db \<Longrightarrow>
    \<exists>db'. pending_proofs_loop N cur es db = Some db' \<and> node_inv N t U cur db' \<and> node_extends db db'"
proof (induction es arbitrary: db)
  case (Cons e es)
  obtain a b p f where e: "e = ((a, b), p, f)" by (cases e) auto
  obtain db1 r where r: "process_zk_proof N cur f p db = Some (db1, r)" "node_inv N t U cur db1" "node_extends db db1"
    by (rule process_zk_proof_ok [where f = f and p = p, OF env Cons.prems order_refl]) (rule that)
  note rm = node_inv_pending_proof(2) [OF r(2), of a b]
  obtain db2 where "pending_proofs_loop N cur es (remove_pending_proof a b db1) = Some db2" "node_inv N t U cur db2"
    "node_extends db db2"
    using Cons.IH [OF conjunct1 [OF rm]] node_extends_trans [OF r(3) node_extends_trans [OF conjunct2 [OF rm]]] by blast
  then show ?case using r e by (auto split: sum.split processing_result.split)
qed simp

subsection \<open>A block\<close>

lemma process_items_ok:
  assumes env: "node_env_ok N t U"
  shows "node_inv N t U h db \<Longrightarrow> \<forall>c. CommitmentItem c \<in> set items \<longrightarrow> commitment_ok t U c \<Longrightarrow>
    \<exists>db' r. process_items N h items db = Some (db', r) \<and> node_inv N t U h db' \<and> node_extends db db'"
proof (induction items arbitrary: db)
  case (Cons x items)
  have items: "\<forall>c. CommitmentItem c \<in> set items \<longrightarrow> commitment_ok t U c" using Cons.prems(2) by simp
  have IH: "\<exists>db' r. process_items N h items db1 = Some (db', r) \<and> node_inv N t U h db' \<and> node_extends db db'"
    if "node_inv N t U h db1" "node_extends db db1" for db1
    using Cons.IH [OF that(1) items] node_extends_trans [OF that(2)] by blast
  show ?case
  proof (cases x)
    case (ProofItem p)
    obtain db1 r where r: "process_zk_proof N h h p db = Some (db1, r)" "node_inv N t U h db1" "node_extends db db1"
      "\<And>x. r \<noteq> Err (HaltingError x)"
      by (rule process_zk_proof_ok [where f = h and p = p, OF env Cons.prems(1) order_refl]) (rule that)
    have "process_items N h (x # items) db = process_items N h items db1"
      using r(1,4) ProofItem by (auto split: sum.split processing_error.split)
    then show ?thesis using IH [OF r(2,3)] by simp
  next
    case (CommitmentItem c)
    show ?thesis
    proof (cases "sc_index c = 0")
      case True
      then show ?thesis using IH [OF Cons.prems(1) node_extends_refl] CommitmentItem by simp
    next
      case False
      have "commitment_ok t U c" using Cons.prems(2) CommitmentItem by simp
      then obtain db1 r where r: "process_sequencer_commitment N h h c db = Some (db1, r)" "node_inv N t U h db1"
        "node_extends db db1" "\<And>e. r = Err e \<Longrightarrow> halts_on_root e"
        by (rule process_sequencer_commitment_ok [where f = h, OF env Cons.prems(1) _ False order_refl]) (rule that)
      show ?thesis
      proof (cases r)
        case (Inl e)
        then show ?thesis using r(1-3) r(4) [OF Inl] CommitmentItem False by (auto simp: halts_on_root_def)
      next
        case (Inr y)
        then show ?thesis using IH [OF r(2,3)] r(1) CommitmentItem False by simp
      qed
    qed
  qed
qed simp

lemma process_l1_block_ok:
  assumes env: "node_env_ok N t U" and inv: "node_inv N t U L db" and h: "L \<le> da_header_height D b"
    and items: "\<forall>c \<in> set (map snd (extract_relevant_sequencer_commitments D b (n_sequencer_da_pub_key N))). commitment_ok t U c"
  shows "\<exists>db' r. process_l1_block N D b db = Some (db', r) \<and> node_inv N t U (da_header_height D b) db' \<and> node_extends db db'"
proof -
  let ?h = "da_header_height D b"
  let ?items = "extract_zk_proofs_and_sequencer_commitments D b (n_prover_da_pub_key N) (n_sequencer_da_pub_key N)"
  define db2 where "db2 = set_l1_height_of_l1_hash (da_header_hash D b) ?h
    (put_short_header_proof_by_l1_hash (da_header_hash D b) (da_short_header_proof D b) db)"
  note i1 = node_inv_l1_tables(1) [OF node_inv_later [OF inv h], of "da_header_hash D b" "da_short_header_proof D b"]
  note i2 = node_inv_l1_tables(2) [OF conjunct1 [OF i1], of "da_header_hash D b" ?h, folded db2_def]
  have ext2: "node_extends db db2" using node_extends_trans [OF conjunct2 [OF i1] conjunct2 [OF i2]] .
  have "\<forall>c. CommitmentItem c \<in> set ?items \<longrightarrow> commitment_ok t U c"
    using items by (auto simp: extract_zk_proofs_and_sequencer_commitments_def)
  then obtain db3 r where r: "process_items N ?h ?items db2 = Some (db3, r)" "node_inv N t U ?h db3" "node_extends db db3"
    using process_items_ok [OF env conjunct1 [OF i2]] node_extends_trans [OF ext2] by meson
  obtain db4 q where q: "process_pending_commitments N ?h db3 = Some (db4, q)" "node_inv N t U ?h db4" "node_extends db3 db4"
    "\<And>e. q = Err e \<Longrightarrow> halts_on_root e"
    by (rule process_pending_commitments_ok [OF env r(2)]) (rule that)
  obtain db5 where db5: "process_pending_proofs N ?h db4 = Some db5" "node_inv N t U ?h db5" "node_extends db4 db5"
    using pending_proofs_loop_ok [OF env q(2)] unfolding process_pending_proofs_def by blast
  note i6 = node_inv_l1_tables(3) [OF db5(2), of ?h]
  have ext: "node_extends db db4" "node_extends db (set_last_scanned_l1_height ?h db5)"
    using node_extends_trans [OF r(3)] node_extends_trans [OF q(3)] node_extends_trans [OF db5(3)] q(3) i6 by blast+
  have run: "process_l1_block N D b db = (case r of Inl e \<Rightarrow> Some (db3, Err e) | Inr _ \<Rightarrow>
      (case q of Inl (HaltingError (HaltingCommitment e)) \<Rightarrow> Some (db4, Err (HaltingCommitment e)) | Inl _ \<Rightarrow> None
        | Inr _ \<Rightarrow> Some (set_last_scanned_l1_height ?h db5, Ok ())))"
    using r(1) q(1) db5(1) by (simp add: process_l1_block_def db2_def Let_def split: sum.split)
  show ?thesis
  proof (cases r)
    case (Inl e)
    then show ?thesis using run r(2,3) by simp
  next
    case (Inr u)
    show ?thesis
    proof (cases q)
      case (Inl e)
      then show ?thesis using run Inr q(2) q(4) [OF Inl] ext(1) by (auto simp: halts_on_root_def)
    next
      case (Inr v)
      then show ?thesis using run \<open>r = Inr u\<close> i6 ext(2) by simp
    qed
  qed
qed

subsection \<open>A node that follows both chains\<close>

text \<open>L1 blocks are processed by the handler while the other tasks of the node execute and commit L2 blocks, one height after the other.\<close>

datatype 'b node_event = L1Block 'b | L2Block l2_block "hash32 list" "bytes list option"

fun node_run :: "node_env \<Rightarrow> 'b da_service \<Rightarrow> 'b node_event list \<Rightarrow> ledger_db \<Rightarrow> (ledger_db \<times> (halting_error + unit)) option" where
  "node_run N D [] db = Some (db, Ok ())"
| "node_run N D (L1Block b # es) db = do {
     (db1, r) \<leftarrow> process_l1_block N D b db;
     (case r of Inl e \<Rightarrow> Some (db1, Err e) | Inr _ \<Rightarrow> node_run N D es db1)
   }"
| "node_run N D (L2Block b tx_hashes tx_bodies # es) db = do {
     db1 \<leftarrow> commit_l2_block b tx_hashes tx_bodies db;
     node_run N D es db1
   }"

text \<open>L1 heights do not fall and L2 heights follow each other; the sequencer's first commitment ends in its range.\<close>

fun events_ok :: "node_env \<Rightarrow> 'b da_service \<Rightarrow> u64 \<Rightarrow> sequencer_commitment set \<Rightarrow> u64 \<Rightarrow> u64 \<Rightarrow> 'b node_event list \<Rightarrow> bool" where
  "events_ok N D t U L head [] = True"
| "events_ok N D t U L head (L1Block b # es) \<longleftrightarrow> L \<le> da_header_height D b
     \<and> (\<forall>c \<in> set (map snd (extract_relevant_sequencer_commitments D b (n_sequencer_da_pub_key N))). commitment_ok t U c)
     \<and> events_ok N D t U (da_header_height D b) head es"
| "events_ok N D t U L head (L2Block b tx_hashes tx_bodies # es) \<longleftrightarrow> lb_height b = head + 1 \<and> unat head + 1 < 2 ^ 55
     \<and> (\<forall>bodies. tx_bodies = Some bodies \<longrightarrow> length bodies = length tx_hashes)
     \<and> events_ok N D t U L (head + 1) es"

text \<open>The handler does not touch the blocks.\<close>

lemma commitment_keeps_blocks:
  "process_sequencer_commitment N cur f c db = Some (db', r) \<Longrightarrow> l2_block_by_number db' = l2_block_by_number db"
  by (auto simp: process_sequencer_commitment_def panic_simps store_pending_commitment_def store_commitment_def
      set_l2_height_status_def put_commitment_by_index_def set_l2_range_by_commitment_merkle_root_def
      update_commitments_on_da_slot_def split: if_splits option.splits)

lemma pending_commitments_keep_blocks:
  "pending_commitments_loop N cur es db = Some (db', r) \<Longrightarrow> l2_block_by_number db' = l2_block_by_number db"
proof (induction es arbitrary: db)
  case (Cons e es)
  obtain i c f where e: "e = (i, c, f)" by (cases e)
  show ?case
  proof (cases "process_sequencer_commitment N cur f c db")
    case (Some x)
    obtain db1 q where x: "x = (db1, q)" by (cases x)
    have keep: "l2_block_by_number (remove_pending_commitment i db1) = l2_block_by_number db" "l2_block_by_number db1 = l2_block_by_number db"
      using commitment_keeps_blocks [of N cur f c db] Some x by (simp_all add: remove_pending_commitment_def)
    show ?thesis
      using Cons.prems Cons.IH [of db1] Cons.IH [of "remove_pending_commitment i db1"] Some x e keep
      by (simp split: if_splits sum.splits processing_error.splits halting_error.splits processing_result.splits)
  qed (use Cons.prems e in \<open>auto split: if_splits\<close>)
qed simp

lemma conclude_keeps_blocks:
  "conclude_proof cur f root p out pr e b db = (db', r) \<Longrightarrow> l2_block_by_number db' = l2_block_by_number db"
  by (auto simp: conclude_proof_def Let_def case_prod_beta store_pending_proof_def set_l2_height_status_def
      update_verified_proof_data_def split: if_splits option.splits)

lemma tangerine_keeps_blocks:
  "process_tangerine_zk_proof N cur f root p out db = Some (db', r) \<Longrightarrow> l2_block_by_number db' = l2_block_by_number db"
  by (auto simp: process_tangerine_zk_proof_def Let_def case_prod_beta panic_simps dest!: conclude_keeps_blocks
      split: if_splits)

lemma proof_keeps_blocks:
  "process_zk_proof N cur f p db = Some (db', r) \<Longrightarrow> l2_block_by_number db' = l2_block_by_number db"
  by (auto simp: process_zk_proof_def panic_simps dest!: tangerine_keeps_blocks split: if_splits option.splits)

lemma pending_proofs_keep_blocks:
  "pending_proofs_loop N cur es db = Some db' \<Longrightarrow> l2_block_by_number db' = l2_block_by_number db"
proof (induction es arbitrary: db)
  case (Cons e es)
  obtain a b p f where e: "e = ((a, b), p, f)" by (cases e) auto
  show ?case
  proof (cases "process_zk_proof N cur f p db")
    case (Some x)
    obtain db1 q where x: "x = (db1, q)" by (cases x)
    have keep: "l2_block_by_number (remove_pending_proof a b db1) = l2_block_by_number db" "l2_block_by_number db1 = l2_block_by_number db"
      using proof_keeps_blocks [of N cur f p db] Some x by (simp_all add: remove_pending_proof_def)
    show ?thesis
      using Cons.prems Cons.IH [of "remove_pending_proof a b db1"] Some x e keep
      by (simp split: sum.splits processing_result.splits)
  qed (use Cons.prems e in auto)
qed simp

lemma items_keep_blocks:
  "process_items N h items db = Some (db', r) \<Longrightarrow> l2_block_by_number db' = l2_block_by_number db"
proof (induction items arbitrary: db)
  case (Cons x items)
  show ?case
  proof (cases x)
    case (ProofItem p)
    from Cons.prems obtain db1 q where q: "process_zk_proof N h h p db = Some (db1, q)"
      by (auto simp: ProofItem panic_simps)
    then show ?thesis
      using Cons.prems Cons.IH [of db1] proof_keeps_blocks [OF q]
      by (simp add: ProofItem split: sum.splits processing_error.splits halting_error.splits)
  next
    case (CommitmentItem c)
    show ?thesis
    proof (cases "sc_index c = 0")
      case False
      from Cons.prems False obtain db1 q where q: "process_sequencer_commitment N h h c db = Some (db1, q)"
        by (auto simp: CommitmentItem panic_simps)
      then show ?thesis
        using Cons.prems Cons.IH [of db1] commitment_keeps_blocks [OF q] False
        by (simp add: CommitmentItem split: sum.splits processing_error.splits halting_error.splits)
    qed (use Cons CommitmentItem in simp)
  qed
qed simp

lemma l1_block_keeps_blocks:
  assumes "process_l1_block N D b db = Some (db', r)"
  shows "l2_block_by_number db' = l2_block_by_number db"
proof -
  from assms obtain db3 q where q: "process_items N (da_header_height D b)
      (extract_zk_proofs_and_sequencer_commitments D b (n_prover_da_pub_key N) (n_sequencer_da_pub_key N))
      (set_l1_height_of_l1_hash (da_header_hash D b) (da_header_height D b)
        (put_short_header_proof_by_l1_hash (da_header_hash D b) (da_short_header_proof D b) db)) = Some (db3, q)"
    by (auto simp: process_l1_block_def Let_def panic_simps)
  have b3: "l2_block_by_number db3 = l2_block_by_number db"
    using items_keep_blocks [OF q] by (simp add: set_l1_height_of_l1_hash_def put_short_header_proof_by_l1_hash_def)
  show ?thesis
  proof (cases q)
    case (Inl e)
    then show ?thesis using assms q b3 by (simp add: process_l1_block_def)
  next
    case (Inr u)
    from assms q Inr obtain db4 w where w: "process_pending_commitments N (da_header_height D b) db3 = Some (db4, w)"
      by (auto simp: process_l1_block_def Let_def panic_simps)
    have b4: "l2_block_by_number db4 = l2_block_by_number db"
      using pending_commitments_keep_blocks w b3 unfolding process_pending_commitments_def by metis
    have b5: "process_pending_proofs N (da_header_height D b) db4 = Some db5 \<Longrightarrow> l2_block_by_number db5 = l2_block_by_number db" for db5
      using pending_proofs_keep_blocks b4 unfolding process_pending_proofs_def by metis
    have run: "process_l1_block N D b db = (case w of
        Inl e \<Rightarrow> (case e of HaltingError (HaltingCommitment x) \<Rightarrow> Some (db4, Err (HaltingCommitment x)) | _ \<Rightarrow> None)
      | Inr _ \<Rightarrow> map_option (\<lambda>db5. (set_last_scanned_l1_height (da_header_height D b) db5, Ok ()))
          (process_pending_proofs N (da_header_height D b) db4))"
      using q Inr w by (simp add: process_l1_block_def Let_def map_option_case bind_eq_None_conv split: sum.split option.split)
    show ?thesis
    proof (cases w)
      case (Inl e)
      then have "db' = db4" using assms run
        by (cases e rule: processing_error.exhaust) (auto split: halting_error.splits)
      then show ?thesis using b4 by simp
    next
      case (Inr v)
      then show ?thesis using assms run b5 by (auto simp: set_last_scanned_l1_height_def)
    qed
  qed
qed

lemma commit_l2_block_views:
  assumes "tables_sorted db" "commit_l2_block b tx_hashes tx_bodies db = Some db'"
  obtains sb where "node_blocks db' = (node_blocks db)(lb_height b \<mapsto> sb)" "sb_hash sb = lb_hash b"
    "l2_block_by_number db' = bm_insert (lb_height b) sb (l2_block_by_number db)"
    "get_commitment_by_index db' = get_commitment_by_index db" "l2_status_heights db' = l2_status_heights db"
    "pending_sequencer_commitments db' = pending_sequencer_commitments db" "pending_proofs db' = pending_proofs db"
    "verified_batch_proofs_by_slot_number db' = verified_batch_proofs_by_slot_number db"
    "l2_genesis_state_root db' = l2_genesis_state_root db" "tables_sorted db'"
  using assms by (auto simp: commit_l2_block_def put_l2_block_def panic_simps node_blocks_def tables_sorted_def
      get_commitment_by_index_def intro!: that)

lemma node_inv_commit:
  assumes inv: "node_inv N t U L db" and h: "lb_height b = node_head db + 1" "unat (node_head db) + 1 < 2 ^ 55"
    and c: "commit_l2_block b tx_hashes tx_bodies db = Some db'"
  shows "node_inv N t U L db'" "node_extends db db'" "node_head db' = node_head db + 1"
proof -
  note i = inv [unfolded node_inv_def]
  obtain sb where v: "node_blocks db' = (node_blocks db)(node_head db + 1 \<mapsto> sb)"
    "get_commitment_by_index db' = get_commitment_by_index db" "l2_status_heights db' = l2_status_heights db"
    "pending_sequencer_commitments db' = pending_sequencer_commitments db"
    "verified_batch_proofs_by_slot_number db' = verified_batch_proofs_by_slot_number db"
    "l2_genesis_state_root db' = l2_genesis_state_root db" "tables_sorted db'"
    using commit_l2_block_views [OF _ c] i h(1) by metis
  have head: "unat (node_head db + 1) = Suc (unat (node_head db))" using h(2) by (simp add: unat_word_ariths)
  have le: "k \<le> node_head db + 1 \<longleftrightarrow> k = node_head db + 1 \<or> k \<le> node_head db" for k
    using head by (auto simp: word_le_nat_alt word_eq_unat)
  have "1 \<le> node_head db + 1" using head by (simp add: word_le_nat_alt)
  then have dom: "dom (node_blocks db') = {1..node_head db + 1}" using i le by (auto simp: v(1) blocks_inv_def)
  then show nh: "node_head db' = node_head db + 1" using node_head_eq v(7) by (auto simp: tables_sorted_def)
  have ne: "k \<noteq> node_head db + 1" if "k \<le> node_head db" for k using that head by (auto simp: word_le_nat_alt)
  have old: "node_blocks db' k = node_blocks db k" if "k \<le> node_head db" for k using ne [OF that] by (simp add: v(1))
  have hashes: "block_hashes db' x y = block_hashes db x y" if "y \<le> node_head db" for x y
    using old that by (auto simp: block_hashes_def)
  have st: "highest db' s = highest db s" for s by (simp add: get_highest_l2_height_for_status_def v)
  have "node_blocks db \<subseteq>\<^sub>m node_blocks db'" using i ne by (fastforce simp: v(1) map_le_def blocks_inv_def)
  then show ext: "node_extends db db'" by (simp add: node_extends_def st v)
  have "start_of t db' = start_of t db" by (simp add: start_of_def v fun_eq_iff)
  then have "commitments_inv N t U db'"
    using i hashes le unfolding commitments_inv_def v(2) nh by simp
  moreover have "proofs_inv N t db'" using i ext v(5) by (blast intro: proofs_inv_extends)
  ultimately show "node_inv N t U L db'"
    using i h(2) head dom by (simp add: node_inv_def v nh blocks_inv_def status_inv_def status_upto_def st pending_inv_def
        get_pending_commitment_by_index_def)
qed

fun last_l1_height :: "'b da_service \<Rightarrow> u64 \<Rightarrow> 'b node_event list \<Rightarrow> u64" where
  "last_l1_height D L [] = L"
| "last_l1_height D L (L1Block b # es) = last_l1_height D (da_header_height D b) es"
| "last_l1_height D L (L2Block _ _ _ # es) = last_l1_height D L es"

lemma last_l1_height_ge: "events_ok N D t U L head es \<Longrightarrow> L \<le> last_l1_height D L es"
  by (induction D L es arbitrary: head rule: last_l1_height.induct) (auto intro: order_trans)

lemma node_run_ok:
  assumes env: "node_env_ok N t U"
  shows "node_inv N t U L db \<Longrightarrow> events_ok N D t U L (node_head db) es \<Longrightarrow>
    \<exists>db' r. node_run N D es db = Some (db', r) \<and> node_inv N t U (last_l1_height D L es) db' \<and> node_extends db db'"
proof (induction es arbitrary: L db)
  case (Cons e es)
  show ?case
  proof (cases e)
    case (L1Block b)
    from Cons.prems(2) have h: "L \<le> da_header_height D b" and es: "events_ok N D t U (da_header_height D b) (node_head db) es"
      and items: "\<forall>c \<in> set (map snd (extract_relevant_sequencer_commitments D b (n_sequencer_da_pub_key N))). commitment_ok t U c"
      by (auto simp: L1Block)
    obtain db1 r where r: "process_l1_block N D b db = Some (db1, r)" "node_inv N t U (da_header_height D b) db1" "node_extends db db1"
      using process_l1_block_ok [OF env Cons.prems(1) h items] by blast
    have "node_head db1 = node_head db"
      using l1_block_keeps_blocks [OF r(1)] by (simp add: node_head_def get_head_l2_block_height_def)
    then obtain db2 q where q: "node_run N D es db1 = Some (db2, q)" "node_extends db1 db2"
      "node_inv N t U (last_l1_height D (da_header_height D b) es) db2"
      using Cons.IH [OF r(2)] es by auto
    show ?thesis
    proof (cases r)
      case (Inl x)
      then show ?thesis
        using r last_l1_height_ge [OF es] node_inv_later [OF r(2)] by (simp add: L1Block)
    next
      case (Inr x)
      then show ?thesis using r q node_extends_trans [OF r(3) q(2)] by (simp add: L1Block)
    qed
  next
    case (L2Block b hs bs)
    from Cons.prems(2) have h: "lb_height b = node_head db + 1" "unat (node_head db) + 1 < 2 ^ 55"
      and es: "events_ok N D t U L (node_head db + 1) es" by (auto simp: L2Block)
    from Cons.prems(2) obtain db1 where c: "commit_l2_block b hs bs db = Some db1"
      by (cases bs) (auto simp: L2Block commit_l2_block_def stored_txs_def)
    note i = node_inv_commit [OF Cons.prems(1) h c]
    obtain db2 q where "node_run N D es db1 = Some (db2, q)" "node_extends db1 db2" "node_inv N t U (last_l1_height D L es) db2"
      using Cons.IH [OF i(1)] es i(3) by auto
    then show ?thesis using c node_extends_trans [OF i(2)] by (auto simp: L2Block)
  qed
qed auto

text \<open>A node starts with the genesis state root in its ledger and nothing else.\<close>

lemma node_inv_genesis: "node_inv N t U 0 (set_l2_genesis_state_root r empty_ledger_db)"
  by (simp add: node_inv_def tables_sorted_def blocks_inv_def commitments_inv_def status_inv_def status_upto_def pending_inv_def
      proofs_inv_def set_l2_genesis_state_root_def empty_ledger_db_def node_blocks_def node_head_def
      get_head_l2_block_height_def bm_last_def or_else_def bm_get_def get_commitment_by_index_def
      get_highest_l2_height_for_status_def bm_seek_for_prev_def get_pending_commitment_by_index_def)


text \<open>One L2 block, its commitment and a proof for it.\<close>

definition demo_l2_block :: l2_block where
  "demo_l2_block = \<lparr> lb_header = \<lparr> sh_inner = \<lparr> l2_height = 1, l2_prev_hash = [], l2_state_root = [9], l2_l1_fee_rate = 0,
     l2_tx_merkle_root = [], l2_timestamp = 0 \<rparr>, sh_hash = [3], sh_signature = [] \<rparr>, lb_txs = [] \<rparr>"

definition demo_commitment :: sequencer_commitment where
  "demo_commitment = \<lparr> sc_merkle_root = pad_to 32 [3], sc_index = 1, sc_l2_end_block_number = 1 \<rparr>"

definition demo_output :: batch_proof_circuit_output where
  "demo_output = OutputV3 \<lparr> v3_state_roots = [[8], [9]], v3_final_l2_block_hash = [3], v3_state_diff = [], v3_last_l2_height = 1,
     v3_sequencer_commitment_hashes = [serialize_and_calculate_sha_256 pad_l2_env demo_commitment],
     v3_sequencer_commitment_index_range = (1, 1), v3_last_l1_hash_on_bitcoin_light_client_contract = [1],
     v3_previous_commitment_index = None, v3_previous_commitment_hash = None \<rparr>"

definition demo_node :: node_env where
  "demo_node = \<lparr> n_l2 = pad_l2_env, n_forks = Some MAINNET_FORKS, n_network = Mainnet, n_sequencer_da_pub_key = [],
     n_prover_da_pub_key = [], n_code_commitments_by_spec = (\<lambda>_. Some []),
     n_extract_output = (\<lambda>p. if p = [7] then Some demo_output else None), n_verify = (\<lambda>_ _ _. True) \<rparr>"

definition demo_da :: "unit da_service" where
  "demo_da = \<lparr> da_header_height = (\<lambda>_. 5), da_header_hash = (\<lambda>_. [1]), da_short_header_proof = (\<lambda>_. []),
     extract_relevant_zk_proofs = (\<lambda>_ _. [(1, [7])]),
     extract_relevant_sequencer_commitments = (\<lambda>_ _. [(0, demo_commitment)]) \<rparr>"

definition demo_ledger :: ledger_db where
  "demo_ledger = the (commit_l2_block demo_l2_block [] None (set_l2_genesis_state_root [8] empty_ledger_db))"

lemma demo_forks: "fork_from_block_number (Some MAINNET_FORKS) h = Some (Fork_new Tangerine 0)"
  by (simp add: fork_from_block_number_def get_forks_def MAINNET_FORKS_def fork_pos_from_block_number_def Fork_new_def index_def
      binary_search_def bs_loop.simps [of _ _ 0 "Suc 0"] Let_def)

lemma demo_env_ok: "node_env_ok demo_node 1 {demo_commitment}"
proof -
  have "output_ok pad_l2_env {demo_commitment} demo_output"
    by (auto simp: output_ok_def demo_output_def u32_range_def demo_commitment_def intro!: exI [of _ "[demo_commitment]"])
  moreover have "get_tangerine_activation_height_non_zero (Some MAINNET_FORKS) = Some 1"
    by (simp add: get_tangerine_activation_height_non_zero_def get_forks_def MAINNET_FORKS_def Fork_new_def index_def)
  ultimately show ?thesis
    by (auto simp: node_env_ok_def demo_node_def zk_verified_def demo_forks pad_l2_env_def split: if_splits)
qed

lemma demo_ledger_inv: "node_inv N t U 0 demo_ledger" "node_head demo_ledger = 1"
proof -
  let ?g = "set_l2_genesis_state_root [8] empty_ledger_db"
  have c: "commit_l2_block demo_l2_block [] None ?g = Some demo_ledger"
    by (simp add: demo_ledger_def commit_l2_block_def stored_txs_def)
  have h: "node_head ?g = 0"
    by (simp add: node_head_def get_head_l2_block_height_def set_l2_genesis_state_root_def empty_ledger_db_def bm_last_def or_else_def)
  then show "node_inv N t U 0 demo_ledger" "node_head demo_ledger = 1"
    using node_inv_commit [OF node_inv_genesis _ _ c] by (simp_all add: demo_l2_block_def lb_height_def lb_inner_def)
qed


subsection \<open>Where the node trusts too much\<close>

text \<open>
  C39: A commitment that waits for its predecessor is replaced by a later one with the same index, while one that waits for its blocks is
  kept: the first commitment of an index on DA is not always the one a full node stores in the end.
\<close>

theorem pending_commitment_replaced:
  assumes "tables_sorted db" "sc_index c = i" "sc_index c' = i" "i \<noteq> 1"
    and "get_commitment_by_index db i = None" "\<not> commitment_stale db c" "\<not> commitment_stale db c'"
  shows "(get_commitment_by_index db (i - 1) = None \<longrightarrow>
      (\<exists>db1 db2. process_sequencer_commitment N h f c db = Some (db1, Ok Pending)
        \<and> process_sequencer_commitment N h' f' c' db1 = Some (db2, Ok Pending)
        \<and> get_pending_commitment_by_index db2 i = Some (c', f')))
    \<and> (get_commitment_by_index db (i - 1) \<noteq> None \<and> get_pending_commitment_by_index db i = Some (c, f)
        \<and> node_head db < sc_l2_end_block_number c' \<longrightarrow>
      process_sequencer_commitment N h' f' c' db = Some (db, Ok Pending))"
proof -
  let ?db1 = "store_pending_commitment c f db" and ?db2 = "store_pending_commitment c' f' (store_pending_commitment c f db)"
  have same: "get_commitment_by_index ?db1 = get_commitment_by_index db" "commitment_stale ?db1 x = commitment_stale db x" for x
    by (simp_all add: store_pending_commitment_def get_commitment_by_index_def commitment_stale_def
        get_highest_l2_height_for_status_def)
  have "\<exists>db1 db2. process_sequencer_commitment N h f c db = Some (db1, Ok Pending)
        \<and> process_sequencer_commitment N h' f' c' db1 = Some (db2, Ok Pending)
        \<and> get_pending_commitment_by_index db2 i = Some (c', f')" if p: "get_commitment_by_index db (i - 1) = None"
  proof (intro exI conjI)
    show "process_sequencer_commitment N h f c db = Some (?db1, Ok Pending)"
      "process_sequencer_commitment N h' f' c' ?db1 = Some (?db2, Ok Pending)"
      using assms p same by (simp_all add: process_sequencer_commitment_def commitment_start_def)
    show "get_pending_commitment_by_index ?db2 i = Some (c', f')"
      using assms(1-3) by (simp add: store_pending_commitment_def get_pending_commitment_by_index_def tables_sorted_def)
  qed
  moreover have "process_sequencer_commitment N h' f' c' db = Some (db, Ok Pending)"
    if "get_commitment_by_index db (i - 1) \<noteq> None" "get_pending_commitment_by_index db i = Some (c, f)"
      "node_head db < sc_l2_end_block_number c'"
    using assms that by (auto simp: process_sequencer_commitment_def commitment_start_def node_head_def)
  ultimately show ?thesis by blast
qed

definition demo_commitments :: "u64 \<Rightarrow> sequencer_commitment" where
  "demo_commitments e = \<lparr> sc_merkle_root = [], sc_index = 2, sc_l2_end_block_number = e \<rparr>"

theorem pending_commitment_replaced_witness:
  "\<exists>db1 db2. process_sequencer_commitment demo_node 4 4 (demo_commitments 7) empty_ledger_db = Some (db1, Ok Pending)
     \<and> process_sequencer_commitment demo_node 5 5 (demo_commitments 8) db1 = Some (db2, Ok Pending)
     \<and> get_pending_commitment_by_index db2 2 = Some (demo_commitments 8, 5)"
proof -
  have "tables_sorted empty_ledger_db" "get_commitment_by_index empty_ledger_db i = None"
    "\<not> commitment_stale empty_ledger_db x" for i x
    by (simp_all add: empty_ledger_db_def tables_sorted_def get_commitment_by_index_def bm_get_def
      commitment_stale_def get_highest_l2_height_for_status_def bm_seek_for_prev_def bm_last_def)
  then show ?thesis
    using pending_commitment_replaced [of empty_ledger_db "demo_commitments 7" 2 "demo_commitments 8" demo_node 4 4 5 5]
    by (simp add: demo_commitments_def)
qed

lemma verify_hashes_stored: "hashes_stored N db ps \<Longrightarrow> verify_commitment_hashes N db ps False = Ok False"
proof (induction ps)
  case (Cons x ps)
  obtain i h where x: "x = (i, h)" by (cases x)
  from Cons.prems have "hashes_stored N db ps" and "\<exists>c. get_commitment_by_index db i = Some c \<and> serialize_and_calculate_sha_256 (n_l2 N) c = h"
    by (auto simp: hashes_stored_def x)
  then show ?case using Cons.IH by (auto simp: x verify_sequencer_commitment_hash_by_index_def Let_def)
qed simp

lemma previous_known_end:
  "get_tangerine_activation_height_non_zero (n_forks N) = Some t \<Longrightarrow> previous_known N t db out e \<Longrightarrow>
    previous_l2_end N db out = Some (Ok (e, False))"
  by (auto simp: previous_known_def previous_l2_end_def verify_sequencer_commitment_hash_by_index_def Let_def split: option.splits)


definition rogue_output :: "u64 \<Rightarrow> u32 \<Rightarrow> batch_proof_circuit_output" where
  "rogue_output height lst = OutputV3 \<lparr> v3_state_roots = [[8], [9]], v3_final_l2_block_hash = [], v3_state_diff = [],
     v3_last_l2_height = height,
     v3_sequencer_commitment_hashes = [serialize_and_calculate_sha_256 pad_l2_env demo_commitment, [], []],
     v3_sequencer_commitment_index_range = (1, lst), v3_last_l1_hash_on_bitcoin_light_client_contract = [1],
     v3_previous_commitment_index = None, v3_previous_commitment_hash = None \<rparr>"

definition rogue_node :: node_env where
  "rogue_node = demo_node \<lparr> n_extract_output := (\<lambda>p. if p = [7] then Some (rogue_output 2 1) else Some (rogue_output 3 2)) \<rparr>"

definition rogue_ledger :: ledger_db where
  "rogue_ledger = empty_ledger_db \<lparr> l2_genesis_state_root := Some [8], slot_by_hash := [([1], 5)],
     sequencer_commitment_by_index := [(1, demo_commitment)],
     l2_status_heights := [((Committed, 5), \<lparr> hi_height = 1, hi_commitment_index = 1 \<rparr>)] \<rparr>"


end
