(* ===== verification/Sequencer.thy ===== *)
theory Sequencer
  imports Full_Node_Correct
begin

section \<open>Sequencer commitments\<close>

text \<open>
  \<^verbatim>\<open>sequencer/src/commitment\<close>: the controller decides after each L2 block whether the blocks since the last commitment are to be committed, because
  there are enough of them or because their state diff is about to outgrow a DA transaction, and the service builds the commitment,
  sends it to DA and stores it. The atomics and the lock of the controller are the fields of a record. Sending to the DA
  queue succeeds or stops the service, so a send is an entry of the list of published commitments. The serialization of a diff, the
  compression and the order in which a \<^verbatim>\<open>HashMap\<close> yields its entries are parameters.
\<close>

record seq_env =
  se_l2 :: l2_env
  se_forks :: forks_cell
  se_max_l2_blocks :: u64
  se_to_vec :: "state_diff \<Rightarrow> bytes"
  se_codec :: da_codec
  se_hash_map_order :: "(bytes, bytes option) bmap \<Rightarrow> state_diff"

record commitment_controller =
  next_commitment_index :: u32
  next_commitment_start_height :: u64
  last_l2_height :: u64
  cc_state_diff :: state_diff

definition SAFE_MAX_UNCOMPRESSED_TXBODY_SIZE :: nat where
  "SAFE_MAX_UNCOMPRESSED_TXBODY_SIZE = MAX_TX_BODY_SIZE * 2"

definition merge_state_diffs :: "seq_env \<Rightarrow> state_diff \<Rightarrow> state_diff \<Rightarrow> state_diff" where
  "merge_state_diffs E old new =
     se_hash_map_order E (fold (\<lambda>(k, v). bm_insert k v) new (fold (\<lambda>(k, v). bm_insert k v) old []))"

definition load_next_commitment_index_and_start_height :: "seq_env \<Rightarrow> ledger_db \<Rightarrow> (u32 \<times> u64) option" where
  "load_next_commitment_index_and_start_height E db =
     (case get_last_commitment db of
        Some c \<Rightarrow> Some (sc_index c + 1, sc_l2_end_block_number c + 1)
      | None \<Rightarrow> map_option (\<lambda>t. (1, t)) (get_tangerine_activation_height_non_zero (se_forks E)))"

definition CommitmentController_new :: "seq_env \<Rightarrow> ledger_db \<Rightarrow> commitment_controller option" where
  "CommitmentController_new E db = do {
     (next_index, next_start_height) \<leftarrow> load_next_commitment_index_and_start_height E db;
     Some \<lparr> next_commitment_index = next_index, next_commitment_start_height = next_start_height,
            last_l2_height = next_start_height - 1, cc_state_diff = [] \<rparr>
   }"

text \<open>Whether a diff has to be committed: the size is checked before the compression, whose failure panics.\<close>

definition check_state_diff_threshold ::
  "seq_env \<Rightarrow> ledger_db \<Rightarrow> u64 \<Rightarrow> commitment_controller \<Rightarrow> ((u64 \<times> u64) option \<times> commitment_controller) option" where
  "check_state_diff_threshold E db height cc = do {
     let diff = get_state_diff db height;
     let cc1 = cc \<lparr> cc_state_diff := merge_state_diffs E (cc_state_diff cc) diff \<rparr>;
     let uncompressed = se_to_vec E (cc_state_diff cc1);
     if length uncompressed \<le> SAFE_MAX_UNCOMPRESSED_TXBODY_SIZE then Some (None, cc1)
     else do {
       compressed \<leftarrow> compress_blob (se_codec E) uncompressed;
       if length compressed \<le> MAX_TX_BODY_SIZE then Some (None, cc1)
       else Some (Some (next_commitment_start_height cc, height - 1), cc1 \<lparr> cc_state_diff := diff \<rparr>)
     }
   }"

definition check_max_l2_blocks :: "seq_env \<Rightarrow> u64 \<Rightarrow> commitment_controller \<Rightarrow> (u64 \<times> u64) option option" where
  "check_max_l2_blocks E height cc = do {
     let l2_start = next_commitment_start_height cc;
     assert_that (l2_start \<le> height);
     Some (if 1 + height - l2_start < se_max_l2_blocks E then None else Some (l2_start, height))
   }"

definition should_commit ::
  "seq_env \<Rightarrow> ledger_db \<Rightarrow> u64 \<Rightarrow> commitment_controller \<Rightarrow> ((u32 \<times> u64 \<times> u64) option \<times> commitment_controller) option" where
  "should_commit E db height cc = do {
     assert_that (height = last_l2_height cc + 1);
     (by_diff, cc1) \<leftarrow> check_state_diff_threshold E db height (cc \<lparr> last_l2_height := last_l2_height cc + 1 \<rparr>);
     (decision, cc2) \<leftarrow> (case by_diff of
        Some rng \<Rightarrow> Some (Some rng, cc1)
      | None \<Rightarrow> do {
          by_count \<leftarrow> check_max_l2_blocks E height cc1;
          Some (by_count, if by_count = None then cc1 else cc1 \<lparr> cc_state_diff := [] \<rparr>)
        });
     Some (case decision of
        None \<Rightarrow> (None, cc2)
      | Some (a, b) \<Rightarrow> (Some (next_commitment_index cc2, a, b),
          cc2 \<lparr> next_commitment_index := next_commitment_index cc2 + 1, next_commitment_start_height := b + 1 \<rparr>))
   }"

text \<open>The caller of \<^verbatim>\<open>get_commitment\<close> and of \<^verbatim>\<open>commit\<close> expects a result, so an error is a panic.\<close>

definition get_commitment :: "seq_env \<Rightarrow> u32 \<Rightarrow> u64 \<times> u64 \<Rightarrow> hash32 list \<Rightarrow> sequencer_commitment option" where
  "get_commitment E i rng l2_block_hashes = (case rng of (a, b) \<Rightarrow> do {
     assert_that (b - a + 1 = of_nat (length l2_block_hashes));
     root \<leftarrow> rs_merkle_root (se_l2 E) (l2_sha256 (se_l2 E)) l2_block_hashes;
     Some \<lparr> sc_merkle_root = root, sc_index = i, sc_l2_end_block_number = b \<rparr>
   })"

definition commit :: "seq_env \<Rightarrow> u32 \<Rightarrow> u64 \<times> u64 \<Rightarrow> ledger_db \<Rightarrow> (sequencer_commitment \<times> ledger_db) option" where
  "commit E i rng db = do {
     blocks \<leftarrow> get_l2_block_range db (fst rng) (snd rng);
     c \<leftarrow> get_commitment E i rng (map sb_hash blocks);
     Some (c, delete_state_diff_by_range (fst rng) (snd rng) (put_commitment_by_index c db))
   }"

text \<open>The turns of the service's loop: one height after the other, up to the head.\<close>

fun commit_heights ::
  "seq_env \<Rightarrow> u64 list \<Rightarrow> commitment_controller \<Rightarrow> ledger_db \<Rightarrow> (sequencer_commitment list \<times> commitment_controller \<times> ledger_db) option" where
  "commit_heights E [] cc db = Some ([], cc, db)"
| "commit_heights E (h # hs) cc db = do {
     (decision, cc1) \<leftarrow> should_commit E db h cc;
     (published, db1) \<leftarrow> (case decision of
        None \<Rightarrow> Some ([], db)
      | Some (i, rng) \<Rightarrow> do { (c, db1) \<leftarrow> commit E i rng db; Some ([c], db1) });
     (rest, cc2, db2) \<leftarrow> commit_heights E hs cc1 db1;
     Some (published @ rest, cc2, db2)
   }"

definition check_new_blocks ::
  "seq_env \<Rightarrow> bool \<Rightarrow> commitment_controller \<Rightarrow> ledger_db \<Rightarrow> (sequencer_commitment list \<times> commitment_controller \<times> ledger_db) option" where
  "check_new_blocks E is_producing_commitments cc db =
     (let head = or_else (get_head_l2_block_height db) 0 in
      if \<not> is_producing_commitments \<or> head \<le> last_l2_height cc then Some ([], cc, db)
      else commit_heights E (u64_range (last_l2_height cc + 1) head) cc db)"

text \<open>
  After a restart, the commitments found in the mempool and in mined blocks are stored first. \<^verbatim>\<open>sort\<close> compares
  indices and is stable, \<^verbatim>\<open>dedup\<close> removes equal neighbours.
\<close>

fun consecutive_indices :: "u32 \<Rightarrow> sequencer_commitment list \<Rightarrow> bool" where
  "consecutive_indices i [] = True"
| "consecutive_indices i (c # cs) \<longleftrightarrow> sc_index c = i + 1 \<and> consecutive_indices (sc_index c) cs"

fun store_commitments_loop :: "seq_env \<Rightarrow> sequencer_commitment list \<Rightarrow> ledger_db \<Rightarrow> ledger_db option" where
  "store_commitments_loop E [] db = Some db"
| "store_commitments_loop E (c # cs) db = do {
     start \<leftarrow> (if sc_index c = 1 then get_tangerine_activation_height_non_zero (se_forks E)
              else map_option (\<lambda>p. sc_l2_end_block_number p + 1) (get_commitment_by_index db (sc_index c - 1)));
     store_commitments_loop E cs
       (delete_state_diff_by_range start (sc_l2_end_block_number c) (put_commitment_by_index c db))
   }"

definition store_commitments_from_da ::
  "seq_env \<Rightarrow> sequencer_commitment list \<Rightarrow> sequencer_commitment list \<Rightarrow> ledger_db \<Rightarrow> ledger_db option" where
  "store_commitments_from_da E pending_mempool_commitments mined_commitments db = do {
     let last_index = (case get_last_commitment db of None \<Rightarrow> 0 | Some c \<Rightarrow> sc_index c);
     let to_store = filter (\<lambda>c. last_index < sc_index c)
           (remdups_adj (sort_key sc_index (pending_mempool_commitments @ mined_commitments)));
     assert_that (consecutive_indices last_index to_store);
     store_commitments_loop E to_store db
   }"

subsection \<open>The state of the service\<close>

definition fits :: "seq_env \<Rightarrow> state_diff \<Rightarrow> bool" where
  "fits E d \<longleftrightarrow> length (se_to_vec E d) \<le> SAFE_MAX_UNCOMPRESSED_TXBODY_SIZE
     \<or> (\<forall>c. compress_blob (se_codec E) (se_to_vec E d) = Some c \<longrightarrow> length c \<le> MAX_TX_BODY_SIZE)"

text \<open>The compressor writes to memory and does not fail, trees have a root, and the diff of a single block fits into a DA transaction.\<close>

definition seq_env_ok :: "seq_env \<Rightarrow> u64 \<Rightarrow> bool" where
  "seq_env_ok E t \<longleftrightarrow> get_tangerine_activation_height_non_zero (se_forks E) = Some t
     \<and> (\<forall>x. compress_blob (se_codec E) x \<noteq> None)
     \<and> (\<forall>leaves. leaves \<noteq> [] \<longrightarrow> rs_merkle_root (se_l2 E) (l2_sha256 (se_l2 E)) leaves \<noteq> None)"

definition diffs_fit :: "seq_env \<Rightarrow> ledger_db \<Rightarrow> bool" where
  "diffs_fit E db \<longleftrightarrow> fits E (merge_state_diffs E [] []) \<and> (\<forall>h. fits E (merge_state_diffs E [] (get_state_diff db h)))"

text \<open>The controller is where the stored commitments end, and has less than a full commitment's blocks left.\<close>

definition max_blocks :: "seq_env \<Rightarrow> nat" where
  "max_blocks E = max 1 (unat (se_max_l2_blocks E))"

definition next_is :: "u64 \<Rightarrow> ledger_db \<Rightarrow> u32 \<Rightarrow> u64 \<Rightarrow> bool" where
  "next_is t db i s \<longleftrightarrow>
     (case get_last_commitment db of
        None \<Rightarrow> i = 1 \<and> s = t
      | Some c \<Rightarrow> i = sc_index c + 1 \<and> s = sc_l2_end_block_number c + 1)"

definition seq_inv :: "seq_env \<Rightarrow> u64 \<Rightarrow> commitment_controller \<Rightarrow> ledger_db \<Rightarrow> bool" where
  "seq_inv E t cc db \<longleftrightarrow> tables_sorted db \<and> bm_inv (state_diff_by_block_number db) \<and> blocks_inv db
     \<and> unat (node_head db) + 1 < 2 ^ 32
     \<and> next_is t db (next_commitment_index cc) (next_commitment_start_height cc)
     \<and> (\<forall>i c. get_commitment_by_index db i = Some c \<longrightarrow> sc_index c = i \<and> i \<noteq> 0)
     \<and> 0 < unat (next_commitment_index cc) \<and> unat (next_commitment_index cc) \<le> unat (next_commitment_start_height cc)
     \<and> unat (next_commitment_start_height cc) \<le> unat (last_l2_height cc) + 1
     \<and> unat (last_l2_height cc) + 1 < unat (next_commitment_start_height cc) + max_blocks E
     \<and> (unat (next_commitment_start_height cc) = unat (last_l2_height cc) + 1 \<longrightarrow> cc_state_diff cc = [])"

lemma last_commitment_iff:
  assumes "tables_sorted db"
  shows "get_last_commitment db = None \<longleftrightarrow> (\<forall>i. get_commitment_by_index db i = None)"
    "(\<And>i c. get_commitment_by_index db i = Some c \<Longrightarrow> sc_index c = i) \<Longrightarrow> get_last_commitment db = Some c \<longleftrightarrow>
      get_commitment_by_index db (sc_index c) = Some c \<and> (\<forall>j. get_commitment_by_index db j \<noteq> None \<longrightarrow> j \<le> sc_index c)"
proof -
  let ?m = "sequencer_commitment_by_index db"
  have inv: "bm_inv ?m" using assms by (simp add: tables_sorted_def)
  have "?m = [] \<longleftrightarrow> bm_get ?m = Map.empty"
    using bm.entries_ext [OF inv, of "[]"] by (auto simp: bm_get_def)
  then show "get_last_commitment db = None \<longleftrightarrow> (\<forall>i. get_commitment_by_index db i = None)"
    by (auto simp: get_last_commitment_def bm_last_def get_commitment_by_index_def fun_eq_iff)
  assume idx: "\<And>i c. get_commitment_by_index db i = Some c \<Longrightarrow> sc_index c = i"
  have "get_last_commitment db = Some c \<longleftrightarrow> (\<exists>k. bm_last ?m = Some (k, c))"
    by (auto simp: get_last_commitment_def)
  then show "get_last_commitment db = Some c \<longleftrightarrow>
      get_commitment_by_index db (sc_index c) = Some c \<and> (\<forall>j. get_commitment_by_index db j \<noteq> None \<longrightarrow> j \<le> sc_index c)"
    using idx unfolding bm_get_last [OF inv] get_commitment_by_index_def by (auto simp: dom_def)
qed

subsection \<open>One decision\<close>

lemma check_diff_cases:
  assumes "seq_env_ok E t"
  obtains (none) d where "check_state_diff_threshold E db h cc = Some (None, cc \<lparr> cc_state_diff := d \<rparr>)"
  | (commit) "check_state_diff_threshold E db h cc
      = Some (Some (next_commitment_start_height cc, h - 1), cc \<lparr> cc_state_diff := get_state_diff db h \<rparr>)"
      "\<not> fits E (merge_state_diffs E (cc_state_diff cc) (get_state_diff db h))"
proof (cases "fits E (merge_state_diffs E (cc_state_diff cc) (get_state_diff db h))")
  case True
  obtain y where "compress_blob (se_codec E) (se_to_vec E (merge_state_diffs E (cc_state_diff cc) (get_state_diff db h))) = Some y"
    using assms by (auto simp: seq_env_ok_def)
  with True show thesis
    by (intro none [of "merge_state_diffs E (cc_state_diff cc) (get_state_diff db h)"])
      (auto simp: check_state_diff_threshold_def fits_def Let_def)
next
  case False
  then show thesis
    by (intro commit) (auto simp: check_state_diff_threshold_def fits_def Let_def)
qed

text \<open>A range that is to be committed is not empty and not too long, and what is left of the controller's state is in order.\<close>

lemma should_commit_cases:
  assumes env: "seq_env_ok E t" and inv: "seq_inv E t cc db" and fit: "diffs_fit E db"
    and h: "h = last_l2_height cc + 1" "unat h = unat (last_l2_height cc) + 1" and head: "h \<le> node_head db"
  obtains (none) cc' where "should_commit E db h cc = Some (None, cc')" "seq_inv E t cc' db" "last_l2_height cc' = h"
  | (commit) b cc' where
      "should_commit E db h cc = Some (Some (next_commitment_index cc, next_commitment_start_height cc, b), cc')"
      "next_commitment_start_height cc \<le> b" "b \<le> h" "unat b + 1 \<le> unat (next_commitment_start_height cc) + max_blocks E"
      "next_commitment_index cc' = next_commitment_index cc + 1" "next_commitment_start_height cc' = b + 1" "last_l2_height cc' = h"
      "unat h + 1 < unat b + 1 + max_blocks E" "b = h \<longrightarrow> cc_state_diff cc' = []"
proof -
  let ?s = "next_commitment_start_height cc" and ?cc = "cc \<lparr> last_l2_height := last_l2_height cc + 1 \<rparr>"
  have s: "unat ?s \<le> unat h" "unat h < unat ?s + max_blocks E" using inv h(2) by (auto simp: seq_inv_def)
  then have sh: "?s \<le> h" by (simp add: word_le_nat_alt)
  from env show thesis
  proof (cases rule: check_diff_cases [of E t db h ?cc])
    case (none d)
    let ?cc1 = "?cc \<lparr> cc_state_diff := d \<rparr>"
    have "unat h + 1 < 2 ^ 32" using inv head by (auto simp: seq_inv_def word_le_nat_alt)
    then have "unat (1 + h) = unat h + 1" by (simp add: unat_word_ariths)
    then have len: "unat (1 + h - ?s) = unat h + 1 - unat ?s" using s(1) by (simp add: unat_sub word_le_nat_alt)
    show thesis
    proof (cases "1 + h - ?s < se_max_l2_blocks E")
      case True
      then have "should_commit E db h cc = Some (None, ?cc1)"
        using none sh h(1) by (simp add: should_commit_def check_max_l2_blocks_def Let_def)
      moreover have "seq_inv E t ?cc1 db"
        using inv s h True len by (simp add: seq_inv_def max_blocks_def word_less_nat_alt)
      ultimately show thesis using that(1) h(1) by simp
    next
      case False
      then show thesis
        using none sh h s that(2) [of h "?cc1 \<lparr> cc_state_diff := [], next_commitment_index := next_commitment_index cc + 1,
            next_commitment_start_height := h + 1 \<rparr>"]
        by (simp add: should_commit_def check_max_l2_blocks_def Let_def max_blocks_def)
    qed
  next
    case commit
    have "cc_state_diff cc \<noteq> []" using commit(2) fit by (auto simp: diffs_fit_def)
    then have lt: "unat ?s \<le> unat (last_l2_height cc)" using inv by (auto simp: seq_inv_def le_Suc_eq)
    have "h - 1 = last_l2_height cc" using h(1) by simp
    then show thesis
      using commit(1) h s lt that(2) [of "last_l2_height cc" "?cc \<lparr> cc_state_diff := get_state_diff db h,
          next_commitment_index := next_commitment_index cc + 1, next_commitment_start_height := last_l2_height cc + 1 \<rparr>"]
      by (simp add: should_commit_def word_le_nat_alt)
  qed
qed

lemma commit_views:
  assumes "tables_sorted db" "bm_inv (state_diff_by_block_number db)"
    and "db' = delete_state_diff_by_range a b (put_commitment_by_index c db)"
  shows "get_commitment_by_index db' = (get_commitment_by_index db)(sc_index c \<mapsto> c)" "node_blocks db' = node_blocks db"
    "node_head db' = node_head db" "tables_sorted db'" "bm_inv (state_diff_by_block_number db')" "blocks_inv db' = blocks_inv db"
    "get_state_diff db' h = [] \<or> get_state_diff db' h = get_state_diff db h"
  using assms by (auto simp: delete_state_diff_by_range_def put_commitment_by_index_def get_commitment_by_index_def tables_sorted_def
      node_blocks_def node_head_def get_head_l2_block_height_def get_state_diff_def or_else_def blocks_inv_def)

lemma next_index_above:
  assumes "seq_inv E t cc db" "get_commitment_by_index db j \<noteq> None"
  shows "j < next_commitment_index cc"
proof -
  have idx: "\<And>i c. get_commitment_by_index db i = Some c \<Longrightarrow> sc_index c = i" and sorted: "tables_sorted db"
    using assms(1) by (auto simp: seq_inv_def)
  note l = last_commitment_iff [OF sorted]
  obtain c where c: "get_last_commitment db = Some c" using l(1) assms(2) by fastforce
  then have "j \<le> sc_index c" using l(2) [OF idx] assms(2) by blast
  moreover have "next_commitment_index cc = sc_index c + 1" "next_commitment_index cc \<noteq> 0"
    using assms(1) c by (auto simp: seq_inv_def next_is_def)
  ultimately show ?thesis by (auto simp: word_less_nat_alt word_le_nat_alt unat_gt_0 unatSuc add.commute)
qed

lemma commit_ok:
  assumes env: "seq_env_ok E t" and inv: "seq_inv E t cc db"
    and b: "next_commitment_start_height cc \<le> b" "b \<le> node_head db"
  obtains c db' where "commit E (next_commitment_index cc) (next_commitment_start_height cc, b) db = Some (c, db')"
    "sc_index c = next_commitment_index cc" "sc_l2_end_block_number c = b"
    "rs_merkle_root (se_l2 E) (l2_sha256 (se_l2 E)) (block_hashes db (next_commitment_start_height cc) b) = Some (sc_merkle_root c)"
    "db' = delete_state_diff_by_range (next_commitment_start_height cc) b (put_commitment_by_index c db)"
proof -
  let ?s = "next_commitment_start_height cc"
  have "0 < unat ?s" using inv by (auto simp: seq_inv_def)
  then have "get_l2_block_range db ?s b = Some (map (\<lambda>h. the (node_blocks db h)) (u64_range ?s b))"
    using inv b by (intro block_range) (auto simp: seq_inv_def word_le_nat_alt)
  then obtain bs where blocks: "get_l2_block_range db ?s b = Some bs" "map sb_hash bs = block_hashes db ?s b"
    by (auto simp: block_hashes_def comp_def)
  have "?s \<in> set (u64_range ?s b)" using b by simp
  then have "0 < length (u64_range ?s b)" by (rule length_pos_if_in_set)
  then have "block_hashes db ?s b \<noteq> []" by (simp add: block_hashes_def)
  then obtain r where r: "rs_merkle_root (se_l2 E) (l2_sha256 (se_l2 E)) (block_hashes db ?s b) = Some r"
    using env by (auto simp: seq_env_ok_def)
  have "unat b + 1 < 2 ^ 32" using inv b(2) by (auto simp: seq_inv_def word_le_nat_alt)
  then have len: "b - ?s + 1 = of_nat (length (block_hashes db ?s b))"
    using b(1) by (simp add: block_hashes_def length_u64_range word_eq_unat unat_word_ariths unat_sub word_le_nat_alt unat_of_nat)
  show thesis
    using blocks r len arg_cong [OF blocks(2), of length, unfolded length_map] by (intro that [of "\<lparr> sc_merkle_root = r, sc_index = next_commitment_index cc, sc_l2_end_block_number = b \<rparr>"])
      (auto simp: commit_def get_commitment_def)
qed

subsection \<open>The full node accepts what the sequencer publishes\<close>

definition in_sync :: "ledger_db \<Rightarrow> ledger_db \<Rightarrow> bool" where
  "in_sync db ndb \<longleftrightarrow> node_blocks ndb = node_blocks db \<and> get_commitment_by_index ndb = get_commitment_by_index db"

lemma in_sync_views:
  assumes "in_sync db ndb" "seq_inv E t cc db" "node_inv N t U L ndb"
  shows "node_head ndb = node_head db" "block_hashes ndb = block_hashes db" "start_of t ndb = start_of t db"
proof -
  show "node_head ndb = node_head db"
    using assms node_head_eq [of ndb "node_head db"]
    by (auto simp: in_sync_def seq_inv_def node_inv_def tables_sorted_def blocks_inv_def)
  show "block_hashes ndb = block_hashes db" "start_of t ndb = start_of t db"
    using assms(1) by (simp_all add: in_sync_def block_hashes_def start_of_def fun_eq_iff)
qed

lemma last_commitment_Some:
  assumes "seq_inv E t cc db" "get_last_commitment db = Some d"
  shows "get_commitment_by_index db (sc_index d) = Some d" "get_commitment_by_index db j \<noteq> None \<Longrightarrow> j \<le> sc_index d"
    "next_commitment_index cc = sc_index d + 1" "next_commitment_start_height cc = sc_l2_end_block_number d + 1"
  using assms last_commitment_iff(2) [of db d] by (auto simp: seq_inv_def next_is_def)

lemma node_not_stale:
  assumes sync: "in_sync db ndb" and seq: "seq_inv E t cc db" and node: "node_inv N t U L ndb"
    and c: "sc_index c = next_commitment_index cc" "next_commitment_start_height cc \<le> sc_l2_end_block_number c"
  shows "\<not> commitment_stale ndb c"
proof (cases "highest ndb Committed")
  case (Some v)
  then obtain d where d: "get_commitment_by_index db (hi_commitment_index v) = Some d" "sc_l2_end_block_number d = hi_height v"
    and max: "\<And>i. get_commitment_by_index db i \<noteq> None \<Longrightarrow> i \<le> hi_commitment_index v"
    using node sync by (auto simp: node_inv_def status_inv_def in_sync_def)
  obtain e where e: "get_last_commitment db = Some e"
    using last_commitment_iff(1) [of db] seq d(1) by (fastforce simp: seq_inv_def)
  note l = last_commitment_Some [OF seq e]
  have "hi_commitment_index v = sc_index e" using max [of "sc_index e"] l(1) l(2) [of "hi_commitment_index v"] d(1) by auto
  then have "d = e" using d(1) l(1) by simp
  have "sc_l2_end_block_number e \<le> node_head db"
    using node l(1) sync in_sync_views(1) [OF sync seq node] by (auto simp: node_inv_def commitments_inv_def in_sync_def)
  then have "unat (sc_l2_end_block_number e) + 1 < 2 ^ 32" using seq by (auto simp: seq_inv_def word_le_nat_alt)
  then have "sc_l2_end_block_number e < next_commitment_start_height cc"
    unfolding l(4) by (simp add: word_less_nat_alt unat_word_ariths)
  moreover have "hi_commitment_index v < next_commitment_index cc" using next_index_above [OF seq] d(1) by auto
  ultimately show ?thesis using Some c d(2) \<open>d = e\<close> by (auto simp: commitment_stale_def)
qed (simp add: commitment_stale_def)

lemma seq_start:
  assumes "seq_inv E t cc db"
  obtains "next_commitment_index cc = 1" "next_commitment_start_height cc = t"
  | d where "next_commitment_index cc \<noteq> 1" "get_commitment_by_index db (next_commitment_index cc - 1) = Some d"
      "next_commitment_start_height cc = sc_l2_end_block_number d + 1"
proof (cases "get_last_commitment db")
  case None
  then show thesis using that(1) assms by (simp add: seq_inv_def next_is_def)
next
  case (Some d)
  note l = last_commitment_Some [OF assms Some]
  then have "sc_index d \<noteq> 0" using assms unfolding seq_inv_def by blast
  then show thesis using that(2) [of d] l by simp
qed

lemma node_start:
  assumes sync: "in_sync db ndb" and seq: "seq_inv E t cc db"
    and forks: "get_tangerine_activation_height_non_zero (n_forks N) = Some t" and c: "sc_index c = next_commitment_index cc"
  shows "commitment_start N ndb c = Some (Some (next_commitment_start_height cc))"
    "start_of t ndb (sc_index c) = next_commitment_start_height cc"
    "sc_index c \<noteq> 1 \<longrightarrow> get_commitment_by_index ndb (sc_index c - 1) \<noteq> None"
  by (rule seq_start [OF seq]; use sync forks c in \<open>simp add: commitment_start_def start_of_def in_sync_def\<close>)+

lemma node_accepts:
  assumes sync: "in_sync db ndb" and seq: "seq_inv E t cc db" and node: "node_inv N t U L ndb" and L: "L \<le> h"
    and N: "get_tangerine_activation_height_non_zero (n_forks N) = Some t" "n_l2 N = se_l2 E"
    and c: "sc_index c = next_commitment_index cc" "next_commitment_start_height cc \<le> sc_l2_end_block_number c"
      "sc_l2_end_block_number c \<le> node_head db" "c \<in> U"
    and root: "rs_merkle_root (se_l2 E) (l2_sha256 (se_l2 E))
      (block_hashes db (next_commitment_start_height cc) (sc_l2_end_block_number c)) = Some (sc_merkle_root c)"
  shows "process_sequencer_commitment N h h c ndb = Some (store_commitment h h (next_commitment_start_height cc) c ndb, Ok Success)"
    "node_inv N t U h (store_commitment h h (next_commitment_start_height cc) c ndb)"
proof -
  let ?s = "next_commitment_start_height cc" and ?b = "sc_l2_end_block_number c"
  note v = in_sync_views [OF sync seq node] and st = node_start [OF sync seq N(1) c(1)] and fresh = node_not_stale [OF sync seq node c(1,2)]
  have new: "get_commitment_by_index ndb (sc_index c) = None"
    using next_index_above [OF seq, of "next_commitment_index cc"] c(1) sync
    by (cases "get_commitment_by_index db (next_commitment_index cc)") (auto simp: in_sync_def)
  have pos: "0 < unat ?s" "sc_index c \<noteq> 0" using seq c(1) by (auto simp: seq_inv_def)
  then have n: "next_commitment t ndb c" using new st fresh c v(1) by (simp add: next_commitment_def)
  show "node_inv N t U h (store_commitment h h ?s c ndb)"
    by (rule conjunct1 [OF node_inv_store [OF node n c(4) L]]) (simp only: st(2) v(2) N(2) root)
  have "get_l2_block_range ndb ?s ?b = Some (map (\<lambda>h. the (node_blocks ndb h)) (u64_range ?s ?b))"
    using node c(2,3) pos v(1) by (intro block_range) (auto simp: node_inv_def word_le_nat_alt)
  then have "check_commitment_root N ndb ?s c = Some (Ok ())"
    using root by (simp add: check_commitment_root_def N(2) v(2) [symmetric] block_hashes_def comp_def)
  then show "process_sequencer_commitment N h h c ndb = Some (store_commitment h h ?s c ndb, Ok Success)"
    using new fresh st(1) c(3) v(1) by (simp add: process_sequencer_commitment_def node_head_def not_less)
qed

lemma start_of_stable:
  assumes "get_commitment_by_index db \<subseteq>\<^sub>m get_commitment_by_index db'" "i = 1 \<or> get_commitment_by_index db (i - 1) \<noteq> None"
  shows "start_of t db' i = start_of t db i"
  using assms by (auto simp: start_of_def map_leD)

text \<open>The controller's state after a commitment.\<close>

lemma seq_inv_commit:
  assumes inv: "seq_inv E t cc db" and db': "db' = delete_state_diff_by_range a b (put_commitment_by_index c db)"
    and c: "sc_index c = next_commitment_index cc" "sc_l2_end_block_number c = b"
    and b: "next_commitment_start_height cc \<le> b" "b \<le> h" "h \<le> node_head db"
    and cc': "next_commitment_index cc' = next_commitment_index cc + 1" "next_commitment_start_height cc' = b + 1" "last_l2_height cc' = h"
      "unat h + 1 < unat b + 1 + max_blocks E" "b = h \<longrightarrow> cc_state_diff cc' = []"
  shows "seq_inv E t cc' db'"
proof -
  note i = inv [unfolded seq_inv_def]
  note v = commit_views [of db db' a b c, OF _ _ db']
  have "unat (node_head db) + 1 < 2 ^ 32" "unat b \<le> unat (node_head db)" using i b by (auto simp: word_le_nat_alt)
  then have b1: "unat (b + 1) = unat b + 1" by (simp add: unat_word_ariths)
  have "unat (next_commitment_index cc) \<le> unat b" using i b(1) by (auto simp: word_le_nat_alt)
  then have i1: "unat (next_commitment_index cc + 1) = unat (next_commitment_index cc) + 1"
    using \<open>unat (node_head db) + 1 < 2 ^ 32\<close> \<open>unat b \<le> unat (node_head db)\<close> by (simp add: unat_word_ariths)
  have idx: "sc_index d = j \<and> j \<noteq> 0" if "get_commitment_by_index db' j = Some d" for j d
    using that i v(1) c(1) by (auto split: if_splits)
  have mx: "j \<le> sc_index c" if "get_commitment_by_index db' j \<noteq> None" for j
    using that next_index_above [OF inv, of j] c(1) v(1) i by (auto split: if_splits)
  have sorted: "tables_sorted db'" and new: "get_commitment_by_index db' (sc_index c) = Some c" using v(1,4) i by auto
  have "get_last_commitment db' = Some c"
    using last_commitment_iff(2) [OF sorted conjunct1 [OF idx], of c] mx new by blast
  then have "next_is t db' (next_commitment_index cc') (next_commitment_start_height cc')"
    using cc' c by (simp add: next_is_def)
  then show ?thesis
    using i v(3-6) b cc' b1 i1 idx unfolding seq_inv_def by (simp add: word_le_nat_alt) (simp add: word_eq_unat)
qed

fun heights_after :: "u64 \<Rightarrow> u64 list \<Rightarrow> bool" where
  "heights_after l [] = True"
| "heights_after l (h # hs) \<longleftrightarrow> h = l + 1 \<and> unat h = unat l + 1 \<and> heights_after h hs"

lemma heights_after_upt: "n \<le> m \<Longrightarrow> m < 2 ^ 64 \<Longrightarrow> unat l + 1 = n \<Longrightarrow> heights_after l (map of_nat [n..<Suc m])"
proof (induction "m - n" arbitrary: n l)
  case 0
  then have "unat (of_nat n :: u64) = n" "n = m" by (simp_all add: unat_of_nat take_bit_nat_eq_self_iff)
  then show ?case using 0 by (auto simp: word_eq_unat unat_word_ariths)
next
  case (Suc k)
  have u: "unat (of_nat n :: u64) = n" using Suc.prems(1,2) by (simp add: unat_of_nat take_bit_nat_eq_self_iff)
  have "heights_after (of_nat n) (map of_nat [Suc n..<Suc m])"
    using Suc.hyps(2) Suc.prems u by (intro Suc.hyps(1)) auto
  moreover have "(of_nat n :: u64) = l + 1" using u Suc.prems by (simp add: word_eq_unat unat_word_ariths)
  ultimately show ?case using u Suc.prems(1,3) by (subst upt_conv_Cons) auto
qed

lemma heights_after_range: "l < head \<Longrightarrow> heights_after l (u64_range (l + 1) head)"
proof -
  assume l: "l < head"
  then have "unat (l + 1) = unat l + 1"
    using unsigned_less [of head, where ?'a = nat] by (simp add: word_less_nat_alt unat_word_ariths)
  then show ?thesis
    using l unsigned_less [of head, where ?'a = nat] heights_after_upt [of "unat (l + 1)" "unat head" l]
    by (simp add: u64_range_def word_less_nat_alt del: upt_Suc)
qed

text \<open>What is published is accepted by every node in sync, and no commitment has too many blocks.\<close>

definition accepted :: "seq_env \<Rightarrow> u64 \<Rightarrow> sequencer_commitment list \<Rightarrow> ledger_db \<Rightarrow> ledger_db \<Rightarrow> bool" where
  "accepted E t cs db db' \<longleftrightarrow> (\<forall>N U L h ndb. in_sync db ndb \<and> node_inv N t U L ndb \<and> L \<le> h \<and> set cs \<subseteq> U
      \<and> get_tangerine_activation_height_non_zero (n_forks N) = Some t \<and> n_l2 N = se_l2 E \<longrightarrow>
    (\<exists>ndb'. process_items N h (map CommitmentItem cs) ndb = Some (ndb', Ok ()) \<and> in_sync db' ndb' \<and> node_inv N t U h ndb'))"

definition short_enough :: "seq_env \<Rightarrow> u64 \<Rightarrow> ledger_db \<Rightarrow> sequencer_commitment list \<Rightarrow> bool" where
  "short_enough E t db cs \<longleftrightarrow> (\<forall>c \<in> set cs. start_of t db (sc_index c) \<le> sc_l2_end_block_number c \<and>
     unat (sc_l2_end_block_number c) + 1 - unat (start_of t db (sc_index c)) \<le> max_blocks E)"

lemma accepted_Nil: "accepted E t [] db db"
  by (auto simp: accepted_def intro: node_inv_later)

lemma accepted_Cons:
  assumes seq: "seq_inv E t cc db" and rest: "accepted E t cs db1 db'"
    and c: "sc_index c = next_commitment_index cc" "next_commitment_start_height cc \<le> sc_l2_end_block_number c"
      "sc_l2_end_block_number c \<le> node_head db"
    and root: "rs_merkle_root (se_l2 E) (l2_sha256 (se_l2 E))
      (block_hashes db (next_commitment_start_height cc) (sc_l2_end_block_number c)) = Some (sc_merkle_root c)"
    and views: "get_commitment_by_index db1 = (get_commitment_by_index db)(sc_index c \<mapsto> c)" "node_blocks db1 = node_blocks db"
  shows "accepted E t (c # cs) db db'"
  unfolding accepted_def
proof (intro allI impI)
  fix N U L h ndb
  assume a: "in_sync db ndb \<and> node_inv N t U L ndb \<and> L \<le> h \<and> set (c # cs) \<subseteq> U
      \<and> get_tangerine_activation_height_non_zero (n_forks N) = Some t \<and> n_l2 N = se_l2 E"
  let ?ndb = "store_commitment h h (next_commitment_start_height cc) c ndb"
  have acc: "process_sequencer_commitment N h h c ndb = Some (?ndb, Ok Success)" "node_inv N t U h ?ndb"
    using node_accepts [OF _ seq _ _ _ _ c _ root] a by auto
  have "sc_index c \<noteq> 0" using seq c(1) by (auto simp: seq_inv_def)
  then have run: "process_items N h (map CommitmentItem (c # cs)) ndb = process_items N h (map CommitmentItem cs) ?ndb"
    using acc(1) by simp
  have "in_sync db1 ?ndb" using a views by (auto simp: in_sync_def node_inv_def)
  then have "in_sync db1 ?ndb \<and> node_inv N t U h ?ndb \<and> h \<le> h \<and> set cs \<subseteq> U
      \<and> get_tangerine_activation_height_non_zero (n_forks N) = Some t \<and> n_l2 N = se_l2 E" using a acc(2) by simp
  then show "\<exists>ndb'. process_items N h (map CommitmentItem (c # cs)) ndb = Some (ndb', Ok ()) \<and> in_sync db' ndb' \<and> node_inv N t U h ndb'"
    using rest unfolding run accepted_def by blast
qed

lemma commit_heights_ok:
  assumes env: "seq_env_ok E t"
  shows "seq_inv E t cc db \<Longrightarrow> diffs_fit E db \<Longrightarrow> heights_after (last_l2_height cc) hs \<Longrightarrow> \<forall>h \<in> set hs. h \<le> node_head db \<Longrightarrow>
    \<exists>cs cc' db'. commit_heights E hs cc db = Some (cs, cc', db') \<and> seq_inv E t cc' db' \<and> accepted E t cs db db'
      \<and> short_enough E t db' cs \<and> get_commitment_by_index db \<subseteq>\<^sub>m get_commitment_by_index db'"
proof (induction hs arbitrary: cc db)
  case Nil
  then show ?case using accepted_Nil by (simp add: short_enough_def)
next
  case (Cons h hs)
  have h: "h = last_l2_height cc + 1" "unat h = unat (last_l2_height cc) + 1" and head: "h \<le> node_head db"
    and hs: "heights_after h hs" "\<forall>h \<in> set hs. h \<le> node_head db" using Cons.prems(3,4) by auto
  from env Cons.prems(1,2) h head show ?case
  proof (cases rule: should_commit_cases)
    case (none cc')
    then show ?thesis using Cons.IH [of cc' db] Cons.prems(2) hs by auto
  next
    case (commit b cc')
    have bh: "b \<le> node_head db" using commit(3) head by simp
    from env Cons.prems(1) commit(2) bh obtain c db1 where
      c: "commit E (next_commitment_index cc) (next_commitment_start_height cc, b) db = Some (c, db1)"
      "sc_index c = next_commitment_index cc" "sc_l2_end_block_number c = b"
      "rs_merkle_root (se_l2 E) (l2_sha256 (se_l2 E)) (block_hashes db (next_commitment_start_height cc) b) = Some (sc_merkle_root c)"
      and db1: "db1 = delete_state_diff_by_range (next_commitment_start_height cc) b (put_commitment_by_index c db)"
      by (rule commit_ok)
    have inv1: "seq_inv E t cc' db1"
      using seq_inv_commit [OF Cons.prems(1) db1 c(2,3) commit(2,3) head commit(5-9)] .
    note v = commit_views [of db db1 _ _ c, OF _ _ db1]
    have sorted: "tables_sorted db" "bm_inv (state_diff_by_block_number db)" using Cons.prems(1) by (auto simp: seq_inv_def)
    have fit1: "diffs_fit E db1"
      using Cons.prems(2) v(7) [OF sorted] unfolding diffs_fit_def by metis
    obtain cs cc2 db2 where r: "commit_heights E hs cc' db1 = Some (cs, cc2, db2)" "seq_inv E t cc2 db2" "accepted E t cs db1 db2"
      "short_enough E t db2 cs" "get_commitment_by_index db1 \<subseteq>\<^sub>m get_commitment_by_index db2"
      using Cons.IH [OF inv1 fit1] hs commit(7) v(3) [OF sorted] by auto
    have fresh: "get_commitment_by_index db (sc_index c) = None"
      using next_index_above [OF Cons.prems(1), of "sc_index c"] c(2) by (cases "get_commitment_by_index db (sc_index c)") auto
    then have le: "get_commitment_by_index db \<subseteq>\<^sub>m get_commitment_by_index db1"
      by (auto simp: v(1) [OF sorted] map_le_def)
    then have le2: "get_commitment_by_index db \<subseteq>\<^sub>m get_commitment_by_index db2" using r(5) map_le_trans by blast
    have start: "start_of t db (sc_index c) = next_commitment_start_height cc"
      "sc_index c = 1 \<or> get_commitment_by_index db (sc_index c - 1) \<noteq> None"
      by (rule seq_start [OF Cons.prems(1)]; use c(2) in \<open>simp add: start_of_def\<close>)+
    have "start_of t db2 (sc_index c) = next_commitment_start_height cc"
      using start_of_stable [OF le2 start(2)] start(1) by simp
    then have short: "short_enough E t db2 (c # cs)" using r(4) commit(2,4) c(3) by (simp add: short_enough_def)
    have acc: "accepted E t (c # cs) db db2"
      using accepted_Cons [OF Cons.prems(1) r(3) c(2)] c(3,4) commit(2) bh v(1,2) [OF sorted] by simp
    show ?thesis using commit(1) c(1) r(1,2) short acc le2 by simp
  qed
qed

text \<open>A controller that is made from a ledger with a chain of commitments starts where the chain ends.\<close>

lemma commitment_index_le_end:
  assumes "blocks_inv db" "commitments_inv N t U db" "1 \<le> t"
  shows "get_commitment_by_index db i = Some c \<Longrightarrow> unat i \<le> unat (sc_l2_end_block_number c)"
proof (induction "unat i" arbitrary: i c)
  case (Suc n)
  have c: "i \<noteq> 0" "i \<noteq> 1 \<longrightarrow> get_commitment_by_index db (i - 1) \<noteq> None" "start_of t db i \<le> sc_l2_end_block_number c"
    using assms(2) Suc.prems by (auto simp: commitments_inv_def)
  show ?case
  proof (cases "i = 1")
    case True
    then show ?thesis using c(3) assms(3) by (simp add: start_of_def word_le_nat_alt)
  next
    case False
    then obtain p where p: "get_commitment_by_index db (i - 1) = Some p" using c(2) by auto
    have n: "n = unat (i - 1)" using Suc.hyps(2) c(1) by (simp add: word_sub1_less)
    have "sc_l2_end_block_number p \<le> node_head db" using assms(2) p by (auto simp: commitments_inv_def)
    then have "unat (sc_l2_end_block_number p) < 2 ^ 55" using assms(1) by (auto simp: blocks_inv_def word_le_nat_alt)
    then have "unat (sc_l2_end_block_number p + 1) = unat (sc_l2_end_block_number p) + 1" by (simp add: unat_word_ariths)
    then show ?thesis
      using Suc.hyps(1) [OF n p] c(3) False n Suc.hyps(2) by (simp add: start_of_def p word_le_nat_alt)
  qed
qed simp

lemma controller_new_ok:
  assumes env: "seq_env_ok E t" and sorted: "tables_sorted db" "bm_inv (state_diff_by_block_number db)"
    and inv: "blocks_inv db" "commitments_inv N t U db" and head: "unat (node_head db) + 1 < 2 ^ 32"
  obtains cc where "CommitmentController_new E db = Some cc" "seq_inv E t cc db"
proof -
  have t: "get_tangerine_activation_height_non_zero (se_forks E) = Some t" using env by (simp add: seq_env_ok_def)
  have idx: "\<And>i c. get_commitment_by_index db i = Some c \<Longrightarrow> sc_index c = i \<and> i \<noteq> 0"
    using inv(2) by (auto simp: commitments_inv_def)
  have mb: "0 < max_blocks E" by (simp add: max_blocks_def)
  show thesis
  proof (cases "get_last_commitment db")
    case None
    have "0 < unat t" using tangerine_height_pos [OF t] by (simp add: word_le_nat_alt)
    then have "unat (t - 1) = unat t - 1" by (simp add: word_sub1_less unat_gt_0)
    then show thesis
      using None t that [of "\<lparr> next_commitment_index = 1, next_commitment_start_height = t, last_l2_height = t - 1, cc_state_diff = [] \<rparr>"]
        sorted inv head idx \<open>0 < unat t\<close> mb
      by (simp add: CommitmentController_new_def load_next_commitment_index_and_start_height_def seq_inv_def next_is_def)
  next
    case (Some c)
    then have g: "get_commitment_by_index db (sc_index c) = Some c"
      using last_commitment_iff(2) [OF sorted(1) conjunct1 [OF idx]] by blast
    have "unat (sc_index c) \<le> unat (sc_l2_end_block_number c)"
      using commitment_index_le_end [OF inv tangerine_height_pos [OF t] g] .
    moreover have "unat (sc_l2_end_block_number c) \<le> unat (node_head db)"
      using inv(2) g by (auto simp: commitments_inv_def word_le_nat_alt)
    ultimately have "unat (sc_l2_end_block_number c + 1) = unat (sc_l2_end_block_number c) + 1"
      "unat (sc_index c + 1) = unat (sc_index c) + 1" "unat (sc_index c) \<le> unat (sc_l2_end_block_number c)"
      using head by (simp_all add: unat_word_ariths)
    then show thesis
      using Some that [of "\<lparr> next_commitment_index = sc_index c + 1, next_commitment_start_height = sc_l2_end_block_number c + 1,
          last_l2_height = sc_l2_end_block_number c, cc_state_diff = [] \<rparr>"] sorted inv head idx mb
      by (simp add: CommitmentController_new_def load_next_commitment_index_and_start_height_def seq_inv_def next_is_def)
  qed
qed


definition demo_seq :: seq_env where
  "demo_seq = \<lparr> se_l2 = pad_l2_env, se_forks = Some MAINNET_FORKS, se_max_l2_blocks = 1, se_to_vec = (\<lambda>_. []),
     se_codec = \<lparr> enc_data = (\<lambda>_. []), dec_data = (\<lambda>_. None), brotli_write_all = Some, brotli_reads = (\<lambda>_. []) \<rparr>,
     se_hash_map_order = id \<rparr>"

definition demo_controller :: commitment_controller where
  "demo_controller = \<lparr> next_commitment_index = 1, next_commitment_start_height = 1, last_l2_height = 0, cc_state_diff = [] \<rparr>"


end
