(* ===== verification/Short_Header_Proof.thy ===== *)
theory Short_Header_Proof
  imports Da_Verifier Ledger_Db
begin

section \<open>Short header proofs\<close>

text \<open>
  \<^verbatim>\<open>bitcoin-da/src/spec/short_proof.rs\<close> and the crate \<^verbatim>\<open>short-header-proof-provider\<close>: what the L2 is told about an L1 block, its hash, height, witness
  root and the depth of its transaction tree, is checked against a proof of the block's header and coinbase transaction. A node takes
  the proofs from its ledger and records which ones were used; the guest is given those and takes them in order. The Bitcoin script
  functions that read the block height from the coinbase are the record \<^verbatim>\<open>shp_env\<close>.
\<close>

record short_header_proof =
  shp_header :: header_wrapper
  shp_coinbase_tx :: btc_tx
  shp_coinbase_tx_txid_merkle_proof :: "hash32 list"

record l1_update_info =
  ui_header_hash :: hash32
  ui_prev_header_hash :: hash32
  ui_tx_commitment :: hash32
  ui_coinbase_txid_merkle_proof_height :: u8
  ui_block_height :: u64

datatype shp_error = InvalidHeaderHash | InvalidCoinbaseMerkleProof | WrongTxCommitment hash32 hash32

text \<open>
  The bytes of the first instruction of a script, if it is a minimal push; the number such bytes encode; and the borsh decoding of a
  proof.
\<close>

record shp_env =
  first_push :: "bytes \<Rightarrow> bytes option"
  read_scriptint :: "bytes \<Rightarrow> int option"
  dec_short_proof :: "bytes \<Rightarrow> short_header_proof option"

subsection \<open>Verification\<close>

definition verify_tx_commitment :: "btc_env \<Rightarrow> short_header_proof \<Rightarrow> (shp_error + unit) option" where
  "verify_tx_commitment E p =
     (let h = shp_header p; coinbase = shp_coinbase_tx p in
      if hw_tx_count h = 1 \<and> hw_txs_commitment h \<noteq> zeros 32
      then Some (Err (WrongTxCommitment (zeros 32) (hw_txs_commitment h)))
      else case commitment_idx coinbase of
        None \<Rightarrow>
          Some (if 1 < hw_tx_count h \<and> hw_merkle_root h \<noteq> hw_txs_commitment h
                then Err (WrongTxCommitment (hw_merkle_root h) (hw_txs_commitment h)) else Ok ())
      | Some idx \<Rightarrow> do {
          input \<leftarrow> index (btx_input coinbase) 0;
          witness_value \<leftarrow> index (ti_witness input) 0;
          let script = to_script_pubkey (btx_output coinbase ! idx);
          Some (if committed_hash script \<noteq> witness_commitment E (hw_txs_commitment h) witness_value
                then Err (WrongTxCommitment (committed_hash script) (hw_txs_commitment h)) else Ok ())
        })"

definition bip34_height :: "shp_env \<Rightarrow> btc_tx \<Rightarrow> u64 option" where
  "bip34_height P coinbase = do {
     input \<leftarrow> index (btx_input coinbase) 0;
     push \<leftarrow> first_push P (ti_script_sig input);
     height \<leftarrow> read_scriptint P push;
     assert_that (0 < height);
     Some (of_int height)
   }"

definition short_proof_info :: "short_header_proof \<Rightarrow> u64 \<Rightarrow> l1_update_info" where
  "short_proof_info p height =
     \<lparr> ui_header_hash = hw_hash (shp_header p), ui_prev_header_hash = hw_prev_hash (shp_header p),
       ui_tx_commitment = hw_txs_commitment (shp_header p),
       ui_coinbase_txid_merkle_proof_height = of_nat (length (shp_coinbase_tx_txid_merkle_proof p)),
       ui_block_height = height \<rparr>"

definition verify_short_proof :: "btc_env \<Rightarrow> shp_env \<Rightarrow> short_header_proof \<Rightarrow> (shp_error + l1_update_info) option" where
  "verify_short_proof E P p =
     (if \<not> hw_verify_hash E (shp_header p) then Some (Err InvalidHeaderHash)
      else do {
        claimed_root \<leftarrow> calculate_root_with_merkle_proof (env_sha256 E) (calculate_txid E (shp_coinbase_tx p)) 0
                        (shp_coinbase_tx_txid_merkle_proof p);
        if hw_merkle_root (shp_header p) \<noteq> claimed_root then Some (Err InvalidCoinbaseMerkleProof)
        else do {
          r \<leftarrow> verify_tx_commitment E p;
          (case r of
             Inl e \<Rightarrow> Some (Err e)
           | Inr _ \<Rightarrow> do {
               height \<leftarrow> bip34_height P (shp_coinbase_tx p);
               Some (Ok (short_proof_info p height))
             })
        }
      })"

text \<open>The service builds the proof of a block it fetched.\<close>

definition block_to_short_header_proof :: "btc_env \<Rightarrow> (btc_tx \<Rightarrow> hash32) \<Rightarrow> bitcoin_block \<Rightarrow> short_header_proof option" where
  "block_to_short_header_proof E txid block = do {
     nodes \<leftarrow> merkle_tree_new (env_sha256 E) (map txid (bb_txdata block));
     path \<leftarrow> get_idx_path nodes 0;
     coinbase \<leftarrow> index (bb_txdata block) 0;
     root \<leftarrow> calculate_root_with_merkle_proof (env_sha256 E) (txid coinbase) 0 path;
     assert_that (root = hw_merkle_root (bb_header block));
     Some \<lparr> shp_header = bb_header block, shp_coinbase_tx = coinbase, shp_coinbase_tx_txid_merkle_proof = path \<rparr>
   }"

subsection \<open>The providers\<close>

record l1_query =
  q_hash :: hash32
  q_prev_hash :: hash32
  q_height :: u64
  q_txs_commitment :: hash32
  q_coinbase_depth :: u8
  q_l2_height :: u64

definition query_matches :: "l1_query \<Rightarrow> l1_update_info \<Rightarrow> bool" where
  "query_matches q info \<longleftrightarrow> q_txs_commitment q = ui_tx_commitment info \<and> q_hash q = ui_header_hash info
     \<and> (q_prev_hash q = zeros 32 \<or> q_prev_hash q = ui_prev_header_hash info) \<and> q_height q = ui_block_height info
     \<and> q_coinbase_depth q = ui_coinbase_txid_merkle_proof_height info"

text \<open>The answer for a serialized proof; one that does not decode panics.\<close>

definition check_query :: "btc_env \<Rightarrow> shp_env \<Rightarrow> l1_query \<Rightarrow> bytes \<Rightarrow> bool option" where
  "check_query E P q raw = do {
     p \<leftarrow> dec_short_proof P raw;
     r \<leftarrow> verify_short_proof E P p;
     Some (case r of Inl _ \<Rightarrow> False | Inr info \<Rightarrow> query_matches q info)
   }"

datatype shp_provider_error = ShortHeaderProofNotFound | VectorAllocationFailed string

type_synonym queried_hashes = "(u64, hash32 list) bmap"

definition native_get_and_verify ::
  "btc_env \<Rightarrow> shp_env \<Rightarrow> bool \<Rightarrow> ledger_db \<Rightarrow> l1_query \<Rightarrow> queried_hashes \<Rightarrow> ((shp_provider_error + bool) \<times> queried_hashes) option" where
  "native_get_and_verify E P save_hashes db q queried =
     (case get_short_header_proof_by_l1_hash db (q_hash q) of
        None \<Rightarrow> Some (Err ShortHeaderProofNotFound, queried)
      | Some raw \<Rightarrow> do {
          ok \<leftarrow> check_query E P q raw;
          Some (Ok ok, if ok \<and> save_hashes
            then bm_insert (q_l2_height q) (or_else (bm_get queried (q_l2_height q)) [] @ [q_hash q]) queried else queried)
        })"

fun take_queried :: "u64 list \<Rightarrow> queried_hashes \<Rightarrow> hash32 list \<times> queried_hashes" where
  "take_queried [] queried = ([], queried)"
| "take_queried (h # hs) queried =
     (let (rest, queried') = take_queried hs (bm_remove h queried) in (or_else (bm_get queried h) [] @ rest, queried'))"

definition take_queried_hashes :: "u64 \<Rightarrow> u64 \<Rightarrow> queried_hashes \<Rightarrow> hash32 list \<times> queried_hashes" where
  "take_queried_hashes a b = take_queried (u64_range a b)"

definition clear_queried_hashes :: "queried_hashes \<Rightarrow> queried_hashes" where
  "clear_queried_hashes queried = []"

text \<open>The guest's provider: the proofs still to be used, and the hash of the last query that was confirmed.\<close>

record zk_provider =
  zp_short_header_proofs :: "bytes list"
  zp_last_queried_and_verified_hash :: "hash32 option"

definition zk_get_and_verify :: "btc_env \<Rightarrow> shp_env \<Rightarrow> l1_query \<Rightarrow> zk_provider \<Rightarrow> (bool \<times> zk_provider) option" where
  "zk_get_and_verify E P q z =
     (case zp_short_header_proofs z of
        [] \<Rightarrow> None
      | raw # rest \<Rightarrow> do {
          ok \<leftarrow> check_query E P q raw;
          Some (ok, \<lparr> zp_short_header_proofs = rest,
                      zp_last_queried_and_verified_hash =
                        (if ok then Some (q_hash q) else zp_last_queried_and_verified_hash z) \<rparr>)
        })"

definition take_last_queried_hash :: "zk_provider \<Rightarrow> hash32 option \<times> zk_provider" where
  "take_last_queried_hash z = (zp_last_queried_and_verified_hash z, z \<lparr> zp_last_queried_and_verified_hash := None \<rparr>)"

text \<open>The queries of a range of blocks, on both sides; the proofs the host hands to the guest are looked up by the recorded hashes.\<close>

definition host_short_header_proofs :: "ledger_db \<Rightarrow> u64 \<Rightarrow> u64 \<Rightarrow> queried_hashes \<Rightarrow> (bytes list \<times> queried_hashes) option" where
  "host_short_header_proofs db a b queried =
     (let (hashes, queried') = take_queried_hashes a b queried in do {
        proofs \<leftarrow> those (map (get_short_header_proof_by_l1_hash db) hashes);
        Some (proofs, queried')
      })"

fun native_queries :: "btc_env \<Rightarrow> shp_env \<Rightarrow> ledger_db \<Rightarrow> l1_query list \<Rightarrow> queried_hashes \<Rightarrow> ((shp_provider_error + bool) list \<times> queried_hashes) option" where
  "native_queries E P db [] queried = Some ([], queried)"
| "native_queries E P db (q # qs) queried = do {
     (r, queried1) \<leftarrow> native_get_and_verify E P True db q queried;
     (rs, queried2) \<leftarrow> native_queries E P db qs queried1;
     Some (r # rs, queried2)
   }"

fun zk_queries :: "btc_env \<Rightarrow> shp_env \<Rightarrow> l1_query list \<Rightarrow> zk_provider \<Rightarrow> (bool list \<times> zk_provider) option" where
  "zk_queries E P [] z = Some ([], z)"
| "zk_queries E P (q # qs) z = do {
     (r, z1) \<leftarrow> zk_get_and_verify E P q z;
     (rs, z2) \<leftarrow> zk_queries E P qs z1;
     Some (r # rs, z2)
   }"

subsection \<open>The proofs of the service are accepted\<close>

lemma segwit_commitment:
  assumes "verify_segwit E (shp_header p) \<lparr> ip_wtxids = ws, ip_coinbase_tx = shp_coinbase_tx p, ip_coinbase_merkle_proof = path \<rparr> []
      = Some (Ok ())" "hw_tx_count (shp_header p) = 1 \<Longrightarrow> hw_txs_commitment (shp_header p) = zeros 32"
  shows "verify_tx_commitment E p = Some (Ok ())"
proof (cases "commitment_idx (shp_coinbase_tx p)")
  case None
  with assms show ?thesis
    by (auto simp: verify_tx_commitment_def verify_segwit_def Let_def split: if_splits)
next
  case (Some idx)
  from verify_segwit_Some [OF assms(1), of idx] Some assms(2) show ?thesis
    by (auto simp: verify_tx_commitment_def Let_def index_def split: if_splits)
qed

text \<open>For a block that follows the segregated witness rules, the proof the service builds is accepted, with the block's own data.\<close>

lemma own_short_proof_accepted:
  assumes "block_of E (calculate_wtxid E) header height txs = Some block" "length txs < 2 ^ 32" "segwit_valid E txs"
    and "block_to_short_header_proof E (calculate_txid E) block = Some p" "bip34_height P (hd txs) = Some n"
  shows "verify_short_proof E P p = Some (Ok (short_proof_info p n))"
proof -
  from assms(1) obtain root where root: "calculate_witness_root (env_sha256 E) (calculate_wtxid E) txs (length txs) = Some root"
    and header: "bb_header block = HeaderWrapper_new E header (of_nat (length txs)) height root" and data: "bb_txdata block = txs"
    by (auto simp: block_of_def panic_simps)
  from assms(3) obtain c rest where txs: "txs = c # rest"
    by (cases txs) (simp_all add: segwit_valid_def)
  from assms(4) obtain nodes path where
    nodes: "merkle_tree_new (env_sha256 E) (map (calculate_txid E) txs) = Some nodes" "get_idx_path nodes 0 = Some path" and
    path: "calculate_root_with_merkle_proof (env_sha256 E) (calculate_txid E c) 0 path = Some (hw_merkle_root (bb_header block))" and
    p: "p = \<lparr> shp_header = bb_header block, shp_coinbase_tx = c, shp_coinbase_tx_txid_merkle_proof = path \<rparr>"
    by (auto simp: block_to_short_header_proof_def data txs index_def panic_simps)
  have small: "Suc (length rest) < 2 ^ 32"
    using assms(2) txs by simp
  have one: "hw_tx_count (bb_header block) = 1 \<longleftrightarrow> rest = []"
    using unat_tx_count [OF small] by (auto simp: header HeaderWrapper_new_def txs word_eq_unat)
  obtain r where r: "merkle_root nodes = Some r"
    using merkle_root_exists [OF nodes(1)] txs by auto
  have "r = hw_merkle_root (bb_header block)"
    using coinbase_proof_leads_to_root [OF _ r nodes(2)] nodes(1) small path by (simp add: txs)
  then have txid_root: "merkle_root_of (env_sha256 E) (map (calculate_txid E) (c # rest)) = Some (hw_merkle_root (bb_header block))"
    using nodes(1) r by (simp add: merkle_root_of_def txs)
  have "verify_segwit E (bb_header block) \<lparr> ip_wtxids = zeros 32 # map (calculate_wtxid E) rest, ip_coinbase_tx = c,
      ip_coinbase_merkle_proof = path \<rparr> [] = Some (Ok ())"
    by (rule honest_segwit [OF assms(3) [unfolded txs] _ root [unfolded txs] txid_root])
      (use one in \<open>auto simp: header HeaderWrapper_new_def\<close>)
  moreover have "hw_txs_commitment (bb_header block) = zeros 32" if "rest = []"
    using calculate_witness_root_block [of "env_sha256 E" "calculate_wtxid E" c rest root] root that
    by (simp add: txs header HeaderWrapper_new_def)
  ultimately have "verify_tx_commitment E p = Some (Ok ())"
    using segwit_commitment [of E p] one by (simp add: p)
  moreover have "hw_verify_hash E (bb_header block)"
    by (simp add: header HeaderWrapper_new_def hw_verify_hash_def hw_hash_def hw_block_hash_def)
  ultimately show ?thesis
    using path assms(5) by (simp add: verify_short_proof_def p txs)
qed

subsection \<open>What a header hash fixes\<close>

text \<open>The part of the Merkle path that is used: the loop counts its steps in 32 bits.\<close>

definition used_path :: "short_header_proof \<Rightarrow> hash32 list" where
  "used_path p = (let path = shp_coinbase_tx_txid_merkle_proof p in take (unat (of_nat (length path) :: u32)) path)"

definition short_proof_preimages :: "btc_env \<Rightarrow> short_header_proof \<Rightarrow> bytes set" where
  "short_proof_preimages E p =
     (let coinbase = shp_coinbase_tx p in
        set (proof_preimages (env_sha256 E) (calculate_txid E coinbase) 0 (used_path p)) \<union> {txid_preimage E coinbase}
      \<union> (case btx_input coinbase of [] \<Rightarrow> {} | i # _ \<Rightarrow> (\<lambda>v. hw_txs_commitment (shp_header p) @ v) ` set (take 1 (ti_witness i))))"

text \<open>Hashes are arrays of 32 bytes, and the coinbase transaction is not one of the 64 byte transactions that look like inner nodes.\<close>

definition short_proof_wf :: "btc_env \<Rightarrow> short_header_proof \<Rightarrow> bool" where
  "short_proof_wf E p \<longleftrightarrow> (\<forall>s \<in> set (shp_coinbase_tx_txid_merkle_proof p). length s = 32)
     \<and> length (hw_txs_commitment (shp_header p)) = 32 \<and> length (txid_preimage E (shp_coinbase_tx p)) \<noteq> 64"

text \<open>The encoding without witnesses determines the inputs without theirs.\<close>

definition input_encoding_law :: "btc_env \<Rightarrow> bool" where
  "input_encoding_law E \<longleftrightarrow> (\<forall>t u. txid_preimage E t = txid_preimage E u \<longrightarrow>
     map (\<lambda>i. i\<lparr>ti_witness := []\<rparr>) (btx_input t) = map (\<lambda>i. i\<lparr>ti_witness := []\<rparr>) (btx_input u))"

fun path_root :: "btc_env \<Rightarrow> hash32 \<Rightarrow> hash32 list \<Rightarrow> hash32" where
  "path_root E h [] = h"
| "path_root E h (s # p) = path_root E (dsha E (h @ s)) p"

lemma fold_proof_zero: "fold_proof (env_sha256 E) h 0 p = Some (path_root E h p)"
  by (induction p arbitrary: h) (simp_all add: dsha_def)

lemma path_root_snoc: "path_root E h (p @ [s]) = dsha E (path_root E h p @ s)"
  by (induction p arbitrary: h) simp_all

lemma proof_preimages_snoc:
  "proof_preimages (env_sha256 E) h 0 (p @ [s]) = proof_preimages (env_sha256 E) h 0 p @ [path_root E h p @ s]"
  by (induction p arbitrary: h) (simp_all add: dsha_def Let_def)

lemma path_root_32: "sha_32 E \<Longrightarrow> length h = 32 \<Longrightarrow> length (path_root E h p) = 32"
  by (induction p arbitrary: h) (simp_all add: dsha_length)

text \<open>Two paths to one root, from leaves that are not inner nodes, are the same path from the same leaf.\<close>

lemma path_root_unique:
  assumes "path_root E (dsha E x) p = path_root E (dsha E y) q" "sha_32 E" "inj_on (dsha E) P"
    and "set (proof_preimages (env_sha256 E) (dsha E x) 0 p) \<subseteq> P" "set (proof_preimages (env_sha256 E) (dsha E y) 0 q) \<subseteq> P"
    and "x \<in> P" "y \<in> P" "length x \<noteq> 64" "length y \<noteq> 64"
    and "\<forall>s \<in> set p. length s = 32" "\<forall>s \<in> set q. length s = 32"
  shows "x = y \<and> p = q"
  using assms(1,4,5,10,11)
proof (induction p arbitrary: q rule: rev_induct)
  case Nil
  then show ?case
  proof (cases q rule: rev_cases)
    case Nil
    with assms(3,6,7) \<open>path_root E (dsha E x) [] = _\<close> show ?thesis
      by (auto dest: inj_onD)
  next
    case (snoc q' s)
    with Nil.prems have "x = path_root E (dsha E y) q' @ s"
      by (intro inj_onD [OF assms(3) _ assms(6)]) (simp_all add: path_root_snoc proof_preimages_snoc)
    with assms(2,8) Nil.prems(5) snoc show ?thesis
      by (simp add: path_root_32 dsha_length)
  qed
next
  case (snoc s p)
  then show ?case
  proof (cases q rule: rev_cases)
    case Nil
    with snoc.prems have "y = path_root E (dsha E x) p @ s"
      by (intro inj_onD [OF assms(3) _ assms(7)]) (simp_all add: path_root_snoc proof_preimages_snoc)
    with assms(2,9) snoc.prems(4) show ?thesis
      by (simp add: path_root_32 dsha_length)
  next
    case (snoc q' t)
    have "path_root E (dsha E x) p @ s = path_root E (dsha E y) q' @ t"
      by (rule inj_onD [OF assms(3)]) (use snoc.prems snoc in \<open>simp_all add: path_root_snoc proof_preimages_snoc\<close>)
    moreover have "length (path_root E (dsha E x) p) = length (path_root E (dsha E y) q')"
      using assms(2) by (simp add: path_root_32 dsha_length)
    ultimately show ?thesis
      using snoc.IH [of q'] snoc.prems snoc by (simp add: proof_preimages_snoc)
  qed
qed

lemma verify_short_proof_Ok:
  assumes "verify_short_proof E P p = Some (Ok info)"
  shows "hw_verify_hash E (shp_header p)" "verify_tx_commitment E p = Some (Ok ())"
    and "path_root E (calculate_txid E (shp_coinbase_tx p)) (used_path p) = hw_merkle_root (shp_header p)"
    and "\<exists>height. bip34_height P (shp_coinbase_tx p) = Some height \<and> info = short_proof_info p height"
  using assms
  by (auto simp: verify_short_proof_def calculate_root_with_merkle_proof_def fold_proof_zero used_path_def Let_def panic_simps
    split: if_splits sum.splits)

lemma bip34_height_inputs:
  assumes "map (\<lambda>i. i\<lparr>ti_witness := []\<rparr>) (btx_input c) = map (\<lambda>i. i\<lparr>ti_witness := []\<rparr>) (btx_input c')"
  shows "bip34_height P c = bip34_height P c'"
proof -
  have "map ti_script_sig (btx_input c) = map ti_script_sig (btx_input c')"
    using arg_cong [OF assms, of "map ti_script_sig"] by (simp add: o_def)
  then show ?thesis
    by (cases "btx_input c"; cases "btx_input c'") (simp_all add: bip34_height_def index_def)
qed

lemma used_path_depth: "(of_nat (length (used_path p)) :: u8) = of_nat (length (shp_coinbase_tx_txid_merkle_proof p))"
proof -
  let ?n = "length (shp_coinbase_tx_txid_merkle_proof p)"
  have "length (used_path p) = ?n mod 2 ^ 32"
    using mod_less_eq_dividend [of ?n "2 ^ 32"] by (simp add: used_path_def Let_def unsigned_of_nat take_bit_eq_mod min_absorb2)
  then show ?thesis
    by (simp add: word_of_nat_eq_iff take_bit_eq_mod mod_mod_cancel)
qed

lemma verify_tx_commitment_Some:
  assumes "verify_tx_commitment E p = Some (Ok ())" "commitment_idx (shp_coinbase_tx p) = Some idx"
  shows "\<exists>i is v vs. btx_input (shp_coinbase_tx p) = i # is \<and> ti_witness i = v # vs
    \<and> committed_hash (to_script_pubkey (btx_output (shp_coinbase_tx p) ! idx)) = witness_commitment E (hw_txs_commitment (shp_header p)) v"
  using assms
  by (cases "btx_input (shp_coinbase_tx p)")
    (auto simp: verify_tx_commitment_def Let_def index_def panic_simps neq_Nil_conv split: if_splits)

text \<open>The header hash fixes the coinbase transaction up to its witness, and the Merkle path.\<close>

lemma short_proof_coinbase:
  assumes "verify_short_proof E P p = Some (Ok i)" "verify_short_proof E P p' = Some (Ok i')"
    and "hw_header (shp_header p) = hw_header (shp_header p')"
    and "short_proof_wf E p" "short_proof_wf E p'" "sha_32 E"
    and "inj_on (dsha E) (short_proof_preimages E p \<union> short_proof_preimages E p')"
  shows "txid_preimage E (shp_coinbase_tx p) = txid_preimage E (shp_coinbase_tx p') \<and> used_path p = used_path p'"
proof (rule path_root_unique [OF _ assms(6,7)])
  show "path_root E (dsha E (txid_preimage E (shp_coinbase_tx p))) (used_path p) =
      path_root E (dsha E (txid_preimage E (shp_coinbase_tx p'))) (used_path p')"
    using verify_short_proof_Ok(3) [OF assms(1)] verify_short_proof_Ok(3) [OF assms(2)] assms(3)
    by (simp add: calculate_txid_preimage hw_merkle_root_def)
qed (use assms(4,5) in \<open>auto simp: short_proof_preimages_def Let_def calculate_txid_preimage short_proof_wf_def used_path_def dest: in_set_takeD\<close>)

text \<open>C14: For proofs without hash collisions and coinbase transactions that are not 64 bytes long, the hash of a header fixes what
  an accepted short proof says of the block: its predecessor, height and depth, and, where the coinbase transaction has a witness
  commitment, also the witness root. The system contract can thus be told only the truth about such a block.\<close>

theorem short_proof_binding:
  assumes "verify_short_proof E P p = Some (Ok i)" "verify_short_proof E P p' = Some (Ok i')" "ui_header_hash i = ui_header_hash i'"
    and "short_proof_wf E p" "short_proof_wf E p'" "sha_32 E" "encoding_laws E" "input_encoding_law E"
    and "inj_on (\<lambda>h. dsha E (encode_header E h)) {hw_header (shp_header p), hw_header (shp_header p')}"
    and "inj_on (dsha E) (short_proof_preimages E p \<union> short_proof_preimages E p')"
  shows "i' = (if commitment_idx (shp_coinbase_tx p) = None then i\<lparr>ui_tx_commitment := ui_tx_commitment i'\<rparr> else i)"
proof -
  note ok = verify_short_proof_Ok [OF assms(1)] and ok' = verify_short_proof_Ok [OF assms(2)]
  obtain n n' where n: "bip34_height P (shp_coinbase_tx p) = Some n" "bip34_height P (shp_coinbase_tx p') = Some n'" and
    i: "i = short_proof_info p n" "i' = short_proof_info p' n'"
    using ok(4) ok'(4) by blast
  have "dsha E (encode_header E (hw_header (shp_header p))) = dsha E (encode_header E (hw_header (shp_header p')))"
    using ok(1) ok'(1) assms(3) unfolding i by (simp add: hw_verify_hash_def hw_block_hash_def short_proof_info_def)
  then have header: "hw_header (shp_header p) = hw_header (shp_header p')"
    by (rule inj_onD [OF assms(9)]) simp_all
  from short_proof_coinbase [OF assms(1,2) header assms(4-6,10)]
  have pre: "txid_preimage E (shp_coinbase_tx p) = txid_preimage E (shp_coinbase_tx p')" and path: "used_path p = used_path p'"
    by simp_all
  have height: "bip34_height P (shp_coinbase_tx p) = bip34_height P (shp_coinbase_tx p')"
    by (rule bip34_height_inputs) (use assms(8) pre in \<open>unfold input_encoding_law_def, blast\<close>)
  have outs: "btx_output (shp_coinbase_tx p) = btx_output (shp_coinbase_tx p')"
    using assms(7) pre unfolding encoding_laws_def by blast
  have rest: "i' = i\<lparr>ui_tx_commitment := ui_tx_commitment i'\<rparr>"
    using n height header assms(3) used_path_depth [of p] used_path_depth [of p'] path
    unfolding i by (simp add: hw_prev_hash_def short_proof_info_def)
  have "ui_tx_commitment i = ui_tx_commitment i'" if idx: "commitment_idx (shp_coinbase_tx p) = Some k" for k
  proof -
    have idx': "commitment_idx (shp_coinbase_tx p') = Some k"
      using idx outs by (simp add: commitment_idx_def)
    obtain j js v vs where
      j: "btx_input (shp_coinbase_tx p) = j # js" "ti_witness j = v # vs" and
      c: "committed_hash (to_script_pubkey (btx_output (shp_coinbase_tx p) ! k)) = witness_commitment E (hw_txs_commitment (shp_header p)) v"
      using verify_tx_commitment_Some [OF ok(2) idx] by blast
    obtain j' js' v' vs' where
      j': "btx_input (shp_coinbase_tx p') = j' # js'" "ti_witness j' = v' # vs'" and
      c': "committed_hash (to_script_pubkey (btx_output (shp_coinbase_tx p') ! k)) = witness_commitment E (hw_txs_commitment (shp_header p')) v'"
      using verify_tx_commitment_Some [OF ok'(2) idx'] by blast
    have hash: "dsha E (hw_txs_commitment (shp_header p) @ v) = dsha E (hw_txs_commitment (shp_header p') @ v')"
      using c c' outs by (simp add: witness_commitment_def)
    have "hw_txs_commitment (shp_header p) @ v = hw_txs_commitment (shp_header p') @ v'"
      by (rule inj_onD [OF assms(10) hash]) (use j j' in \<open>simp_all add: short_proof_preimages_def Let_def\<close>)
    then show ?thesis
      using assms(4,5) unfolding i by (simp add: short_proof_wf_def short_proof_info_def)
  qed
  then have "i' = i" if "commitment_idx (shp_coinbase_tx p) \<noteq> None"
    using rest that by (metis l1_update_info.surjective l1_update_info.update_convs(3) not_None_eq)
  with rest show ?thesis
    by simp
qed


subsection \<open>The guest confirms what the node confirmed\<close>

definition record_query :: "l1_query \<Rightarrow> queried_hashes \<Rightarrow> queried_hashes" where
  "record_query q queried = bm_insert (q_l2_height q) (or_else (bm_get queried (q_l2_height q)) [] @ [q_hash q]) queried"

definition confirmed :: "btc_env \<Rightarrow> shp_env \<Rightarrow> ledger_db \<Rightarrow> l1_query \<Rightarrow> bool" where
  "confirmed E P db q \<longleftrightarrow> (case get_short_header_proof_by_l1_hash db (q_hash q) of
     None \<Rightarrow> False | Some raw \<Rightarrow> check_query E P q raw = Some True)"

lemma native_get_and_verify_True:
  "native_get_and_verify E P True db q queried = Some (Ok True, queried') \<longleftrightarrow>
     confirmed E P db q \<and> queried' = record_query q queried"
  by (auto simp: native_get_and_verify_def confirmed_def record_query_def panic_simps split: option.splits)

lemma native_queries_True:
  "native_queries E P db qs queried = Some (map (\<lambda>_. Ok True) qs, queried') \<longleftrightarrow>
     list_all (confirmed E P db) qs \<and> queried' = fold record_query qs queried"
proof (induction qs arbitrary: queried)
  case (Cons q qs)
  have "native_queries E P db (q # qs) queried = Some (map (\<lambda>_. Ok True) (q # qs), queried') \<longleftrightarrow>
      (\<exists>queried1. native_get_and_verify E P True db q queried = Some (Ok True, queried1)
        \<and> native_queries E P db qs queried1 = Some (map (\<lambda>_. Ok True) qs, queried'))"
    by (auto simp: panic_simps)
  then show ?case
    unfolding native_get_and_verify_True Cons.IH by auto
qed auto

lemma fold_record_inv: "bm_inv queried \<Longrightarrow> bm_inv (fold record_query qs queried)"
  by (induction qs arbitrary: queried) (simp_all add: record_query_def bm.inv_insert)

lemma fold_record_get:
  "bm_inv queried \<Longrightarrow> bm_get (fold record_query qs queried) h =
     (let hashes = map q_hash (filter (\<lambda>q. q_l2_height q = h) qs) in
      if hashes = [] then bm_get queried h else Some (or_else (bm_get queried h) [] @ hashes))"
proof (induction qs arbitrary: queried)
  case (Cons q qs)
  then have "bm_inv (record_query q queried)"
    by (simp add: record_query_def bm.inv_insert)
  from Cons.IH [OF this] Cons.prems show ?case
    by (simp add: record_query_def bm.get_insert Let_def or_else_def)
qed simp

lemma take_queried_eq:
  assumes "bm_inv queried" "distinct hs"
  shows "fst (take_queried hs queried) = concat (map (\<lambda>h. or_else (bm_get queried h) []) hs)
    \<and> bm_get (snd (take_queried hs queried)) = (\<lambda>h. if h \<in> set hs then None else bm_get queried h)"
  using assms
proof (induction hs arbitrary: queried)
  case (Cons h hs)
  have "concat (map (\<lambda>k. or_else (bm_get (bm_remove h queried) k) []) hs) = concat (map (\<lambda>k. or_else (bm_get queried k) []) hs)"
    by (rule arg_cong [where f = concat]) (use Cons.prems in \<open>auto simp: tbl.get_remove\<close>)
  moreover have "fst (take_queried hs (bm_remove h queried)) = concat (map (\<lambda>k. or_else (bm_get (bm_remove h queried) k) []) hs)
      \<and> bm_get (snd (take_queried hs (bm_remove h queried))) = (\<lambda>k. if k \<in> set hs then None else bm_get (bm_remove h queried) k)"
    by (rule Cons.IH) (use Cons.prems in \<open>simp_all add: tbl.inv_remove\<close>)
  ultimately show ?case
    using Cons.prems(1) by (simp add: tbl.get_remove case_prod_beta fun_eq_iff)
qed simp

text \<open>A sequence sorted by a key is the concatenation of its groups, in the order of the keys.\<close>

lemma sorted_least_first:
  fixes f :: "'a \<Rightarrow> 'k::linorder"
  shows "sorted (map f xs) \<Longrightarrow> \<forall>x \<in> set xs. k \<le> f x \<Longrightarrow> filter (\<lambda>x. f x = k) xs @ filter (\<lambda>x. f x \<noteq> k) xs = xs"
proof (induction xs)
  case (Cons x xs)
  show ?case
  proof (cases "f x = k")
    case False
    then have "\<forall>y \<in> set xs. f y \<noteq> k"
      using Cons.prems by force
    then have "filter (\<lambda>x. f x = k) xs = []" "filter (\<lambda>x. f x \<noteq> k) xs = xs"
      by (auto simp: filter_empty_conv intro: filter_True)
    with False show ?thesis
      by simp
  qed (use Cons in simp)
qed simp

lemma concat_groups:
  fixes f :: "'a \<Rightarrow> 'k::linorder"
  shows "sorted_wrt (<) ks \<Longrightarrow> sorted (map f xs) \<Longrightarrow> f ` set xs \<subseteq> set ks \<Longrightarrow>
    concat (map (\<lambda>k. filter (\<lambda>x. f x = k) xs) ks) = xs"
proof (induction ks arbitrary: xs)
  case (Cons k ks)
  let ?rest = "filter (\<lambda>x. f x \<noteq> k) xs"
  have "map (\<lambda>k'. filter (\<lambda>x. f x = k') xs) ks = map (\<lambda>k'. filter (\<lambda>x. f x = k') ?rest) ks"
    using Cons.prems(1) by (auto intro!: filter_cong)
  then have "concat (map (\<lambda>k'. filter (\<lambda>x. f x = k') xs) ks) = concat (map (\<lambda>k'. filter (\<lambda>x. f x = k') ?rest) ks)"
    by (rule arg_cong)
  also have "\<dots> = ?rest"
    by (rule Cons.IH) (use Cons.prems sorted_filter in auto)
  finally have "concat (map (\<lambda>k'. filter (\<lambda>x. f x = k') xs) ks) = ?rest" .
  moreover have "filter (\<lambda>x. f x = k) xs @ ?rest = xs"
    using Cons.prems by (intro sorted_least_first) (auto simp: less_imp_le)
  ultimately show ?case
    by simp
qed simp

lemma zk_queries_confirmed:
  assumes "list_all (confirmed E P db) qs"
  shows "\<exists>raws. those (map (get_short_header_proof_by_l1_hash db) (map q_hash qs)) = Some raws
    \<and> zk_queries E P qs \<lparr> zp_short_header_proofs = raws, zp_last_queried_and_verified_hash = l \<rparr>
      = Some (map (\<lambda>_. True) qs, \<lparr> zp_short_header_proofs = [],
          zp_last_queried_and_verified_hash = (if qs = [] then l else Some (q_hash (last qs))) \<rparr>)"
  using assms
proof (induction qs arbitrary: l)
  case (Cons q qs)
  from Cons.prems obtain raw where raw: "get_short_header_proof_by_l1_hash db (q_hash q) = Some raw" "check_query E P q raw = Some True"
    by (auto simp: confirmed_def split: option.splits)
  from Cons.IH [of "Some (q_hash q)"] Cons.prems obtain raws where
    raws: "those (map (get_short_header_proof_by_l1_hash db) (map q_hash qs)) = Some raws"
      "zk_queries E P qs \<lparr> zp_short_header_proofs = raws, zp_last_queried_and_verified_hash = Some (q_hash q) \<rparr>
       = Some (map (\<lambda>_. True) qs, \<lparr> zp_short_header_proofs = [],
          zp_last_queried_and_verified_hash = (if qs = [] then Some (q_hash q) else Some (q_hash (last qs))) \<rparr>)"
    by auto
  then show ?case
    using raw by (intro exI [of _ "raw # raws"]) (simp add: zk_get_and_verify_def)
qed simp

lemma recorded_hashes:
  assumes "bm_inv queried" "sorted (map q_l2_height qs)" "q_l2_height ` set qs \<subseteq> {a..b}" "\<forall>h \<in> {a..b}. bm_get queried h = None"
  shows "fst (take_queried_hashes a b (fold record_query qs queried)) = map q_hash qs"
    and "bm_get (snd (take_queried_hashes a b (fold record_query qs queried))) = bm_get queried"
proof -
  let ?q = "fold record_query qs queried"
  have get: "or_else (bm_get ?q h) [] = map q_hash (filter (\<lambda>q. q_l2_height q = h) qs)" if "h \<in> {a..b}" for h
    using assms(1,4) that by (simp add: fold_record_get Let_def or_else_def)
  have "distinct (u64_range a b)"
    using sorted_u64_range strict_sorted_iff by blast
  note taken = take_queried_eq [OF fold_record_inv [OF assms(1), of qs] this, folded take_queried_hashes_def]
  have "fst (take_queried_hashes a b ?q) = concat (map (\<lambda>h. map q_hash (filter (\<lambda>q. q_l2_height q = h) qs)) (u64_range a b))"
    unfolding taken [THEN conjunct1] by (rule arg_cong [where f = concat]) (auto simp: get)
  also have "\<dots> = map q_hash (concat (map (\<lambda>h. filter (\<lambda>q. q_l2_height q = h) qs) (u64_range a b)))"
    by (simp add: map_concat o_def)
  also have "\<dots> = map q_hash qs"
    using concat_groups [OF sorted_u64_range assms(2)] assms(3) by simp
  finally show "fst (take_queried_hashes a b ?q) = map q_hash qs" .
  have "filter (\<lambda>q. q_l2_height q = h) qs = []" if "h \<notin> {a..b}" for h
    using assms(3) that by (auto simp: filter_empty_conv)
  then show "bm_get (snd (take_queried_hashes a b ?q)) = bm_get queried"
    using taken [THEN conjunct2] assms(1,4) by (auto simp: fun_eq_iff fold_record_get Let_def)
qed

text \<open>C9: When a node confirmed every query of the blocks from one height to another, the host finds a proof for each hash that was
  recorded, and the guest, given these proofs, confirms the same queries, uses all of them and ends with the hash of the last query.
  What was recorded for other blocks is untouched.\<close>

theorem guest_confirms_queries:
  assumes "native_queries E P db qs queried = Some (map (\<lambda>_. Ok True) qs, queried')" "bm_inv queried"
    and "sorted (map q_l2_height qs)" "q_l2_height ` set qs \<subseteq> {a..b}" "\<forall>h \<in> {a..b}. bm_get queried h = None"
  shows "\<exists>proofs rest. host_short_header_proofs db a b queried' = Some (proofs, rest) \<and> bm_get rest = bm_get queried
    \<and> zk_queries E P qs \<lparr> zp_short_header_proofs = proofs, zp_last_queried_and_verified_hash = None \<rparr>
      = Some (map (\<lambda>_. True) qs, \<lparr> zp_short_header_proofs = [],
          zp_last_queried_and_verified_hash = (if qs = [] then None else Some (q_hash (last qs))) \<rparr>)"
proof -
  have q: "list_all (confirmed E P db) qs" "queried' = fold record_query qs queried"
    using assms(1) by (simp_all add: native_queries_True)
  from zk_queries_confirmed [OF q(1), of None] obtain proofs where
    proofs: "those (map (get_short_header_proof_by_l1_hash db) (map q_hash qs)) = Some proofs"
      "zk_queries E P qs \<lparr> zp_short_header_proofs = proofs, zp_last_queried_and_verified_hash = None \<rparr>
      = Some (map (\<lambda>_. True) qs, \<lparr> zp_short_header_proofs = [],
          zp_last_queried_and_verified_hash = (if qs = [] then None else Some (q_hash (last qs))) \<rparr>)"
    by blast
  have "host_short_header_proofs db a b queried' = Some (proofs, snd (take_queried_hashes a b queried'))"
    using recorded_hashes(1) [OF assms(2-5)] proofs(1) q(2) by (simp add: host_short_header_proofs_def case_prod_beta)
  with recorded_hashes(2) [OF assms(2-5)] proofs(2) q(2) show ?thesis
    by blast
qed

subsection \<open>A block on which the properties are applied\<close>

text \<open>
  The block of \<^verbatim>\<open>Da_Verifier\<close>, whose proof is also given with another number of transactions, and a block whose coinbase transaction
  has no witness commitment.
\<close>

definition demo_short_proof :: short_header_proof where
  "demo_short_proof = \<lparr> shp_header = bb_header demo_block, shp_coinbase_tx = demo_coinbase,
     shp_coinbase_tx_txid_merkle_proof = [129 # zeros 31, 170 # zeros 31] \<rparr>"

definition recounted_short_proof :: short_header_proof where
  "recounted_short_proof = demo_short_proof\<lparr>shp_header := (bb_header demo_block)\<lparr>hw_tx_count := 5, hw_height := 9\<rparr>\<rparr>"

definition plain_coinbase :: btc_tx where
  "plain_coinbase = mk_tx [mk_input (zeros 32) 0 []] [mk_output 50 [3]]"

definition plain_short_proof :: short_header_proof where
  "plain_short_proof = \<lparr> shp_header = HeaderWrapper_new demo_env
      \<lparr> h_version = 1, h_prev_blockhash = zeros 32, h_merkle_root = calculate_txid demo_env plain_coinbase,
        h_time = 0, h_bits = 0, h_nonce = 5 \<rparr> 1 7 (zeros 32),
     shp_coinbase_tx = plain_coinbase, shp_coinbase_tx_txid_merkle_proof = [] \<rparr>"

definition demo_shp_env :: shp_env where
  "demo_shp_env = \<lparr> first_push = Some, read_scriptint = (\<lambda>b. Some (7 + int (length b))),
     dec_short_proof = (\<lambda>b. if b = [1] then Some demo_short_proof else None) \<rparr>"

lemma demo_short_proof_built: "block_to_short_header_proof demo_env (calculate_txid demo_env) demo_block = Some demo_short_proof"
  by code_simp

lemma demo_short_proof_accepted: "verify_short_proof demo_env demo_shp_env demo_short_proof = Some (Ok (short_proof_info demo_short_proof 7))"
proof (rule own_short_proof_accepted [OF demo_block_of _ _ demo_short_proof_built])
  show "bip34_height demo_shp_env (hd (bb_txdata demo_block)) = Some 7"
    by code_simp
qed (use demo_segwit in \<open>simp_all add: demo_block_def\<close>)

lemma recounted_short_proof_accepted:
  "verify_short_proof demo_env demo_shp_env recounted_short_proof = Some (Ok (short_proof_info recounted_short_proof 7))"
  by code_simp

lemma demo_input_law: "input_encoding_law demo_env"
  unfolding input_encoding_law_def
proof (intro allI impI)
  fix t u
  assume "txid_preimage demo_env t = txid_preimage demo_env u"
  then show "map (\<lambda>i. i\<lparr>ti_witness := []\<rparr>) (btx_input t) = map (\<lambda>i. i\<lparr>ti_witness := []\<rparr>) (btx_input u)"
    by (simp add: txid_preimage_def demo_env_def prefix_free_basic prefix_free_records)
qed

lemma demo_short_proof_preimages:
  "short_proof_preimages demo_env demo_short_proof \<union> short_proof_preimages demo_env recounted_short_proof
     \<subseteq> da_preimages demo_env [demo_coinbase, demo_chunk_tx, demo_plain_tx] demo_incl [demo_chunk_tx]"
proof -
  have root: "merkle_root_of demo_sha [zeros 32, 49 # zeros 31, 74 # zeros 31] = Some (209 # zeros 31)"
    by code_simp
  show ?thesis
    using root
    by (auto simp: short_proof_preimages_def used_path_def recounted_short_proof_def demo_short_proof_def da_preimages_def Let_def demo_wtxids
      demo_incl_def commitment_preimages_def demo_coinbase_input demo_block_def HeaderWrapper_new_def)
qed

theorem short_proof_binding_witness:
  "short_proof_info recounted_short_proof 7 = short_proof_info demo_short_proof 7"
proof -
  have idx: "commitment_idx (shp_coinbase_tx demo_short_proof) = Some 0"
    by code_simp
  have wf: "short_proof_wf demo_env demo_short_proof" "short_proof_wf demo_env recounted_short_proof"
    by code_simp+
  have same: "hw_header (shp_header recounted_short_proof) = hw_header (shp_header demo_short_proof)"
    "hw_hash (shp_header recounted_short_proof) = hw_hash (shp_header demo_short_proof)"
    by (simp_all add: recounted_short_proof_def demo_short_proof_def hw_hash_def)
  have "inj_on (dsha demo_env) (short_proof_preimages demo_env demo_short_proof \<union> short_proof_preimages demo_env recounted_short_proof)"
    using demo_no_collision demo_short_proof_preimages by (rule inj_on_subset)
  then have "short_proof_info recounted_short_proof 7 = (if commitment_idx (shp_coinbase_tx demo_short_proof) = None
      then (short_proof_info demo_short_proof 7)\<lparr>ui_tx_commitment := ui_tx_commitment (short_proof_info recounted_short_proof 7)\<rparr>
      else short_proof_info demo_short_proof 7)"
    by (intro short_proof_binding [OF demo_short_proof_accepted recounted_short_proof_accepted _ wf demo_sha_32 demo_encoding demo_input_law])
      (simp_all only: same short_proof_info_def l1_update_info.simps insert_absorb2 inj_on_insert inj_on_empty empty_Diff image_empty
        empty_iff simp_thms)
  then show ?thesis
    by (simp only: idx option.distinct if_False)
qed


definition demo_query :: "u64 \<Rightarrow> l1_query" where
  "demo_query height = \<lparr> q_hash = hw_hash (bb_header demo_block), q_prev_hash = zeros 32, q_height = 7, q_txs_commitment = 209 # zeros 31,
     q_coinbase_depth = 2, q_l2_height = height \<rparr>"

definition demo_shp_db :: ledger_db where
  "demo_shp_db = put_short_header_proof_by_l1_hash (hw_hash (bb_header demo_block)) [1] empty_ledger_db"

lemma demo_query_confirmed: "confirmed demo_env demo_shp_env demo_shp_db (demo_query height)"
proof -
  have "check_query demo_env demo_shp_env (demo_query height) [1] = Some (query_matches (demo_query height) (short_proof_info demo_short_proof 7))"
    using demo_short_proof_accepted by (simp add: check_query_def demo_shp_env_def)
  moreover have "query_matches (demo_query height) (short_proof_info demo_short_proof 7)"
    by (simp add: query_matches_def demo_query_def short_proof_info_def demo_short_proof_def demo_block_def HeaderWrapper_new_def)
  moreover have "get_short_header_proof_by_l1_hash demo_shp_db (q_hash (demo_query height)) = Some [1]"
    by (simp add: demo_shp_db_def demo_query_def put_short_header_proof_by_l1_hash_def get_short_header_proof_by_l1_hash_def
      empty_ledger_db_def bm_get_def)
  ultimately show ?thesis
    by (simp add: confirmed_def)
qed

theorem guest_confirms_queries_witness:
  "\<exists>proofs rest. host_short_header_proofs demo_shp_db 4 6 (fold record_query [demo_query 4, demo_query 4, demo_query 6] [(1, [[8]])])
       = Some (proofs, rest) \<and> bm_get rest = bm_get [(1, [[8]])]
     \<and> zk_queries demo_env demo_shp_env [demo_query 4, demo_query 4, demo_query 6]
          \<lparr> zp_short_header_proofs = proofs, zp_last_queried_and_verified_hash = None \<rparr>
        = Some ([True, True, True], \<lparr> zp_short_header_proofs = [],
            zp_last_queried_and_verified_hash = Some (hw_hash (bb_header demo_block)) \<rparr>)"
proof -
  let ?qs = "[demo_query 4, demo_query 4, demo_query 6]" and ?m = "[(1, [[8]])] :: queried_hashes"
  have "native_queries demo_env demo_shp_env demo_shp_db ?qs ?m = Some (map (\<lambda>_. Ok True) ?qs, fold record_query ?qs ?m)"
    by (simp only: native_queries_True list.pred_inject demo_query_confirmed simp_thms)
  moreover have "bm_inv ?m" "sorted (map q_l2_height ?qs)" "q_l2_height ` set ?qs \<subseteq> {4..6}"
    by (simp_all add: bm_inv_def demo_query_def)
  moreover have "\<forall>h \<in> {4..6}. bm_get ?m h = None"
    by (auto simp: bm_get_def word_le_nat_alt)
  ultimately show ?thesis
    using guest_confirms_queries [of demo_env demo_shp_env demo_shp_db ?qs ?m] by (simp add: demo_query_def)
qed

end
