(* ===== verification/Spec2Isabelle.thy ===== *)
theory Spec2Isabelle
  imports Binary_Search Light_Client_Correct Initial_Values Full_Node_Correct Sequencer Short_Header_Proof
begin

text \<open>
  A verification of citrea, a Bitcoin rollup: header to be completed.
\<close>

end
